(* ===== verification/Prelude.thy ===== *)
theory Prelude
  imports Main "HOL-Library.Word"
begin

text \<open>
  The shared ground of the development: Go's fixed-width integers as \<^typ>\<open>int\<close> with the
  wrap-around written out, the outcome type of code that can panic or terminate the process,
  and the byte-addressed memory that every buffer of the client (memory-mapped log files,
  the command and broadcast buffers, the counters) lives in.
\<close>

unbundle bit_operations_syntax

named_theorems wrap_simps \<open>wrap-around of in-range integers\<close>
named_theorems mem_simps \<open>reading memory after a write\<close>

subsection \<open>Fixed-width integers\<close>

definition wrap32 :: "int \<Rightarrow> int" where
  "wrap32 x = (x + 2147483648) mod 4294967296 - 2147483648"

definition wrap64 :: "int \<Rightarrow> int" where
  "wrap64 x = (x + 9223372036854775808) mod 18446744073709551616 - 9223372036854775808"

definition in_i32 :: "int \<Rightarrow> bool" where
  "in_i32 x \<longleftrightarrow> - 2147483648 \<le> x \<and> x < 2147483648"

definition in_i64 :: "int \<Rightarrow> bool" where
  "in_i64 x \<longleftrightarrow> - 9223372036854775808 \<le> x \<and> x < 9223372036854775808"

lemma wrap32_id [wrap_simps]: "- 2147483648 \<le> x \<Longrightarrow> x < 2147483648 \<Longrightarrow> wrap32 x = x"
  by (simp add: wrap32_def)

lemma wrap64_id [wrap_simps]:
  "- 9223372036854775808 \<le> x \<Longrightarrow> x < 9223372036854775808 \<Longrightarrow> wrap64 x = x"
  by (simp add: wrap64_def)

lemma wrap32_in [simp]: "in_i32 x \<Longrightarrow> wrap32 x = x"
  by (simp add: wrap32_id in_i32_def)

lemma wrap64_in [simp]: "in_i64 x \<Longrightarrow> wrap64 x = x"
  by (simp add: wrap64_id in_i64_def)

lemma in_i32_wrap32 [simp]: "in_i32 (wrap32 x)"
  by (simp add: in_i32_def wrap32_def)

lemma in_i64_wrap64 [simp]: "in_i64 (wrap64 x)"
  by (simp add: in_i64_def wrap64_def)

lemma wrap32_mod [simp]: "wrap32 (x mod 4294967296) = wrap32 x"
  by (simp add: wrap32_def mod_add_left_eq)

lemma wrap64_mod [simp]: "wrap64 (x mod 18446744073709551616) = wrap64 x"
  by (simp add: wrap64_def mod_add_left_eq)

lemma wrap32_congruent: "wrap32 x mod 4294967296 = x mod 4294967296"
  by (simp add: wrap32_def mod_diff_left_eq)

lemma wrap64_congruent: "wrap64 x mod 18446744073709551616 = x mod 18446744073709551616"
  by (simp add: wrap64_def mod_diff_left_eq)

lemma wrap64_add_mod:
  "(wrap64 x + d) mod 18446744073709551616 = (x + d) mod 18446744073709551616"
  by (metis mod_add_left_eq wrap64_congruent)

lemma wrap32_add_mod: "(wrap32 x + d) mod 4294967296 = (x + d) mod 4294967296"
  by (metis mod_add_left_eq wrap32_congruent)

lemma wrap32_idem [simp]: "wrap32 (wrap32 x) = wrap32 x"
  by simp

subsection \<open>Outcomes\<close>

text \<open>
  A Go function either returns, panics, terminates the process through \<open>log.Fatal\<close>, or blocks
  for good, as a send on a full channel that only the sender would drain.
  The string of a fault names the check that failed.
\<close>

datatype fault = Fatal string | Panic string | Blocked string

type_synonym 'a res = "fault + 'a"

text \<open>A Go result with an error is a sum too, \<open>Inl\<close> the error.\<close>

type_synonym 'a outcome = "string + 'a"

definition bindR :: "'a res \<Rightarrow> ('a \<Rightarrow> 'b res) \<Rightarrow> 'b res" where
  "bindR r f = (case r of Inl e \<Rightarrow> Inl e | Inr x \<Rightarrow> f x)"

lemma bindR_Inr [simp]: "bindR (Inr x) f = f x"
  by (simp add: bindR_def)

lemma bindR_Inl [simp]: "bindR (Inl e) f = Inl e"
  by (simp add: bindR_def)

lemma bindR_eq_Inr: "bindR r f = Inr y \<longleftrightarrow> (\<exists>x. r = Inr x \<and> f x = Inr y)"
  by (cases r) auto

lemma bindR_assoc: "bindR (bindR r f) g = bindR r (\<lambda>x. bindR (f x) g)"
  by (cases r) auto

text \<open>Rewriting a computation from the front, its continuation only once it is reached.\<close>

lemma bindR_weak_cong: "r = r' \<Longrightarrow> bindR r f = bindR r' f"
  by simp

subsection \<open>Byte-addressed memory\<close>

type_synonym byte = "8 word"
type_synonym mem = "int \<Rightarrow> byte"

text \<open>
  Interference: what others do to memory before the \<open>n\<close>-th access of an operation is \<open>env n\<close>. Where
  nobody else acts it is \<open>alone\<close>.
\<close>

abbreviation alone :: "nat \<Rightarrow> mem \<Rightarrow> mem" where "alone \<equiv> \<lambda>_ m. m"

primrec read_bytes :: "mem \<Rightarrow> int \<Rightarrow> nat \<Rightarrow> byte list" where
  "read_bytes m a 0 = []"
| "read_bytes m a (Suc n) = m a # read_bytes m (a + 1) n"

primrec write_bytes :: "mem \<Rightarrow> int \<Rightarrow> byte list \<Rightarrow> mem" where
  "write_bytes m a [] = m"
| "write_bytes m a (b # bs) = write_bytes (m(a := b)) (a + 1) bs"

primrec le_val :: "byte list \<Rightarrow> int" where
  "le_val [] = 0"
| "le_val (b # bs) = uint b + 256 * le_val bs"

primrec le_bytes :: "nat \<Rightarrow> int \<Rightarrow> byte list" where
  "le_bytes 0 v = []"
| "le_bytes (Suc n) v = word_of_int v # le_bytes n (v div 256)"

text \<open>\<open>n\<close>-byte little-endian loads and stores.\<close>

definition load :: "nat \<Rightarrow> mem \<Rightarrow> int \<Rightarrow> int" where
  "load n m a = le_val (read_bytes m a n)"

definition store :: "nat \<Rightarrow> mem \<Rightarrow> int \<Rightarrow> int \<Rightarrow> mem" where
  "store n m a v = write_bytes m a (le_bytes n v)"

lemma length_read_bytes [simp]: "length (read_bytes m a n) = n"
  by (induction n arbitrary: a) auto

lemma length_le_bytes [simp]: "length (le_bytes n v) = n"
  by (induction n arbitrary: v) auto

lemma nth_read_bytes: "i < n \<Longrightarrow> read_bytes m a n ! i = m (a + int i)"
proof (induction n arbitrary: a i)
  case 0
  then show ?case by simp
next
  case (Suc n)
  then show ?case by (cases i) (auto simp: algebra_simps)
qed

lemma write_bytes_apply:
  "write_bytes m a bs x =
     (if a \<le> x \<and> x < a + int (length bs) then bs ! nat (x - a) else m x)"
proof (induction bs arbitrary: m a x)
  case Nil
  then show ?case by auto
next
  case (Cons b bs)
  show ?case
  proof (cases "x = a")
    case True
    then show ?thesis by (simp add: Cons.IH)
  next
    case False
    then have "nat (x - a) = Suc (nat (x - (a + 1)))" if "a \<le> x"
      using that by simp
    with False show ?thesis by (auto simp: Cons.IH)
  qed
qed

lemma read_bytes_cong:
  assumes "\<And>x. a \<le> x \<Longrightarrow> x < a + int n \<Longrightarrow> m x = m' x"
  shows "read_bytes m a n = read_bytes m' a n"
  using assms by (auto intro!: nth_equalityI simp: nth_read_bytes)

lemma read_write_same [mem_simps]:
  "n = length bs \<Longrightarrow> read_bytes (write_bytes m a bs) a n = bs"
  by (auto intro!: nth_equalityI simp: nth_read_bytes write_bytes_apply)

lemma read_write_disjoint:
  "a + int n \<le> b \<or> b + int (length bs) \<le> a \<Longrightarrow>
   read_bytes (write_bytes m b bs) a n = read_bytes m a n"
  by (rule read_bytes_cong) (auto simp: write_bytes_apply)

lemma read_bytes_append: "read_bytes m a (n + k) = read_bytes m a n @ read_bytes m (a + int n) k"
  by (induction n arbitrary: a) (auto simp: algebra_simps)

lemma write_bytes_append:
  "write_bytes m a (bs @ cs) = write_bytes (write_bytes m a bs) (a + int (length bs)) cs"
  by (induction bs arbitrary: m a) (auto simp: algebra_simps)

lemma write_bytes_commute:
  "a + int (length bs) \<le> b \<or> b + int (length cs) \<le> a \<Longrightarrow>
   write_bytes (write_bytes m a bs) b cs = write_bytes (write_bytes m b cs) a bs"
  by (rule ext) (auto simp: write_bytes_apply)

lemma write_read_id: "write_bytes m a (read_bytes m a n) = m"
  by (rule ext) (auto simp: write_bytes_apply nth_read_bytes)

lemma le_val_le_bytes [simp]: "le_val (le_bytes n v) = v mod 256 ^ n"
proof (induction n arbitrary: v)
  case 0
  then show ?case by simp
next
  case (Suc n)
  have "uint (word_of_int v :: byte) = v mod 256"
    by (simp add: uint_word_of_int take_bit_eq_mod)
  then show ?case
    by (simp add: Suc zmod_zmult2_eq)
qed

lemma le_val_nonneg [simp]: "0 \<le> le_val bs"
  by (induction bs) auto

lemma le_val_less: "le_val bs < 256 ^ length bs"
proof (induction bs)
  case Nil
  then show ?case by simp
next
  case (Cons b bs)
  have "uint b < 256" using uint_bounded [of b] by simp
  with Cons show ?case by simp
qed

lemma le_bytes_le_val: "n = length bs \<Longrightarrow> le_bytes n (le_val bs) = bs"
proof (induction bs arbitrary: n)
  case Nil
  then show ?case by simp
next
  case (Cons b bs)
  have u: "0 \<le> uint b" "uint b < 256" using uint_bounded [of b] by simp_all
  have "(word_of_int (uint b + 256 * le_val bs) :: byte) = b"
    by (simp only: word_uint_eq_iff uint_word_of_int take_bit_eq_mod) (simp add: u)
  moreover have "(uint b + 256 * le_val bs) div 256 = le_val bs"
    using u by simp
  ultimately show ?case using Cons by simp
qed

lemma load_store_same [mem_simps]: "load n (store n m a v) a = v mod 256 ^ n"
  by (simp add: load_def store_def read_write_same)

lemma load_store_disjoint:
  "a + int n \<le> b \<or> b + int k \<le> a \<Longrightarrow> load n (store k m b v) a = load n m a"
  by (simp add: load_def store_def read_write_disjoint)

lemma read_store_disjoint:
  "a + int n \<le> b \<or> b + int k \<le> a \<Longrightarrow> read_bytes (store k m b v) a n = read_bytes m a n"
  by (simp add: store_def read_write_disjoint)

lemma load_write_disjoint:
  "a + int n \<le> b \<or> b + int (length bs) \<le> a \<Longrightarrow> load n (write_bytes m b bs) a = load n m a"
  by (simp add: load_def read_write_disjoint)

lemma store_outside: "x < a \<or> a + int n \<le> x \<Longrightarrow> store n m a v x = m x"
  by (auto simp: store_def write_bytes_apply)

lemma load_nonneg [simp]: "0 \<le> load n m a"
  by (simp add: load_def)

lemma load_less: "load n m a < 256 ^ n"
  using le_val_less [of "read_bytes m a n"] by (simp add: load_def)

lemma le_bytes_mod: "le_bytes n (v mod 256 ^ n) = le_bytes n v"
  using le_bytes_le_val [of n "le_bytes n v"] by simp

lemma le_bytes_cong: "v mod 256 ^ n = w mod 256 ^ n \<Longrightarrow> le_bytes n v = le_bytes n w"
  by (metis le_bytes_mod)

lemma store_cong: "v mod 256 ^ n = w mod 256 ^ n \<Longrightarrow> store n m a v = store n m a w"
  by (drule le_bytes_cong) (simp add: store_def)

lemma map_read_bytes: "map (\<lambda>ix. m (a + int ix)) [0..<n] = read_bytes m a n"
  by (auto intro!: nth_equalityI simp: nth_read_bytes)

lemma fold_fill: "fold (\<lambda>ix m. m(a + int ix := b)) [0..<n] m = write_bytes m a (replicate n b)"
proof (induction n)
  case 0
  then show ?case by simp
next
  case (Suc n)
  define f where "f = (\<lambda>ix (m :: mem). m(a + int ix := b))"
  have "fold f [0..<Suc n] m = f n (fold f [0..<n] m)" by simp
  also have "\<dots> = write_bytes (write_bytes m a (replicate n b)) (a + int n) [b]"
    by (simp only: f_def Suc.IH write_bytes.simps)
  also have "\<dots> = write_bytes m a (replicate n b @ [b])" by (simp add: write_bytes_append)
  finally show ?case by (simp only: f_def replicate_append_same replicate_Suc)
qed

end
