(* ===== verification/Bits.thy ===== *)
theory Bits
  imports Prelude
begin

text \<open>
  The helpers of \<open>aeron/util/bits.go\<close> and \<open>aeron/util/version.go\<close>: rounding up to an
  alignment, the table-driven bit tricks (number of trailing zeroes, remainder modulo three),
  the power-of-two test, the batched memory copy every buffer write goes through, and
  packed semantic versions. The bit tricks are shown to compute what their names say.
\<close>

subsection \<open>Constants and alignment\<close>

definition CacheLineLength :: int where "CacheLineLength = 64"
definition SizeOfInt32 :: int where "SizeOfInt32 = 4"
definition SizeOfInt64 :: int where "SizeOfInt64 = 8"

definition AlignInt32 :: "int \<Rightarrow> int \<Rightarrow> int" where
  "AlignInt32 value alignment =
     wrap32 (value + wrap32 (alignment - 1)) AND NOT (wrap32 (alignment - 1))"

subsection \<open>Table-driven bit tricks\<close>

definition trailing_zero_table :: "8 word list" where
  "trailing_zero_table =
     [0, 1, 2, 24, 3, 19, 6, 25,
      22, 4, 20, 10, 16, 7, 12, 26,
      31, 23, 18, 5, 21, 9, 15, 11,
      30, 17, 8, 14, 29, 13, 28, 27]"

definition NumberOfTrailingZeroes :: "32 word \<Rightarrow> 8 word" where
  "NumberOfTrailingZeroes value =
     (if value = 0 then 32
      else trailing_zero_table ! unat (drop_bit 27 ((value AND - value) * 0x04D7651F)))"

definition mod3_table :: "int list" where
  "mod3_table =
     [0, 1, 2, 0, 1, 2, 0, 1, 2, 0, 1, 2,
      0, 1, 2, 0, 1, 2, 0, 1, 2, 0, 1, 2, 0, 1, 2, 0, 1, 2, 0, 1, 2,
      0, 1, 2, 0, 1, 2, 0, 1, 2, 0, 1, 2, 0, 1, 2, 0, 1, 2, 0, 1, 2,
      0, 1, 2, 0, 1, 2, 0, 1]"

definition FastMod3 :: "64 word \<Rightarrow> int res" where
  "FastMod3 value =
     (let v1 = drop_bit 16 value + (value AND 0xFFFF);
          v2 = drop_bit 8 v1 + (v1 AND 0x00FF);
          v3 = drop_bit 4 v2 + (v2 AND 0x000F)
      in if unat v3 < length mod3_table then Inr (mod3_table ! unat v3)
         else Inl (Panic ''index out of range''))"

definition IsPowerOfTwo :: "int \<Rightarrow> bool" where
  "IsPowerOfTwo value \<longleftrightarrow> value > 0 \<and> (value AND wrap64 (NOT value + 1)) = value"

subsection \<open>Memory copy\<close>

text \<open>
  The copy loops of \<open>Memcpy\<close>. The counter stays below the loop's bound, an \<open>int32\<close>, so
  its increments do not wrap.
\<close>

function memcpy_batch :: "int \<Rightarrow> int \<Rightarrow> mem \<Rightarrow> int \<Rightarrow> int \<Rightarrow> int \<Rightarrow> int \<times> mem" where
  "memcpy_batch width bound m dest src i =
     (if 0 < width \<and> i < bound
      then memcpy_batch width bound
             (write_bytes m (dest + i) (read_bytes m (src + i) (nat width))) dest src (i + width)
      else (i, m))"
  by pat_completeness auto
termination
  by (relation "measure (\<lambda>(width, bound, m, dest, src, i). nat (bound - i))") auto

declare memcpy_batch.simps [simp del]

definition Memcpy :: "mem \<Rightarrow> int \<Rightarrow> int \<Rightarrow> int \<Rightarrow> mem" where
  "Memcpy m dest src len =
     (let (i, m1) = memcpy_batch 8 (drop_bit 3 len) m dest src 0;
          (j, m2) = memcpy_batch 4 (drop_bit 2 (wrap32 (len - i))) m1 dest src i
      in snd (memcpy_batch 1 len m2 dest src j))"

subsection \<open>Semantic versions\<close>

definition SemanticVersionCompose :: "8 word \<Rightarrow> 8 word \<Rightarrow> 8 word \<Rightarrow> 32 word" where
  "SemanticVersionCompose major minor patch =
     (push_bit 16 (ucast major) OR push_bit 8 (ucast minor)) OR ucast patch"

definition SemanticVersionMajor :: "32 word \<Rightarrow> 8 word" where
  "SemanticVersionMajor version = ucast (drop_bit 16 version AND 0xFF)"

definition SemanticVersionMinor :: "32 word \<Rightarrow> 8 word" where
  "SemanticVersionMinor version = ucast (drop_bit 8 version AND 0xFF)"

definition SemanticVersionPatch :: "32 word \<Rightarrow> 8 word" where
  "SemanticVersionPatch version = ucast (version AND 0xFF)"

subsection \<open>Alignment rounds up\<close>

lemma and_not_mask_int: "(x::int) AND NOT (2 ^ k - 1) = x div 2 ^ k * 2 ^ k"
proof -
  have "x AND NOT (mask k) = push_bit k (drop_bit k x)"
    by (rule bit_eqI) (auto simp: bit_simps)
  then show ?thesis by (simp add: mask_eq_exp_minus_1 push_bit_eq_mult drop_bit_eq_div)
qed

lemma AlignInt32_pow2:
  assumes "k \<le> 30" and "- 2147483648 \<le> v" and "v + 2 ^ k \<le> 2147483648"
  shows "AlignInt32 v (2 ^ k) = (v + 2 ^ k - 1) div 2 ^ k * 2 ^ k"
proof -
  have "(2::int) ^ k \<le> 2 ^ 30" using assms(1) by (rule power_increasing) simp
  then have hi: "(2::int) ^ k \<le> 1073741824" by simp
  have lo: "(1::int) \<le> 2 ^ k" by simp
  have w1: "wrap32 (2 ^ k - 1) = 2 ^ k - 1"
    by (rule wrap32_id) (use hi lo in linarith)+
  have w2: "wrap32 (v + 2 ^ k - 1) = v + 2 ^ k - 1"
    by (rule wrap32_id) (use assms(2,3) lo in linarith)+
  show ?thesis by (simp add: AlignInt32_def w1 w2 and_not_mask_int add_diff_eq)
qed

lemma AlignInt32_32:
  "- 2147483648 \<le> v \<Longrightarrow> v \<le> 2147483616 \<Longrightarrow> AlignInt32 v 32 = (v + 31) div 32 * 32"
  using AlignInt32_pow2 [of 5 v] by simp

lemma AlignInt32_8:
  "- 2147483648 \<le> v \<Longrightarrow> v \<le> 2147483640 \<Longrightarrow> AlignInt32 v 8 = (v + 7) div 8 * 8"
  using AlignInt32_pow2 [of 3 v] by simp

lemma AlignInt32_4:
  "- 2147483648 \<le> v \<Longrightarrow> v \<le> 2147483644 \<Longrightarrow> AlignInt32 v 4 = (v + 3) div 4 * 4"
  using AlignInt32_pow2 [of 2 v] by simp

lemma AlignInt32_32_bounds:
  assumes "0 \<le> v" and "v \<le> 2147483616"
  shows "v \<le> AlignInt32 v 32" and "AlignInt32 v 32 < v + 32" and "AlignInt32 v 32 mod 32 = 0"
  using assms by (simp_all add: AlignInt32_32)

subsection \<open>The bit tricks compute what they name\<close>

lemma isolate_lowest_bit:
  fixes q :: int
  shows "(2 ^ k * (2 * q + 1)) AND - (2 ^ k * (2 * q + 1)) = 2 ^ k"
proof -
  have "(2 * q + 1) AND (2 * NOT q + 1) = 1"
    by (subst and_int_rec) simp
  moreover have "- (2 ^ k * (2 * q + 1)) = push_bit k (2 * NOT q + 1)"
    by (simp add: push_bit_eq_mult not_int_def algebra_simps)
  moreover have "2 ^ k * (2 * q + 1) = push_bit k (2 * q + 1)"
    by (simp add: push_bit_eq_mult algebra_simps)
  ultimately show ?thesis
    by (metis mult_1 push_bit_and push_bit_eq_mult)
qed

lemma odd_part:
  assumes "0 < (x::int)"
  obtains k q where "x = 2 ^ k * (2 * q + 1)"
  using assms
proof (induction "nat x" arbitrary: x thesis rule: less_induct)
  case less
  show ?case
  proof (cases "even x")
    case True
    then obtain y where y: "x = 2 * y" by blast
    with less.prems(2) have "nat y < nat x" "0 < y" by simp_all
    then obtain k q where "y = 2 ^ k * (2 * q + 1)"
      using less.hyps by blast
    with y have "x = 2 ^ Suc k * (2 * q + 1)" by simp
    then show ?thesis by (rule less.prems(1))
  next
    case False
    then obtain q where "x = 2 ^ 0 * (2 * q + 1)" by (auto elim: oddE)
    then show ?thesis by (rule less.prems(1))
  qed
qed

lemma trailing_zero_table_correct:
  "k < 32 \<Longrightarrow> trailing_zero_table ! unat (drop_bit 27 ((2 ^ k :: 32 word) * 0x04D7651F)) = of_nat k"
proof -
  have "\<forall>k \<in> set [0..<32].
      trailing_zero_table ! unat (drop_bit 27 ((2 ^ k :: 32 word) * 0x04D7651F)) = of_nat k"
    by code_simp
  then show "k < 32 \<Longrightarrow> ?thesis" by simp
qed

lemma uint_pow2:
  assumes "k < 32"
  shows "uint (2 ^ k :: 32 word) = 2 ^ k"
proof -
  have "(2::int) ^ k < 2 ^ 32" using assms by (rule power_strict_increasing) simp
  then have "uint (word_of_int (2 ^ k) :: 32 word) = 2 ^ k"
    by (simp only: uint_word_of_int) (simp add: take_bit_int_eq_self_iff)
  then show ?thesis by simp
qed

lemma word_isolate_lowest_bit:
  fixes w :: "32 word"
  assumes w: "uint w = 2 ^ k * (2 * q + 1)" and k: "k < 32"
  shows "w AND - w = 2 ^ k"
proof -
  have neg: "uint (- w) = take_bit 32 (- uint w)"
    by (simp add: uint_word_ariths take_bit_eq_mod)
  have pos: "take_bit 32 (uint w) = uint w"
    using uint_bounded [of w] by (simp add: take_bit_int_eq_self_iff)
  have "uint (w AND - w) = take_bit 32 (uint w AND - uint w)"
    by (simp add: unsigned_and_eq neg pos take_bit_and)
  also have "\<dots> = take_bit 32 (2 ^ k)"
    by (simp only: w isolate_lowest_bit)
  also have "\<dots> = uint (2 ^ k :: 32 word)"
    using k by (simp add: uint_pow2 take_bit_of_exp)
  finally show ?thesis by (simp add: word_uint_eq_iff)
qed

lemma NumberOfTrailingZeroes_odd_part:
  assumes w: "uint w = 2 ^ k * (2 * q + 1)" and k: "k < 32"
  shows "NumberOfTrailingZeroes w = of_nat k"
proof -
  have "2 * q + 1 \<noteq> 0" by presburger
  then have "uint w \<noteq> 0" by (simp add: w)
  then have "w \<noteq> 0" by auto
  then show ?thesis
    by (simp add: NumberOfTrailingZeroes_def word_isolate_lowest_bit [OF w k]
        trailing_zero_table_correct [OF k])
qed

lemma NumberOfTrailingZeroes_pow2:
  assumes "k < 32"
  shows "unat (NumberOfTrailingZeroes (2 ^ k)) = k"
proof -
  have "uint (2 ^ k :: 32 word) = 2 ^ k * (2 * 0 + 1)"
    using assms by (simp add: uint_pow2)
  from NumberOfTrailingZeroes_odd_part [OF this assms] show ?thesis
    using assms by (simp add: unat_of_nat)
qed

lemma mod3_table_correct: "i < 62 \<Longrightarrow> mod3_table ! i = int (i mod 3)"
proof -
  have "\<forall>i \<in> set [0..<62]. mod3_table ! i = int (i mod 3)" by code_simp
  then show "i < 62 \<Longrightarrow> ?thesis" by simp
qed

lemma unat_fold_step:
  fixes v :: "64 word"
  assumes "unat v < 2 ^ 60" and "k \<le> 16"
  shows "unat (drop_bit k v + (v AND mask k)) = unat v div 2 ^ k + unat v mod 2 ^ k"
proof -
  have a: "unat (drop_bit k v) = unat v div 2 ^ k"
    by (simp only: unat_drop_bit_eq) (simp add: drop_bit_eq_div)
  have b: "unat (v AND mask k) = unat v mod 2 ^ k"
    by (simp only: unsigned_take_bit_eq flip: take_bit_eq_mask) (simp add: take_bit_eq_mod)
  have "unat v div 2 ^ k + unat v mod 2 ^ k \<le> unat v + unat v"
    by (rule add_mono) simp_all
  also have "unat v + unat v < 2 ^ 64" using assms(1) by simp
  finally have "unat v div 2 ^ k + unat v mod 2 ^ k < 2 ^ 64" .
  then show ?thesis by (simp only: unat_word_ariths(1) a b) simp
qed

lemma mod3_fold: "(n div (3 * c + 1) + n mod (3 * c + 1)) mod 3 = n mod (3::nat)"
proof -
  define a r where "a = n div (3 * c + 1)" and "r = n mod (3 * c + 1)"
  have "n = (3 * c + 1) * a + r" unfolding a_def r_def by (simp only: mult_div_mod_eq)
  then have "n = (a + r) + 3 * (c * a)" by (simp add: algebra_simps)
  then have "n mod 3 = (a + r) mod 3" by simp
  then show ?thesis by (simp add: a_def r_def)
qed

lemma div_add_mod_bound:
  fixes n :: nat
  assumes "n \<le> c * q + (c - 2)" and "1 < c"
  shows "n div c + n mod c \<le> q + (c - 2)"
proof (cases "n div c < q")
  case True
  moreover have "n mod c < c" using assms(2) by simp
  ultimately show ?thesis by simp
next
  case False
  have "n = c * (n div c) + n mod c" by simp
  moreover obtain d where d: "n div c = q + d" using False le_Suc_ex not_less by blast
  ultimately have *: "c * d + n mod c \<le> c - 2"
    using assms(1) by (simp add: algebra_simps)
  then have "d = 0" using assms(2) by (cases d) auto
  with d * show ?thesis by simp
qed

lemma FastMod3_32bit:
  assumes "unat v < 2 ^ 32"
  shows "FastMod3 v = Inr (int (unat v mod 3))"
proof -
  define n where "n = unat v"
  define v1 where "v1 = drop_bit 16 v + (v AND 0xFFFF)"
  define v2 where "v2 = drop_bit 8 v1 + (v1 AND 0x00FF)"
  define v3 where "v3 = drop_bit 4 v2 + (v2 AND 0x000F)"
  have n: "n < 2 ^ 32" using assms by (simp add: n_def)
  have m: "(mask 16 :: 64 word) = 0xFFFF" "(mask 8 :: 64 word) = 0x00FF"
    "(mask 4 :: 64 word) = 0x000F"
    by (simp_all add: mask_eq_exp_minus_1)
  have e1: "unat v1 = n div 65536 + n mod 65536"
    using unat_fold_step [of v 16] n by (simp add: m v1_def n_def)
  then have b1: "unat v1 \<le> 0x1FFFE" using n by simp
  have e2: "unat v2 = unat v1 div 256 + unat v1 mod 256"
    using unat_fold_step [of v1 8] b1 by (simp add: m v2_def)
  then have b2: "unat v2 \<le> 0x2FD" using div_add_mod_bound [of "unat v1" 256 511] b1 by simp
  have e3: "unat v3 = unat v2 div 16 + unat v2 mod 16"
    using unat_fold_step [of v2 4] b2 by (simp add: m v3_def)
  have "unat v2 div 16 \<le> 47" using b2 by simp
  then have b3: "unat v3 < 62"
    using e3 b2 div_add_mod_bound [of "unat v2" 16 47] by (cases "unat v2 \<le> 766") auto
  have "unat v3 mod 3 = unat v2 mod 3" unfolding e3 using mod3_fold [of "unat v2" 5] by simp
  also have "\<dots> = unat v1 mod 3" unfolding e2 using mod3_fold [of "unat v1" 85] by simp
  also have "\<dots> = n mod 3" unfolding e1 using mod3_fold [of n 21845] by simp
  finally have "unat v3 mod 3 = n mod 3" .
  then show ?thesis
    using b3 by (simp add: FastMod3_def Let_def mod3_table_correct n_def
        flip: v1_def v2_def v3_def) (simp add: mod3_table_def)
qed

lemma IsPowerOfTwo_iff:
  assumes "in_i64 v"
  shows "IsPowerOfTwo v \<longleftrightarrow> (\<exists>k. v = 2 ^ k)"
proof (cases "0 < v")
  case False
  moreover have "\<not> (\<exists>k. v = 2 ^ k)" using False by auto
  ultimately show ?thesis by (simp add: IsPowerOfTwo_def)
next
  case True
  then obtain k q where v: "v = 2 ^ k * (2 * q + 1)" by (rule odd_part)
  have "wrap64 (NOT v + 1) = - v"
    using True assms by (simp add: not_int_def in_i64_def wrap64_id)
  then have *: "IsPowerOfTwo v \<longleftrightarrow> v = 2 ^ k"
    using True by (auto simp: IsPowerOfTwo_def v isolate_lowest_bit)
  show ?thesis
  proof
    assume "\<exists>k. v = 2 ^ k"
    then obtain j where j: "v = 2 ^ j" by blast
    then have "v AND - v = 2 ^ j" using isolate_lowest_bit [of j 0] by simp
    then have "(2::int) ^ k = 2 ^ j" using v isolate_lowest_bit [of k q] by simp
    with j * show "IsPowerOfTwo v" by simp
  qed (use * in blast)
qed

subsection \<open>The batched copy is a plain copy\<close>

lemma copy_extend:
  assumes m: "m = write_bytes m0 dest (read_bytes m0 src (nat i))"
    and i: "0 \<le> i" and w: "0 < w" and fits: "i + w \<le> len"
    and sep: "dest + len \<le> src \<or> src + len \<le> dest"
  shows "write_bytes m (dest + i) (read_bytes m (src + i) (nat w)) =
         write_bytes m0 dest (read_bytes m0 src (nat (i + w)))"
proof -
  have src: "read_bytes m (src + i) (nat w) = read_bytes m0 (src + i) (nat w)"
    unfolding m by (rule read_write_disjoint) (use sep i w fits in auto)
  have "nat (i + w) = nat i + nat w" using i w by simp
  then have "read_bytes m0 src (nat (i + w)) =
      read_bytes m0 src (nat i) @ read_bytes m0 (src + i) (nat w)"
    using i by (simp add: read_bytes_append)
  then show ?thesis using i by (simp only: src) (simp add: m write_bytes_append)
qed

lemma memcpy_batch_copies:
  assumes "m = write_bytes m0 dest (read_bytes m0 src (nat i))"
    and "0 \<le> i" and "i \<le> len" and "0 < w" and "i < bound \<longrightarrow> bound + w \<le> len + 1"
    and "dest + len \<le> src \<or> src + len \<le> dest"
  shows "\<exists>j. memcpy_batch w bound m dest src i =
             (j, write_bytes m0 dest (read_bytes m0 src (nat j))) \<and> i \<le> j \<and> bound \<le> j \<and> j \<le> len"
  using assms
proof (induction w bound m dest src i rule: memcpy_batch.induct)
  case (1 w bound m dest src i)
  show ?case
  proof (cases "i < bound")
    case False
    with 1 show ?thesis by (subst memcpy_batch.simps) auto
  next
    case True
    have step: "write_bytes m (dest + i) (read_bytes m (src + i) (nat w)) =
        write_bytes m0 dest (read_bytes m0 src (nat (i + w)))"
      by (rule copy_extend [OF "1.prems"(1,2,4) _ "1.prems"(6)]) (use True "1.prems" in auto)
    have "\<exists>j. memcpy_batch w bound (write_bytes m (dest + i) (read_bytes m (src + i) (nat w)))
              dest src (i + w) =
            (j, write_bytes m0 dest (read_bytes m0 src (nat j))) \<and> i + w \<le> j \<and> bound \<le> j \<and> j \<le> len"
      by (rule "1.IH") (use True "1.prems" step in auto)
    then show ?thesis using True "1.prems"(4)
      by (subst memcpy_batch.simps) auto
  qed
qed

lemma Memcpy_copies:
  assumes "in_i32 len" and "0 \<le> len" and "dest + len \<le> src \<or> src + len \<le> dest"
  shows "Memcpy m dest src len = write_bytes m dest (read_bytes m src (nat len))"
proof -
  have d3: "drop_bit 3 len = len div 8" by (simp add: drop_bit_eq_div)
  have l8: "0 < len div 8 \<longrightarrow> len div 8 + 8 \<le> len + 1" by presburger
  obtain i where i: "memcpy_batch 8 (len div 8) m dest src 0 =
      (i, write_bytes m dest (read_bytes m src (nat i)))" "0 \<le> i" "i \<le> len"
    using memcpy_batch_copies [of m m dest src 0 len 8 "len div 8", OF _ _ _ _ l8 assms(3)] assms
    by auto
  have wr: "wrap32 (len - i) = len - i"
    using i assms(1,2) by (auto simp: in_i32_def wrap32_id)
  then have d2: "drop_bit 2 (wrap32 (len - i)) = (len - i) div 4"
    by (simp add: drop_bit_eq_div)
  have l4: "i < (len - i) div 4 \<longrightarrow> (len - i) div 4 + 4 \<le> len + 1"
  proof
    assume "i < (len - i) div 4"
    moreover have "4 * ((len - i) div 4) \<le> len - i" by simp
    ultimately show "(len - i) div 4 + 4 \<le> len + 1" using i(2) by linarith
  qed
  obtain j where j: "memcpy_batch 4 ((len - i) div 4)
      (write_bytes m dest (read_bytes m src (nat i))) dest src i =
      (j, write_bytes m dest (read_bytes m src (nat j)))" "i \<le> j" "j \<le> len"
    using memcpy_batch_copies
      [of "write_bytes m dest (read_bytes m src (nat i))" m dest src i len 4 "(len - i) div 4",
       OF _ _ _ _ l4 assms(3)] i by auto
  obtain k where k: "memcpy_batch 1 len (write_bytes m dest (read_bytes m src (nat j))) dest src j =
      (k, write_bytes m dest (read_bytes m src (nat k)))" "len \<le> k" "k \<le> len"
    using memcpy_batch_copies
      [of "write_bytes m dest (read_bytes m src (nat j))" m dest src j len 1 len] i j assms by auto
  from k(2,3) have "k = len" by simp
  with k(1) show ?thesis by (simp add: Memcpy_def d3 i(1) d2 j(1))
qed

lemma memcpy_batch_done: "bound \<le> i \<Longrightarrow> memcpy_batch w bound m dest src i = (i, m)"
  by (subst memcpy_batch.simps) simp

lemma Memcpy_nonpos:
  assumes "in_i32 len" and "len \<le> 0"
  shows "Memcpy m dest src len = m"
proof -
  have "len div 8 \<le> 0" and "len div 4 \<le> 0" using assms by simp_all
  then show ?thesis using assms by (simp add: Memcpy_def memcpy_batch_done drop_bit_eq_div)
qed

end
