(* ===== verification/Atomic_Buffer.thy ===== *)
theory Atomic_Buffer
  imports Bits
begin

text \<open>
  \<open>aeron/atomic/buffer.go\<close>: a buffer is a raw pointer and a length, every accessor checks its
  offset with \<open>BoundsCheck\<close> (which terminates the process) and then touches memory. The
  atomic and ordered variants act as single steps on memory and are modelled by the plain
  access. Where steps of others come between (the rotation of a log, the ring buffer, the broadcast
  buffer) the operation takes their effect as an argument; the other operations run alone.
  The locale \<open>cell\<close> states what a typed field in memory promises to the code built on it.
\<close>

subsection \<open>Buffers\<close>

record buffer =
  bufferPtr :: int
  buf_length :: int

text \<open>A Go byte slice that lives in memory.\<close>

record slice =
  slice_ptr :: int
  slice_len :: int

text \<open>The dynamic argument types \<open>MakeBuffer\<close> distinguishes by reflection.\<close>

datatype buffer_arg =
    PointerArg int
  | UintptrArg int
  | BytesArg slice
  | IntegerArg int
  | OtherArg

definition Wrap :: "int \<Rightarrow> int \<Rightarrow> buffer" where
  "Wrap ptr len = \<lparr>bufferPtr = ptr, buf_length = len\<rparr>"

definition first_element :: "slice \<Rightarrow> int res" where
  "first_element arr =
     (if slice_len arr \<le> 0 then Inl (Panic ''index out of range'') else Inr (slice_ptr arr))"

definition MakeBuffer :: "buffer_arg list \<Rightarrow> buffer res" where
  "MakeBuffer args =
     (case args of
        [a] \<Rightarrow>
          (case a of
             PointerArg p \<Rightarrow> Inr (Wrap p 0)
           | BytesArg arr \<Rightarrow>
               bindR (first_element arr) (\<lambda>p. Inr (Wrap p (wrap32 (slice_len arr))))
           | _ \<Rightarrow> Inr (Wrap 0 0))
      | [a, b] \<Rightarrow>
          (let bufLen = (case b of IntegerArg n \<Rightarrow> wrap32 n | UintptrArg n \<Rightarrow> wrap32 n | _ \<Rightarrow> 0)
           in case a of
                UintptrArg p \<Rightarrow> Inr (Wrap p bufLen)
              | PointerArg p \<Rightarrow> Inr (Wrap p bufLen)
              | BytesArg arr \<Rightarrow> bindR (first_element arr) (\<lambda>p. Inr (Wrap p bufLen))
              | _ \<Rightarrow> Inr (Wrap 0 bufLen))
      | _ \<Rightarrow> Inr (Wrap 0 0))"

abbreviation Ptr :: "buffer \<Rightarrow> int" where "Ptr \<equiv> bufferPtr"
abbreviation Capacity :: "buffer \<Rightarrow> int" where "Capacity \<equiv> buf_length"

lemma Wrap_simps [simp]: "Ptr (Wrap a n) = a" "Capacity (Wrap a n) = n"
  by (simp_all add: Wrap_def)

definition BoundsCheck :: "int \<Rightarrow> int \<Rightarrow> int \<Rightarrow> unit res" where
  "BoundsCheck index len myLength =
     (if wrap32 (index + len) > myLength then Inl (Fatal ''Out of Bounds'') else Inr ())"

definition Fill :: "mem \<Rightarrow> buffer \<Rightarrow> byte \<Rightarrow> mem" where
  "Fill m buf b =
     (if buf_length buf = 0 then m
      else fold (\<lambda>ix m. m(bufferPtr buf + int ix := b)) [0..<nat (buf_length buf)] m)"

subsection \<open>Typed reads and writes\<close>

definition GetUInt8 :: "mem \<Rightarrow> buffer \<Rightarrow> int \<Rightarrow> int res" where
  "GetUInt8 m buf offset =
     bindR (BoundsCheck offset 1 (buf_length buf)) (\<lambda>_. Inr (load 1 m (bufferPtr buf + offset)))"

definition GetUInt16 :: "mem \<Rightarrow> buffer \<Rightarrow> int \<Rightarrow> int res" where
  "GetUInt16 m buf offset =
     bindR (BoundsCheck offset 2 (buf_length buf)) (\<lambda>_. Inr (load 2 m (bufferPtr buf + offset)))"

definition GetInt32 :: "mem \<Rightarrow> buffer \<Rightarrow> int \<Rightarrow> int res" where
  "GetInt32 m buf offset =
     bindR (BoundsCheck offset 4 (buf_length buf))
       (\<lambda>_. Inr (wrap32 (load 4 m (bufferPtr buf + offset))))"

definition GetInt64 :: "mem \<Rightarrow> buffer \<Rightarrow> int \<Rightarrow> int res" where
  "GetInt64 m buf offset =
     bindR (BoundsCheck offset 8 (buf_length buf))
       (\<lambda>_. Inr (wrap64 (load 8 m (bufferPtr buf + offset))))"

definition PutUInt8 :: "mem \<Rightarrow> buffer \<Rightarrow> int \<Rightarrow> int \<Rightarrow> mem res" where
  "PutUInt8 m buf offset value =
     bindR (BoundsCheck offset 1 (buf_length buf))
       (\<lambda>_. Inr (store 1 m (bufferPtr buf + offset) value))"

definition PutInt8 :: "mem \<Rightarrow> buffer \<Rightarrow> int \<Rightarrow> int \<Rightarrow> mem res" where
  "PutInt8 m buf offset value =
     bindR (BoundsCheck offset 1 (buf_length buf))
       (\<lambda>_. Inr (store 1 m (bufferPtr buf + offset) value))"

definition PutUInt16 :: "mem \<Rightarrow> buffer \<Rightarrow> int \<Rightarrow> int \<Rightarrow> mem res" where
  "PutUInt16 m buf offset value =
     bindR (BoundsCheck offset 2 (buf_length buf))
       (\<lambda>_. Inr (store 2 m (bufferPtr buf + offset) value))"

definition PutInt32 :: "mem \<Rightarrow> buffer \<Rightarrow> int \<Rightarrow> int \<Rightarrow> mem res" where
  "PutInt32 m buf offset value =
     bindR (BoundsCheck offset 4 (buf_length buf))
       (\<lambda>_. Inr (store 4 m (bufferPtr buf + offset) value))"

definition PutInt64 :: "mem \<Rightarrow> buffer \<Rightarrow> int \<Rightarrow> int \<Rightarrow> mem res" where
  "PutInt64 m buf offset value =
     bindR (BoundsCheck offset 8 (buf_length buf))
       (\<lambda>_. Inr (store 8 m (bufferPtr buf + offset) value))"

subsection \<open>Atomic operations\<close>

definition GetAndAddInt64 :: "mem \<Rightarrow> buffer \<Rightarrow> int \<Rightarrow> int \<Rightarrow> (int \<times> mem) res" where
  "GetAndAddInt64 m buf offset delta =
     bindR (BoundsCheck offset 8 (buf_length buf))
       (\<lambda>_. let newVal = (load 8 m (bufferPtr buf + offset) + delta) mod 2 ^ 64
            in Inr (wrap64 (wrap64 newVal - delta), store 8 m (bufferPtr buf + offset) newVal))"

definition GetInt32Volatile :: "mem \<Rightarrow> buffer \<Rightarrow> int \<Rightarrow> int res" where
  "GetInt32Volatile m buf offset =
     bindR (BoundsCheck offset 4 (buf_length buf))
       (\<lambda>_. Inr (wrap32 (load 4 m (bufferPtr buf + offset))))"

definition GetInt64Volatile :: "mem \<Rightarrow> buffer \<Rightarrow> int \<Rightarrow> int res" where
  "GetInt64Volatile m buf offset =
     bindR (BoundsCheck offset 8 (buf_length buf))
       (\<lambda>_. Inr (wrap64 (load 8 m (bufferPtr buf + offset))))"

definition PutInt64Ordered :: "mem \<Rightarrow> buffer \<Rightarrow> int \<Rightarrow> int \<Rightarrow> mem res" where
  "PutInt64Ordered m buf offset value =
     bindR (BoundsCheck offset 8 (buf_length buf))
       (\<lambda>_. Inr (store 8 m (bufferPtr buf + offset) value))"

definition PutInt32Ordered :: "mem \<Rightarrow> buffer \<Rightarrow> int \<Rightarrow> int \<Rightarrow> mem res" where
  "PutInt32Ordered m buf offset value =
     bindR (BoundsCheck offset 4 (buf_length buf))
       (\<lambda>_. Inr (store 4 m (bufferPtr buf + offset) value))"

definition PutIntOrdered :: "mem \<Rightarrow> buffer \<Rightarrow> int \<Rightarrow> int \<Rightarrow> mem res" where
  "PutIntOrdered m buf offset value =
     bindR (BoundsCheck offset 4 (buf_length buf))
       (\<lambda>_. Inr (store 4 m (bufferPtr buf + offset) (wrap32 value)))"

definition CompareAndSetInt64 :: "mem \<Rightarrow> buffer \<Rightarrow> int \<Rightarrow> int \<Rightarrow> int \<Rightarrow> (bool \<times> mem) res" where
  "CompareAndSetInt64 m buf offset expectedValue updateValue =
     bindR (BoundsCheck offset 8 (buf_length buf))
       (\<lambda>_. if wrap64 (load 8 m (bufferPtr buf + offset)) = expectedValue
            then Inr (True, store 8 m (bufferPtr buf + offset) updateValue) else Inr (False, m))"

definition CompareAndSetInt32 :: "mem \<Rightarrow> buffer \<Rightarrow> int \<Rightarrow> int \<Rightarrow> int \<Rightarrow> (bool \<times> mem) res" where
  "CompareAndSetInt32 m buf offset expectedValue updateValue =
     bindR (BoundsCheck offset 4 (buf_length buf))
       (\<lambda>_. if wrap32 (load 4 m (bufferPtr buf + offset)) = expectedValue
            then Inr (True, store 4 m (bufferPtr buf + offset) updateValue) else Inr (False, m))"

subsection \<open>Byte ranges\<close>

definition PutBytes :: "mem \<Rightarrow> buffer \<Rightarrow> int \<Rightarrow> buffer \<Rightarrow> int \<Rightarrow> int \<Rightarrow> mem res" where
  "PutBytes m buf index srcBuffer srcint32 len =
     bindR (BoundsCheck index len (buf_length buf)) (\<lambda>_.
     bindR (BoundsCheck srcint32 len (buf_length srcBuffer)) (\<lambda>_.
     Inr (Memcpy m (bufferPtr buf + index) (bufferPtr srcBuffer + srcint32) len)))"

definition GetBytesArray :: "mem \<Rightarrow> buffer \<Rightarrow> int \<Rightarrow> int \<Rightarrow> byte list res" where
  "GetBytesArray m buf offset len =
     bindR (BoundsCheck offset len (buf_length buf)) (\<lambda>_.
     if len < 0 then Inl (Panic ''makeslice: len out of range'')
     else Inr (map (\<lambda>ix. m (bufferPtr buf + offset + int ix)) [0..<nat len]))"

text \<open>\<open>GetBytes\<close> overwrites the whole of its slice argument; the model returns the new contents.\<close>

definition GetBytes :: "mem \<Rightarrow> buffer \<Rightarrow> int \<Rightarrow> byte list \<Rightarrow> byte list res" where
  "GetBytes m buf offset b =
     bindR (BoundsCheck offset (wrap32 (int (length b))) (buf_length buf)) (\<lambda>_.
     Inr (map (\<lambda>ix. m (bufferPtr buf + offset + int ix)) [0..<length b]))"

definition WriteBytes :: "mem \<Rightarrow> buffer \<Rightarrow> byte list \<Rightarrow> int \<Rightarrow> int \<Rightarrow> byte list res" where
  "WriteBytes m buf dest offset len =
     bindR (BoundsCheck offset len (buf_length buf)) (\<lambda>_.
     if len < 0 then Inl (Panic ''bytes.Buffer.Grow: negative count'')
     else Inr (dest @ map (\<lambda>ix. m (bufferPtr buf + offset + int ix)) [0..<nat len]))"

definition PutBytesArray :: "mem \<Rightarrow> buffer \<Rightarrow> int \<Rightarrow> slice \<Rightarrow> int \<Rightarrow> int \<Rightarrow> mem res" where
  "PutBytesArray m buf index arr srcint32 len =
     bindR (BoundsCheck index len (buf_length buf)) (\<lambda>_.
     bindR (BoundsCheck srcint32 len (wrap32 (slice_len arr))) (\<lambda>_.
     bindR (first_element arr) (\<lambda>p.
     Inr (Memcpy m (bufferPtr buf + index) (p + srcint32) len))))"

subsection \<open>A typed cell of memory\<close>

text \<open>
  The contract of an integer field of fixed width: what was put is read back, normalised to
  the width, and neither reading nor writing depends on memory outside the field.
\<close>

locale cell =
  fixes width :: nat
    and norm :: "int \<Rightarrow> int"
    and get :: "mem \<Rightarrow> int \<Rightarrow> int"
    and put :: "mem \<Rightarrow> int \<Rightarrow> int \<Rightarrow> mem"
  assumes get_put: "get (put m a v) a = norm v"
    and get_local: "(\<And>x. a \<le> x \<Longrightarrow> x < a + int width \<Longrightarrow> m x = m' x) \<Longrightarrow> get m a = get m' a"
    and put_outside: "x < a \<or> a + int width \<le> x \<Longrightarrow> put m a v x = m x"
begin

lemma get_put_other:
  assumes "a + int width \<le> b \<or> b + int width \<le> a"
  shows "get (put m b v) a = get m a"
  by (rule get_local) (use assms in \<open>auto simp: put_outside\<close>)

lemma get_write_other:
  assumes "a + int width \<le> b \<or> b + int (length bs) \<le> a"
  shows "get (write_bytes m b bs) a = get m a"
  by (rule get_local) (use assms in \<open>auto simp: write_bytes_apply\<close>)

lemma get_store_other:
  assumes "a + int width \<le> b \<or> b + int n \<le> a"
  shows "get (store n m b v) a = get m a"
  by (rule get_local) (use assms in \<open>auto simp: store_outside\<close>)

lemma read_put_other:
  assumes "a + int n \<le> b \<or> b + int width \<le> a"
  shows "read_bytes (put m b v) a n = read_bytes m a n"
  by (rule read_bytes_cong) (use assms in \<open>auto simp: put_outside\<close>)

text \<open>A run of writes to pairwise disjoint fields leaves every written value readable.\<close>

lemma get_after_puts:
  assumes "(a, v) \<in> set xs"
    and "\<And>b w. (b, w) \<in> set xs \<Longrightarrow> b = a \<and> w = v \<or> a + int width \<le> b \<or> b + int width \<le> a"
  shows "get (fold (\<lambda>(b, w) m. put m b w) xs m) a = norm v"
  using assms
proof (induction xs rule: rev_induct)
  case Nil
  then show ?case by simp
next
  case (snoc p xs)
  obtain b w where p: "p = (b, w)" by (cases p)
  show ?case
  proof (cases "b = a \<and> w = v")
    case True
    then show ?thesis by (simp add: p get_put)
  next
    case False
    then have "(a, v) \<in> set xs" using snoc.prems(1) p by auto
    moreover have "a + int width \<le> b \<or> b + int width \<le> a"
      using False snoc.prems(2) [of b w] p by auto
    ultimately show ?thesis
      using snoc by (simp add: p get_put_other)
  qed
qed

end

definition get_i32 :: "mem \<Rightarrow> int \<Rightarrow> int" where "get_i32 m a = wrap32 (load 4 m a)"
definition get_i64 :: "mem \<Rightarrow> int \<Rightarrow> int" where "get_i64 m a = wrap64 (load 8 m a)"

lemma load_local:
  "(\<And>x. a \<le> x \<Longrightarrow> x < a + int n \<Longrightarrow> m x = m' x) \<Longrightarrow> load n m a = load n m' a"
  unfolding load_def by (rule arg_cong [OF read_bytes_cong])

interpretation u8: cell 1 "\<lambda>v. v mod 256" "load 1" "store 1"
  by unfold_locales (auto simp: mem_simps store_outside intro: load_local)

interpretation u16: cell 2 "\<lambda>v. v mod 65536" "load 2" "store 2"
  by unfold_locales (auto simp: mem_simps store_outside intro: load_local)

interpretation i32: cell 4 wrap32 get_i32 "store 4"
proof unfold_locales
  fix m m' :: mem and a :: int
  assume "\<And>x. a \<le> x \<Longrightarrow> x < a + int 4 \<Longrightarrow> m x = m' x"
  then have "load 4 m a = load 4 m' a" by (rule load_local)
  then show "get_i32 m a = get_i32 m' a" by (simp add: get_i32_def)
qed (simp_all add: get_i32_def mem_simps store_outside)

interpretation i64: cell 8 wrap64 get_i64 "store 8"
proof unfold_locales
  fix m m' :: mem and a :: int
  assume "\<And>x. a \<le> x \<Longrightarrow> x < a + int 8 \<Longrightarrow> m x = m' x"
  then have "load 8 m a = load 8 m' a" by (rule load_local)
  then show "get_i64 m a = get_i64 m' a" by (simp add: get_i64_def)
qed (simp_all add: get_i64_def mem_simps store_outside)

lemma in_i32_get_i32 [simp]: "in_i32 (get_i32 m a)"
  by (simp add: get_i32_def)

lemma in_i64_get_i64 [simp]: "in_i64 (get_i64 m a)"
  by (simp add: get_i64_def)

lemma load_store_same_1 [mem_simps]: "load 1 (store 1 m a v) a = v mod 256"
  by (rule u8.get_put)

lemma load_store_same_2 [mem_simps]: "load 2 (store 2 m a v) a = v mod 65536"
  by (rule u16.get_put)

lemmas cell_same [mem_simps] = i32.get_put i64.get_put

lemmas cell_other =
  load_store_disjoint read_store_disjoint load_write_disjoint read_write_disjoint
  i32.get_store_other i64.get_store_other i32.get_write_other i64.get_write_other

subsection \<open>Accesses inside the buffer succeed\<close>

named_theorems buffer_ok \<open>accessors at offsets inside the buffer\<close>

lemma BoundsCheck_ok [buffer_ok]:
  "0 \<le> index + len \<Longrightarrow> index + len \<le> cap \<Longrightarrow> cap < 2147483648 \<Longrightarrow> BoundsCheck index len cap = Inr ()"
  by (simp add: BoundsCheck_def wrap32_id)

lemma BoundsCheck_fail:
  "in_i32 (index + len) \<Longrightarrow> cap < index + len \<Longrightarrow>
   BoundsCheck index len cap = Inl (Fatal ''Out of Bounds'')"
  by (simp add: BoundsCheck_def)

lemma GetUInt8_ok [buffer_ok]:
  "0 \<le> offset \<Longrightarrow> offset + 1 \<le> buf_length buf \<Longrightarrow> buf_length buf < 2147483648 \<Longrightarrow>
   GetUInt8 m buf offset = Inr (load 1 m (bufferPtr buf + offset))"
  by (simp add: GetUInt8_def BoundsCheck_ok)

lemma GetUInt16_ok [buffer_ok]:
  "0 \<le> offset \<Longrightarrow> offset + 2 \<le> buf_length buf \<Longrightarrow> buf_length buf < 2147483648 \<Longrightarrow>
   GetUInt16 m buf offset = Inr (load 2 m (bufferPtr buf + offset))"
  by (simp add: GetUInt16_def BoundsCheck_ok)

lemma GetInt32_ok [buffer_ok]:
  "0 \<le> offset \<Longrightarrow> offset + 4 \<le> buf_length buf \<Longrightarrow> buf_length buf < 2147483648 \<Longrightarrow>
   GetInt32 m buf offset = Inr (get_i32 m (bufferPtr buf + offset))"
  by (simp add: GetInt32_def get_i32_def BoundsCheck_ok)

lemma GetInt64_ok [buffer_ok]:
  "0 \<le> offset \<Longrightarrow> offset + 8 \<le> buf_length buf \<Longrightarrow> buf_length buf < 2147483648 \<Longrightarrow>
   GetInt64 m buf offset = Inr (get_i64 m (bufferPtr buf + offset))"
  by (simp add: GetInt64_def get_i64_def BoundsCheck_ok)

lemma GetInt32Volatile_ok [buffer_ok]:
  "0 \<le> offset \<Longrightarrow> offset + 4 \<le> buf_length buf \<Longrightarrow> buf_length buf < 2147483648 \<Longrightarrow>
   GetInt32Volatile m buf offset = Inr (get_i32 m (bufferPtr buf + offset))"
  by (simp add: GetInt32Volatile_def get_i32_def BoundsCheck_ok)

lemma GetInt64Volatile_ok [buffer_ok]:
  "0 \<le> offset \<Longrightarrow> offset + 8 \<le> buf_length buf \<Longrightarrow> buf_length buf < 2147483648 \<Longrightarrow>
   GetInt64Volatile m buf offset = Inr (get_i64 m (bufferPtr buf + offset))"
  by (simp add: GetInt64Volatile_def get_i64_def BoundsCheck_ok)

lemma PutUInt8_ok [buffer_ok]:
  "0 \<le> offset \<Longrightarrow> offset + 1 \<le> buf_length buf \<Longrightarrow> buf_length buf < 2147483648 \<Longrightarrow>
   PutUInt8 m buf offset value = Inr (store 1 m (bufferPtr buf + offset) value)"
  by (simp add: PutUInt8_def BoundsCheck_ok)

lemma PutInt8_ok [buffer_ok]:
  "0 \<le> offset \<Longrightarrow> offset + 1 \<le> buf_length buf \<Longrightarrow> buf_length buf < 2147483648 \<Longrightarrow>
   PutInt8 m buf offset value = Inr (store 1 m (bufferPtr buf + offset) value)"
  by (simp add: PutInt8_def BoundsCheck_ok)

lemma PutUInt16_ok [buffer_ok]:
  "0 \<le> offset \<Longrightarrow> offset + 2 \<le> buf_length buf \<Longrightarrow> buf_length buf < 2147483648 \<Longrightarrow>
   PutUInt16 m buf offset value = Inr (store 2 m (bufferPtr buf + offset) value)"
  by (simp add: PutUInt16_def BoundsCheck_ok)

lemma PutInt32_ok [buffer_ok]:
  "0 \<le> offset \<Longrightarrow> offset + 4 \<le> buf_length buf \<Longrightarrow> buf_length buf < 2147483648 \<Longrightarrow>
   PutInt32 m buf offset value = Inr (store 4 m (bufferPtr buf + offset) value)"
  by (simp add: PutInt32_def BoundsCheck_ok)

lemma PutInt64_ok [buffer_ok]:
  "0 \<le> offset \<Longrightarrow> offset + 8 \<le> buf_length buf \<Longrightarrow> buf_length buf < 2147483648 \<Longrightarrow>
   PutInt64 m buf offset value = Inr (store 8 m (bufferPtr buf + offset) value)"
  by (simp add: PutInt64_def BoundsCheck_ok)

lemma PutInt64Ordered_ok [buffer_ok]:
  "0 \<le> offset \<Longrightarrow> offset + 8 \<le> buf_length buf \<Longrightarrow> buf_length buf < 2147483648 \<Longrightarrow>
   PutInt64Ordered m buf offset value = Inr (store 8 m (bufferPtr buf + offset) value)"
  by (simp add: PutInt64Ordered_def BoundsCheck_ok)

lemma PutInt32Ordered_ok [buffer_ok]:
  "0 \<le> offset \<Longrightarrow> offset + 4 \<le> buf_length buf \<Longrightarrow> buf_length buf < 2147483648 \<Longrightarrow>
   PutInt32Ordered m buf offset value = Inr (store 4 m (bufferPtr buf + offset) value)"
  by (simp add: PutInt32Ordered_def BoundsCheck_ok)

lemma GetAndAddInt64_ok [buffer_ok]:
  assumes "0 \<le> offset" and "offset + 8 \<le> buf_length buf" and "buf_length buf < 2147483648"
  shows "GetAndAddInt64 m buf offset delta =
     Inr (get_i64 m (bufferPtr buf + offset),
          store 8 m (bufferPtr buf + offset) (get_i64 m (bufferPtr buf + offset) + delta))"
proof -
  let ?a = "bufferPtr buf + offset"
  let ?x = "load 8 m ?a"
  have "wrap64 (wrap64 ((?x + delta) mod 2 ^ 64) - delta) = wrap64 ?x"
    by (simp add: wrap64_def mod_simps)
  moreover have "store 8 m ?a ((?x + delta) mod 2 ^ 64) = store 8 m ?a (wrap64 ?x + delta)"
    by (rule store_cong) (simp add: wrap64_add_mod)
  ultimately show ?thesis
    using assms by (simp add: GetAndAddInt64_def BoundsCheck_ok get_i64_def Let_def)
qed

lemma PutBytes_ok [buffer_ok]:
  assumes "0 \<le> index" and "0 \<le> len" and "index + len \<le> buf_length buf"
    and "buf_length buf < 2147483648"
    and "0 \<le> src" and "src + len \<le> buf_length sbuf" and "buf_length sbuf < 2147483648"
    and "bufferPtr buf + buf_length buf \<le> bufferPtr sbuf \<or>
         bufferPtr sbuf + buf_length sbuf \<le> bufferPtr buf"
  shows "PutBytes m buf index sbuf src len =
     Inr (write_bytes m (bufferPtr buf + index)
            (read_bytes m (bufferPtr sbuf + src) (nat len)))"
  using assms by (auto simp: PutBytes_def BoundsCheck_ok in_i32_def intro!: Memcpy_copies)

lemma GetBytesArray_ok [buffer_ok]:
  "0 \<le> offset \<Longrightarrow> 0 \<le> len \<Longrightarrow> offset + len \<le> buf_length buf \<Longrightarrow> buf_length buf < 2147483648 \<Longrightarrow>
   GetBytesArray m buf offset len = Inr (read_bytes m (bufferPtr buf + offset) (nat len))"
  by (simp add: GetBytesArray_def BoundsCheck_ok map_read_bytes)

lemma WriteBytes_ok [buffer_ok]:
  "0 \<le> offset \<Longrightarrow> 0 \<le> len \<Longrightarrow> offset + len \<le> buf_length buf \<Longrightarrow> buf_length buf < 2147483648 \<Longrightarrow>
   WriteBytes m buf dest offset len = Inr (dest @ read_bytes m (bufferPtr buf + offset) (nat len))"
  by (simp add: WriteBytes_def BoundsCheck_ok map_read_bytes)

end
