(* ===== verification/Flyweight.thy ===== *)
theory Flyweight
  imports Atomic_Buffer "HOL-Library.Signed_Division"
begin

text \<open>
  \<open>aeron/flyweight/fields.go\<close> and \<open>flyweight.go\<close>: fields are pointers into a wrapped buffer.
  \<open>Wrap\<close> checks the field against the buffer once, returns the pointer and the number of bytes
  the field takes; \<open>Get\<close> and \<open>Set\<close> then touch memory without a check. Strings are byte lists.
  Go's truncated division and remainder are \<open>sdiv\<close> and \<open>smod\<close>.
\<close>

subsection \<open>Integer fields\<close>

type_synonym Int32Field = int
type_synonym Int64Field = int

definition Int32Field_Wrap :: "buffer \<Rightarrow> int \<Rightarrow> (Int32Field \<times> int) res" where
  "Int32Field_Wrap buf offset =
     bindR (BoundsCheck (wrap32 offset) 4 (Capacity buf)) (\<lambda>_. Inr (Ptr buf + offset, 4))"

definition Int32Field_Get :: "mem \<Rightarrow> Int32Field \<Rightarrow> int" where
  "Int32Field_Get m fld = get_i32 m fld"

definition Int32Field_Set :: "mem \<Rightarrow> Int32Field \<Rightarrow> int \<Rightarrow> mem" where
  "Int32Field_Set m fld value = store 4 m fld value"

definition Int32Field_CAS :: "mem \<Rightarrow> Int32Field \<Rightarrow> int \<Rightarrow> int \<Rightarrow> bool \<times> mem" where
  "Int32Field_CAS m fld curValue newValue =
     (if get_i32 m fld = curValue then (True, store 4 m fld newValue) else (False, m))"

definition Int64Field_Wrap :: "buffer \<Rightarrow> int \<Rightarrow> (Int64Field \<times> int) res" where
  "Int64Field_Wrap buf offset =
     bindR (BoundsCheck (wrap32 offset) 8 (Capacity buf)) (\<lambda>_. Inr (Ptr buf + offset, 8))"

definition Int64Field_Get :: "mem \<Rightarrow> Int64Field \<Rightarrow> int" where
  "Int64Field_Get m fld = get_i64 m fld"

definition Int64Field_Set :: "mem \<Rightarrow> Int64Field \<Rightarrow> int \<Rightarrow> mem" where
  "Int64Field_Set m fld value = store 8 m fld value"

definition Int64Field_GetAndAddInt64 :: "mem \<Rightarrow> Int64Field \<Rightarrow> int \<Rightarrow> int \<times> mem" where
  "Int64Field_GetAndAddInt64 m fld value =
     (let n = wrap64 (get_i64 m fld + value) in (wrap64 (n - value), store 8 m fld n))"

definition Int64Field_CAS :: "mem \<Rightarrow> Int64Field \<Rightarrow> int \<Rightarrow> int \<Rightarrow> bool \<times> mem" where
  "Int64Field_CAS m fld curValue newValue =
     (if get_i64 m fld = curValue then (True, store 8 m fld newValue) else (False, m))"

subsection \<open>String fields\<close>

record StringField =
  lenOffset :: int
  dataOffset :: int

definition StringField_Wrap :: "mem \<Rightarrow> buffer \<Rightarrow> int \<Rightarrow> bool \<Rightarrow> (StringField \<times> int) res" where
  "StringField_Wrap m buf offset align =
     (let off = (if align then AlignInt32 (wrap32 offset) 4 else wrap32 offset);
          offsetAdjustment = (if align then off - offset else 0)
      in bindR (BoundsCheck off 4 (Capacity buf)) (\<lambda>_.
         let l = get_i32 m (Ptr buf + off)
         in bindR (BoundsCheck (wrap32 (off + 4)) l (Capacity buf)) (\<lambda>_.
            Inr (\<lparr>lenOffset = Ptr buf + off, dataOffset = Ptr buf + wrap32 (off + 4)\<rparr>,
                 4 + l + offsetAdjustment))))"

definition StringField_Get :: "mem \<Rightarrow> StringField \<Rightarrow> byte list res" where
  "StringField_Get m fld =
     (let len = get_i32 m (lenOffset fld)
      in if len < 0 then Inl (Panic ''makeslice: len out of range'')
         else Inr (map (\<lambda>ix. m (dataOffset fld + int ix)) [0..<nat len]))"

text \<open>
  \<open>Set\<close> takes the size of the flyweight that owns the field and returns the adjusted size. The
  bytes of the Go string are a fresh slice, disjoint from the buffer, so the copy is a plain
  write; taking the address of the first byte of an empty string panics after the length has
  been stored.
\<close>

definition StringField_Set :: "mem \<Rightarrow> int \<Rightarrow> StringField \<Rightarrow> byte list \<Rightarrow> (mem \<times> int) res" where
  "StringField_Set m sz fld value =
     (let len = wrap32 (int (length value));
          prevLen = get_i32 m (lenOffset fld);
          m1 = store 4 m (lenOffset fld) len
      in if value = [] then Inl (Panic ''index out of range'')
         else Inr (write_bytes m1 (dataOffset fld) value, sz - prevLen + len))"

subsection \<open>Raw data, padding and length-prefixed data\<close>

definition RawDataField_Wrap :: "buffer \<Rightarrow> int \<Rightarrow> int \<Rightarrow> buffer \<times> int" where
  "RawDataField_Wrap buf offset len = (Wrap (Ptr buf + offset) len, len)"

definition Padding_Wrap :: "buffer \<Rightarrow> int \<Rightarrow> int \<Rightarrow> int \<Rightarrow> buffer \<times> int" where
  "Padding_Wrap buf offset padding alignment =
     (let maxLength = wrap32 (wrap32 offset + padding);
          newLen = wrap32 (wrap32 (maxLength - maxLength smod alignment) - wrap32 offset);
          newLen' = (if newLen < 0 then wrap32 (newLen + alignment) else newLen)
      in RawDataField_Wrap buf offset newLen')"

record LengthAndRawDataField =
  lrd_lenOffset :: int
  lrd_buf :: buffer

definition LengthAndRawDataField_Length :: "mem \<Rightarrow> LengthAndRawDataField \<Rightarrow> int" where
  "LengthAndRawDataField_Length m fld = get_i32 m (lrd_lenOffset fld)"

definition LengthAndRawDataField_SetLength :: "mem \<Rightarrow> LengthAndRawDataField \<Rightarrow> int \<Rightarrow> mem" where
  "LengthAndRawDataField_SetLength m fld len = store 4 m (lrd_lenOffset fld) len"

definition LengthAndRawDataField_Wrap ::
  "mem \<Rightarrow> buffer \<Rightarrow> int \<Rightarrow> (LengthAndRawDataField \<times> int) res" where
  "LengthAndRawDataField_Wrap m buf rawOffset =
     (let offset = AlignInt32 (wrap32 rawOffset) 4;
          offsetAdjustment = offset - rawOffset
      in bindR (BoundsCheck offset 4 (Capacity buf)) (\<lambda>_.
         let len = get_i32 m (Ptr buf + offset)
         in bindR (BoundsCheck (wrap32 (offset + 4)) len (Capacity buf)) (\<lambda>_.
            Inr (\<lparr>lrd_lenOffset = Ptr buf + offset,
                  lrd_buf = Wrap (Ptr buf + wrap32 (offset + 4)) (wrap32 (Capacity buf - offset))\<rparr>,
                 4 + len + offsetAdjustment))))"

definition LengthAndRawDataField_CopyBuffer ::
  "mem \<Rightarrow> LengthAndRawDataField \<Rightarrow> buffer \<Rightarrow> int \<Rightarrow> int \<Rightarrow> mem res" where
  "LengthAndRawDataField_CopyBuffer m fld buf offset len =
     PutBytes (LengthAndRawDataField_SetLength m fld len) (lrd_buf fld) 0 buf offset len"

definition LengthAndRawDataField_CopyString ::
  "mem \<Rightarrow> LengthAndRawDataField \<Rightarrow> byte list \<Rightarrow> mem res" where
  "LengthAndRawDataField_CopyString m fld data =
     (let len = wrap32 (int (length data));
          m1 = LengthAndRawDataField_SetLength m fld len
      in bindR (BoundsCheck 0 len (Capacity (lrd_buf fld))) (\<lambda>_.
         if data = [] then Inl (Panic ''index out of range'')
         else Inr (write_bytes m1 (Ptr (lrd_buf fld)) data)))"

definition LengthAndRawDataField_GetAsASCII :: "mem \<Rightarrow> LengthAndRawDataField \<Rightarrow> byte list res" where
  "LengthAndRawDataField_GetAsASCII m fld =
     (let len = LengthAndRawDataField_Length m fld
      in if len < 0 then Inl (Panic ''makeslice: len out of range'')
         else GetBytes m (lrd_buf fld) 0 (replicate (nat len) 0))"

subsection \<open>Field laws\<close>

lemma Int64Field_GetAndAdd_eq:
  "Int64Field_GetAndAddInt64 m fld value =
     (get_i64 m fld, store 8 m fld (get_i64 m fld + value))"
proof -
  have "wrap64 (wrap64 (get_i64 m fld + value) - value) = get_i64 m fld"
    by (simp add: get_i64_def wrap64_def mod_simps)
  moreover have "store 8 m fld (wrap64 (get_i64 m fld + value)) = store 8 m fld (get_i64 m fld + value)"
    by (rule store_cong) (simp add: wrap64_congruent)
  ultimately show ?thesis by (simp add: Int64Field_GetAndAddInt64_def Let_def)
qed

lemma Int32Field_Wrap_ok [buffer_ok]:
  "0 \<le> offset \<Longrightarrow> offset + 4 \<le> Capacity buf \<Longrightarrow> Capacity buf < 2147483648 \<Longrightarrow>
   Int32Field_Wrap buf offset = Inr (Ptr buf + offset, 4)"
  by (simp add: Int32Field_Wrap_def wrap32_id BoundsCheck_ok)

lemma Int64Field_Wrap_ok [buffer_ok]:
  "0 \<le> offset \<Longrightarrow> offset + 8 \<le> Capacity buf \<Longrightarrow> Capacity buf < 2147483648 \<Longrightarrow>
   Int64Field_Wrap buf offset = Inr (Ptr buf + offset, 8)"
  by (simp add: Int64Field_Wrap_def wrap32_id BoundsCheck_ok)

lemma StringField_Wrap_ok [buffer_ok]:
  assumes "0 \<le> offset" and "offset mod 4 = 0" and "offset + 4 + l \<le> Capacity buf"
    and "Capacity buf < 2147483648" and "l = get_i32 m (Ptr buf + offset)" and "0 \<le> l"
  shows "StringField_Wrap m buf offset align =
     Inr (\<lparr>lenOffset = Ptr buf + offset, dataOffset = Ptr buf + offset + 4\<rparr>, 4 + l)"
proof -
  have "AlignInt32 offset 4 = offset"
    using assms(1-4,6) AlignInt32_4 [of offset] by auto
  then show ?thesis
    using assms by (simp add: StringField_Wrap_def wrap32_id BoundsCheck_ok Let_def add.assoc)
qed

lemma StringField_Set_Get:
  assumes "value \<noteq> []" and "int (length value) < 2147483648"
    and "dataOffset fld = lenOffset fld + 4"
  shows "\<exists>m'. StringField_Set m sz fld value =
           Inr (m', sz - get_i32 m (lenOffset fld) + int (length value)) \<and>
         StringField_Get m' fld = Inr value"
proof -
  have len: "wrap32 (int (length value)) = int (length value)"
    using assms(2) by (simp add: wrap32_id)
  then show ?thesis
    using assms(1,3)
    by (simp add: StringField_Set_def StringField_Get_def Let_def i32.get_write_other i32.get_put
        map_read_bytes read_write_same)
qed

end
