(* ===== verification/Log_Descriptor.thy ===== *)
theory Log_Descriptor
  imports Flyweight
begin

text \<open>
  The log buffer's layout: the data frame header and its accessors
  (\<open>aeron/logbuffer/DataFrameHeader.go\<close>, \<open>FrameDescriptor.go\<close>, \<open>header.go\<close>), buffer claims
  (\<open>claim.go\<close>), the meta data section, term rotation (\<open>descriptor.go\<close>) and the mapping of a log
  file into its three terms and its meta data (\<open>logbuffers.go\<close>). The operating system's mapping
  is a parameter: a function from offset and length to the base address, if it succeeds.
\<close>

subsection \<open>The data frame header\<close>

definition FrameLengthFieldOffset :: int where [simp]: "FrameLengthFieldOffset = 0"
definition VersionFieldOffset :: int where [simp]: "VersionFieldOffset = 4"
definition FlagsFieldOffset :: int where [simp]: "FlagsFieldOffset = 5"
definition TypeFieldOffset :: int where [simp]: "TypeFieldOffset = 6"
definition TermOffsetFieldOffset :: int where [simp]: "TermOffsetFieldOffset = 8"
definition SessionIDFieldOffset :: int where [simp]: "SessionIDFieldOffset = 12"
definition StreamIDFieldOffset :: int where [simp]: "StreamIDFieldOffset = 16"
definition TermIDFieldOffset :: int where [simp]: "TermIDFieldOffset = 20"
definition ReservedValueFieldOffset :: int where [simp]: "ReservedValueFieldOffset = 24"
definition DataFrameHeader_Length :: int where [simp]: "DataFrameHeader_Length = 32"
definition TypePad :: int where [simp]: "TypePad = 0"
definition TypeData :: int where [simp]: "TypeData = 1"
definition CurrentVersion :: int where [simp]: "CurrentVersion = 0"
definition FrameAlignment :: int where [simp]: "FrameAlignment = 32"

definition flagsOffset :: "int \<Rightarrow> int" where
  "flagsOffset frameOffset = wrap32 (frameOffset + FlagsFieldOffset)"

definition lengthOffset :: "int \<Rightarrow> int" where
  "lengthOffset frameOffset = wrap32 (frameOffset + FrameLengthFieldOffset)"

definition termIdOffset :: "int \<Rightarrow> int" where
  "termIdOffset frameOffset = wrap32 (frameOffset + TermIDFieldOffset)"

definition sessionIdOffset :: "int \<Rightarrow> int" where
  "sessionIdOffset frameOffset = wrap32 (frameOffset + SessionIDFieldOffset)"

definition streamIdOffset :: "int \<Rightarrow> int" where
  "streamIdOffset frameOffset = wrap32 (frameOffset + StreamIDFieldOffset)"

definition typeOffset :: "int \<Rightarrow> int" where
  "typeOffset frameOffset = wrap32 (frameOffset + TypeFieldOffset)"

definition reservedValueOffset :: "int \<Rightarrow> int" where
  "reservedValueOffset frameOffset = wrap32 (frameOffset + ReservedValueFieldOffset)"

definition ComputeMaxMessageLength :: "int \<Rightarrow> int" where
  "ComputeMaxMessageLength capacity = capacity sdiv 8"

definition GetFlags :: "mem \<Rightarrow> buffer \<Rightarrow> int \<Rightarrow> int res" where
  "GetFlags m logBuffer frameOffset = GetUInt8 m logBuffer (flagsOffset frameOffset)"

definition GetTermId :: "mem \<Rightarrow> buffer \<Rightarrow> int \<Rightarrow> int res" where
  "GetTermId m logBuffer frameOffset = GetInt32Volatile m logBuffer (termIdOffset frameOffset)"

definition GetSessionId :: "mem \<Rightarrow> buffer \<Rightarrow> int \<Rightarrow> int res" where
  "GetSessionId m logBuffer frameOffset = GetInt32Volatile m logBuffer (sessionIdOffset frameOffset)"

definition GetStreamId :: "mem \<Rightarrow> buffer \<Rightarrow> int \<Rightarrow> int res" where
  "GetStreamId m logBuffer frameOffset = GetInt32Volatile m logBuffer (streamIdOffset frameOffset)"

definition GetFrameLength :: "mem \<Rightarrow> buffer \<Rightarrow> int \<Rightarrow> int res" where
  "GetFrameLength m logBuffer frameOffset = GetInt32Volatile m logBuffer (lengthOffset frameOffset)"

definition GetReservedValue :: "mem \<Rightarrow> buffer \<Rightarrow> int \<Rightarrow> int res" where
  "GetReservedValue m logBuffer frameOffset =
     GetInt64Volatile m logBuffer (reservedValueOffset frameOffset)"

definition SetFrameLength :: "mem \<Rightarrow> buffer \<Rightarrow> int \<Rightarrow> int \<Rightarrow> mem res" where
  "SetFrameLength m logBuffer frameOffset frameLength =
     PutInt32Ordered m logBuffer (lengthOffset frameOffset) frameLength"

definition IsPaddingFrame :: "mem \<Rightarrow> buffer \<Rightarrow> int \<Rightarrow> bool res" where
  "IsPaddingFrame m logBuffer frameOffset =
     bindR (GetUInt16 m logBuffer (typeOffset frameOffset)) (\<lambda>t. Inr (t = TypePad))"

definition SetFrameType :: "mem \<Rightarrow> buffer \<Rightarrow> int \<Rightarrow> int \<Rightarrow> mem res" where
  "SetFrameType m logBuffer frameOffset typ = PutUInt16 m logBuffer (typeOffset frameOffset) typ"

definition FrameFlags :: "mem \<Rightarrow> buffer \<Rightarrow> int \<Rightarrow> int \<Rightarrow> mem res" where
  "FrameFlags m logBuffer frameOffset flags = PutUInt8 m logBuffer (flagsOffset frameOffset) flags"

subsection \<open>The header handed to fragment handlers\<close>

record Header =
  hdr_buffer :: buffer
  hdr_offset :: int
  hdr_initialTermID :: int
  hdr_positionBitsToShift :: int

definition Header_Wrap :: "Header \<Rightarrow> int \<Rightarrow> int \<Rightarrow> Header" where
  "Header_Wrap hdr ptr len = hdr\<lparr>hdr_buffer := Wrap ptr len\<rparr>"

definition SetOffset :: "Header \<Rightarrow> int \<Rightarrow> Header" where
  "SetOffset hdr offset = hdr\<lparr>hdr_offset := offset\<rparr>"

definition SetInitialTermID :: "Header \<Rightarrow> int \<Rightarrow> Header" where
  "SetInitialTermID hdr initialTermID = hdr\<lparr>hdr_initialTermID := initialTermID\<rparr>"

definition SetPositionBitsToShift :: "Header \<Rightarrow> int \<Rightarrow> Header" where
  "SetPositionBitsToShift hdr bits = hdr\<lparr>hdr_positionBitsToShift := bits\<rparr>"

definition Header_Flags :: "mem \<Rightarrow> Header \<Rightarrow> int res" where
  "Header_Flags m hdr = GetFlags m (hdr_buffer hdr) (hdr_offset hdr)"

definition Header_FrameLength :: "mem \<Rightarrow> Header \<Rightarrow> int res" where
  "Header_FrameLength m hdr = GetFrameLength m (hdr_buffer hdr) (hdr_offset hdr)"

definition Header_TermId :: "mem \<Rightarrow> Header \<Rightarrow> int res" where
  "Header_TermId m hdr = GetTermId m (hdr_buffer hdr) (hdr_offset hdr)"

definition Header_SessionId :: "mem \<Rightarrow> Header \<Rightarrow> int res" where
  "Header_SessionId m hdr = GetSessionId m (hdr_buffer hdr) (hdr_offset hdr)"

definition Header_StreamId :: "mem \<Rightarrow> Header \<Rightarrow> int res" where
  "Header_StreamId m hdr = GetStreamId m (hdr_buffer hdr) (hdr_offset hdr)"

definition Header_GetReservedValue :: "mem \<Rightarrow> Header \<Rightarrow> int res" where
  "Header_GetReservedValue m hdr = GetReservedValue m (hdr_buffer hdr) (hdr_offset hdr)"

definition Header_SetReservedValue :: "mem \<Rightarrow> Header \<Rightarrow> int \<Rightarrow> mem res" where
  "Header_SetReservedValue m hdr reservedValue =
     PutInt64 m (hdr_buffer hdr) (reservedValueOffset (hdr_offset hdr)) reservedValue"

definition Header_SetSessionId :: "mem \<Rightarrow> Header \<Rightarrow> int \<Rightarrow> mem res" where
  "Header_SetSessionId m hdr value =
     PutInt32 m (hdr_buffer hdr) (sessionIdOffset (hdr_offset hdr)) value"

text \<open>A shift count of \<open>int64\<close> values; counts of 64 and more give 0.\<close>

definition shl64 :: "int \<Rightarrow> int \<Rightarrow> int" where
  "shl64 x bits = (let n = bits mod 2 ^ 32 in if n < 64 then wrap64 (x * 2 ^ nat n) else 0)"

definition computePosition :: "int \<Rightarrow> int \<Rightarrow> int \<Rightarrow> int \<Rightarrow> int" where
  "computePosition activeTermId termOffset positionBitsToShift initialTermId =
     (let termCount = wrap32 (activeTermId - initialTermId)
      in wrap64 (shl64 termCount positionBitsToShift + termOffset))"

definition Header_Position :: "mem \<Rightarrow> Header \<Rightarrow> int res" where
  "Header_Position m hdr =
     bindR (Header_FrameLength m hdr) (\<lambda>frameLength.
     let resultingOffset = AlignInt32 (wrap32 (hdr_offset hdr + frameLength)) FrameAlignment
     in bindR (Header_TermId m hdr) (\<lambda>termId.
        Inr (computePosition termId resultingOffset (hdr_positionBitsToShift hdr)
               (hdr_initialTermID hdr))))"

subsection \<open>Claims\<close>

type_synonym Claim = buffer

definition Claim_Wrap :: "buffer \<Rightarrow> int \<Rightarrow> int \<Rightarrow> Claim res" where
  "Claim_Wrap buf offset len =
     bindR (BoundsCheck offset len (Capacity buf)) (\<lambda>_. Inr (Wrap (Ptr buf + offset) len))"

definition Claim_Offset :: int where "Claim_Offset = DataFrameHeader_Length"

definition Claim_Length :: "Claim \<Rightarrow> int" where
  "Claim_Length claim = wrap32 (Capacity claim - DataFrameHeader_Length)"

definition Claim_ReservedValue :: "mem \<Rightarrow> Claim \<Rightarrow> int res" where
  "Claim_ReservedValue m claim = GetInt64 m claim ReservedValueFieldOffset"

definition Claim_SetReservedValue :: "mem \<Rightarrow> Claim \<Rightarrow> int \<Rightarrow> mem res" where
  "Claim_SetReservedValue m claim value = PutInt64 m claim ReservedValueFieldOffset value"

definition Claim_Commit :: "mem \<Rightarrow> Claim \<Rightarrow> mem res" where
  "Claim_Commit m claim = PutInt32Ordered m claim FrameLengthFieldOffset (Capacity claim)"

definition Claim_Abort :: "mem \<Rightarrow> Claim \<Rightarrow> mem res" where
  "Claim_Abort m claim =
     bindR (PutUInt16 m claim TypeFieldOffset TypePad) (\<lambda>m1.
     PutInt32Ordered m1 claim FrameLengthFieldOffset (Capacity claim))"

subsection \<open>The meta data section\<close>

definition PartitionCount :: int where [simp]: "PartitionCount = 3"
definition LogMetaDataSectionIndex :: int where [simp]: "LogMetaDataSectionIndex = PartitionCount"
definition TermMinLength :: int where [simp]: "TermMinLength = 64 * 1024"
definition termMaxLength :: int where [simp]: "termMaxLength = 1024 * 1024 * 1024"
definition pageMinSize :: int where [simp]: "pageMinSize = 4 * 1024"
definition pageMaxSize :: int where [simp]: "pageMaxSize = 1024 * 1024 * 1024"
definition maxSingleMappingSize :: int where [simp]: "maxSingleMappingSize = 0x7FFFFFFF"
definition LogMetaDataLength :: int where [simp]: "LogMetaDataLength = pageMinSize"

record LogBufferMetaData =
  TailCounter :: "Int64Field list"
  ActiveTermCountOff :: Int32Field
  EndOfStreamPosOff :: Int64Field
  meta_IsConnected :: Int32Field
  ActiveTransportCountOff :: Int32Field
  meta_CorrelationId :: Int64Field
  InitTermID :: Int32Field
  DefaultFrameHdrLen :: Int32Field
  MTULen :: Int32Field
  TermLen :: Int32Field
  PageSize :: Int32Field
  DefaultFrameHeader :: buffer
  meta_size :: int

definition LogBufferMetaData_Wrap :: "buffer \<Rightarrow> int \<Rightarrow> LogBufferMetaData res" where
  "LogBufferMetaData_Wrap buf offset =
     (let pos = offset in
      bindR (Int64Field_Wrap buf pos) (\<lambda>(tail0, n). let pos = pos + n in
      bindR (Int64Field_Wrap buf pos) (\<lambda>(tail1, n). let pos = pos + n in
      bindR (Int64Field_Wrap buf pos) (\<lambda>(tail2, n). let pos = pos + n in
      bindR (Int32Field_Wrap buf pos) (\<lambda>(activeTermCount, n). let pos = pos + n;
        pos = pos + snd (Padding_Wrap buf pos (CacheLineLength * 2) CacheLineLength) in
      bindR (Int64Field_Wrap buf pos) (\<lambda>(endOfStreamPos, n). let pos = pos + n in
      bindR (Int32Field_Wrap buf pos) (\<lambda>(isConnected, n). let pos = pos + n in
      bindR (Int32Field_Wrap buf pos) (\<lambda>(activeTransportCount, n). let pos = pos + n;
        pos = pos + snd (Padding_Wrap buf pos (CacheLineLength * 2) CacheLineLength) in
      bindR (Int64Field_Wrap buf pos) (\<lambda>(correlationId, n). let pos = pos + n in
      bindR (Int32Field_Wrap buf pos) (\<lambda>(initTermID, n). let pos = pos + n in
      bindR (Int32Field_Wrap buf pos) (\<lambda>(defaultFrameHdrLen, n). let pos = pos + n in
      bindR (Int32Field_Wrap buf pos) (\<lambda>(mtuLen, n). let pos = pos + n in
      bindR (Int32Field_Wrap buf pos) (\<lambda>(termLen, n). let pos = pos + n in
      bindR (Int32Field_Wrap buf pos) (\<lambda>(pageSize, n). let pos = pos + n;
        pos = pos + snd (Padding_Wrap buf pos CacheLineLength CacheLineLength);
        (defaultFrameHeader, n) = RawDataField_Wrap buf pos DataFrameHeader_Length;
        pos = pos + n;
        pos = pos + snd (Padding_Wrap buf pos (CacheLineLength * 2) CacheLineLength) in
      Inr \<lparr>TailCounter = [tail0, tail1, tail2], ActiveTermCountOff = activeTermCount,
           EndOfStreamPosOff = endOfStreamPos, meta_IsConnected = isConnected,
           ActiveTransportCountOff = activeTransportCount, meta_CorrelationId = correlationId,
           InitTermID = initTermID, DefaultFrameHdrLen = defaultFrameHdrLen, MTULen = mtuLen,
           TermLen = termLen, PageSize = pageSize, DefaultFrameHeader = defaultFrameHeader,
           meta_size = pos - offset\<rparr>))))))))))))))"

definition ActiveTransportCount :: "mem \<Rightarrow> LogBufferMetaData \<Rightarrow> int" where
  "ActiveTransportCount m meta = Int32Field_Get m (ActiveTransportCountOff meta)"

definition checkTermLength :: "int \<Rightarrow> unit res" where
  "checkTermLength termLength =
     (if termLength < TermMinLength then Inl (Panic ''Term length less than min size'')
      else if termLength > termMaxLength then Inl (Panic ''Term length greater than max size'')
      else if \<not> IsPowerOfTwo termLength then Inl (Panic ''Term length not a power of 2'')
      else Inr ())"

definition computeTermLength :: "int \<Rightarrow> int" where
  "computeTermLength logLength = wrap32 (logLength - LogMetaDataLength) sdiv PartitionCount"

definition checkPageSize :: "int \<Rightarrow> unit res" where
  "checkPageSize pageSize =
     (if pageSize < pageMinSize then Inl (Panic ''Page size less than min size'')
      else if pageSize > pageMaxSize then Inl (Panic ''Page Size greater than max size'')
      else if \<not> IsPowerOfTwo pageSize then Inl (Panic ''Page size not a power of 2'')
      else Inr ())"

subsection \<open>Term rotation\<close>

definition TermID :: "int \<Rightarrow> int" where
  "TermID rawTail = wrap32 (drop_bit 32 rawTail)"

text \<open>The offset half of a raw tail, written \<open>rawTail & 0xFFFFFFFF\<close> where it is used.\<close>

definition low32 :: "int \<Rightarrow> int" where
  "low32 rawTail = rawTail AND 0xFFFFFFFF"

definition indexByTermCount :: "int \<Rightarrow> int" where
  "indexByTermCount termCount = termCount smod PartitionCount"

text \<open>
  Indexing a Go array or slice: an index outside it panics.
\<close>

definition index_slice :: "'a list \<Rightarrow> int \<Rightarrow> 'a res" where
  "index_slice xs i =
     (if 0 \<le> i \<and> i < int (length xs) then Inr (xs ! nat i)
      else Inl (Panic ''index out of range''))"

text \<open>
  \<open>RotateLog\<close> retries its compare-and-set until it succeeds or the term has been rotated by
  another publisher. What other publishers do to memory before its \<open>k\<close>-th access is \<open>env k\<close>; the
  retry loop returns the number of the next access with the memory.
\<close>

partial_function (option) rotate_tail :: "(nat \<Rightarrow> mem \<Rightarrow> mem) \<Rightarrow> nat \<Rightarrow> int \<Rightarrow> int \<Rightarrow> int \<Rightarrow> mem \<Rightarrow> (nat \<times> mem) option" where
  "rotate_tail env k tail expectedTermId newRawTail m =
     (let m = env k m; rawTail = Int64Field_Get m tail
      in if expectedTermId \<noteq> TermID rawTail then Some (Suc k, m)
         else let (swapped, m) = Int64Field_CAS (env (Suc k) m) tail rawTail newRawTail
              in if swapped then Some (Suc (Suc k), m)
                 else rotate_tail env (Suc (Suc k)) tail expectedTermId newRawTail m)"

definition RotateLog :: "(nat \<Rightarrow> mem \<Rightarrow> mem) \<Rightarrow> mem \<Rightarrow> LogBufferMetaData \<Rightarrow> int \<Rightarrow> int \<Rightarrow> mem res option" where
  "RotateLog env m logMetaDataBuffer currentTermCount currentTermId =
     (let nextTermId = wrap32 (currentTermId + 1);
          nextTermCount = wrap32 (currentTermCount + 1);
          nextIndex = indexByTermCount nextTermCount;
          expectedTermId = wrap32 (nextTermId - PartitionCount);
          newRawTail = wrap64 (nextTermId * 2 ^ 32)
      in case index_slice (TailCounter logMetaDataBuffer) nextIndex of
           Inl e \<Rightarrow> Some (Inl e)
         | Inr tail \<Rightarrow>
             map_option (\<lambda>(k, m). Inr (snd (Int32Field_CAS (env k m) (ActiveTermCountOff logMetaDataBuffer)
                                          currentTermCount nextTermCount)))
               (rotate_tail env 0 tail expectedTermId newRawTail m))"

text \<open>The call of a publication that is the only one on its log.\<close>

definition RotateLog_alone :: "mem \<Rightarrow> LogBufferMetaData \<Rightarrow> int \<Rightarrow> int \<Rightarrow> mem res" where
  "RotateLog_alone m logMetaDataBuffer currentTermCount currentTermId =
     (case RotateLog alone m logMetaDataBuffer currentTermCount currentTermId of
        None \<Rightarrow> Inl (Blocked ''RotateLog'') | Some r \<Rightarrow> r)"

subsection \<open>Mapping a log file\<close>

record LogBuffers =
  mmapFiles :: "int option list"
  lb_buffers :: "buffer list"
  lb_meta :: LogBufferMetaData
  refCount :: int

definition GetMemoryPtr :: "int option \<Rightarrow> int res" where
  "GetMemoryPtr mmap =
     (case mmap of None \<Rightarrow> Inl (Panic ''nil pointer dereference'') | Some base \<Rightarrow> Inr base)"

text \<open>
  The branch for files above the single-mapping limit: the slice of maps starts with four nil
  entries, and every map is appended after them.
\<close>

fun wrap_terms :: "(int \<Rightarrow> int \<Rightarrow> int option) \<Rightarrow> int \<Rightarrow> nat \<Rightarrow> nat \<Rightarrow> int option list \<Rightarrow>
    (int option list \<times> buffer list) res" where
  "wrap_terms mapExisting termLength 0 i files = Inr (files, [])"
| "wrap_terms mapExisting termLength (Suc n) i files =
     (case mapExisting (int i * termLength) termLength of
        None \<Rightarrow> Inl (Panic ''Failed to map the log buffer'')
      | Some mmap \<Rightarrow>
          (let files = files @ [Some mmap]
           in bindR (bindR (index_slice files (int i + 1)) GetMemoryPtr) (\<lambda>basePtr.
              bindR (wrap_terms mapExisting termLength n (Suc i) files) (\<lambda>(files', bufs).
              Inr (files', Wrap basePtr termLength # bufs)))))"

definition LogBuffers_Wrap :: "int \<Rightarrow> (int \<Rightarrow> int \<Rightarrow> int option) \<Rightarrow> LogBuffers res" where
  "LogBuffers_Wrap logLength mapExisting =
     (let termLength = computeTermLength (wrap32 logLength)
      in bindR (checkTermLength termLength) (\<lambda>_.
         if logLength < maxSingleMappingSize then
           (case mapExisting 0 0 of
              None \<Rightarrow> Inl (Panic ''mmap error'')
            | Some basePtr \<Rightarrow>
                (let terms = map (\<lambda>i. Wrap (basePtr + int i * termLength) termLength) [0..<3];
                     metaBuf = Wrap (basePtr + (logLength - LogMetaDataLength)) LogMetaDataLength
                 in bindR (LogBufferMetaData_Wrap metaBuf 0) (\<lambda>meta.
                    Inr \<lparr>mmapFiles = [Some basePtr], lb_buffers = terms @ [metaBuf],
                         lb_meta = meta, refCount = 0\<rparr>)))
         else
           (let files = replicate 4 None;
                metaDataSectionOffset = termLength * LogMetaDataSectionIndex;
                metaDataSectionLength = logLength - metaDataSectionOffset
            in case mapExisting metaDataSectionOffset metaDataSectionLength of
                 None \<Rightarrow> Inl (Panic ''Failed to map the log buffer'')
               | Some mmap \<Rightarrow>
                   bindR (wrap_terms mapExisting termLength 3 0 (files @ [Some mmap]))
                     (\<lambda>(files, terms).
                   bindR (bindR (index_slice files 0) GetMemoryPtr) (\<lambda>metaDataBasePtr.
                   let metaBuf = Wrap metaDataBasePtr LogMetaDataLength
                   in bindR (LogBufferMetaData_Wrap metaBuf 0) (\<lambda>meta.
                      Inr \<lparr>mmapFiles = files, lb_buffers = terms @ [metaBuf],
                           lb_meta = meta, refCount = 0\<rparr>))))))"

definition Buffer :: "LogBuffers \<Rightarrow> int \<Rightarrow> buffer res" where
  "Buffer logBuffers index = index_slice (lb_buffers logBuffers) index"

definition IncRef :: "LogBuffers \<Rightarrow> int \<times> LogBuffers" where
  "IncRef logBuffers =
     (let n = wrap64 (refCount logBuffers + 1) in (n, logBuffers\<lparr>refCount := n\<rparr>))"

definition DecRef :: "LogBuffers \<Rightarrow> int \<times> LogBuffers" where
  "DecRef logBuffers =
     (let n = wrap64 (refCount logBuffers - 1) in (n, logBuffers\<lparr>refCount := n\<rparr>))"

text \<open>
  \<open>Close\<close> unmaps every file and keeps the outcome of the last one only; \<open>close\<close> says whether the
  operating system reports an error for a mapping.
\<close>

definition LogBuffers_Close :: "(int \<Rightarrow> string option) \<Rightarrow> LogBuffers \<Rightarrow>
    (string option \<times> LogBuffers) res" where
  "LogBuffers_Close close logBuffers =
     bindR (fold (\<lambda>mmap acc. bindR acc (\<lambda>_. bindR (GetMemoryPtr mmap) (\<lambda>p. Inr (close p))))
              (mmapFiles logBuffers) (Inr None)) (\<lambda>err.
     Inr (err, logBuffers\<lparr>mmapFiles := []\<rparr>))"

subsection \<open>Raw tails\<close>

lemma low32_mod: "low32 x = x mod 4294967296"
proof -
  have "(0xFFFFFFFF::int) = mask 32" by (simp add: mask_eq_exp_minus_1)
  then have "low32 x = take_bit 32 x" unfolding low32_def by (simp only: take_bit_eq_mask)
  then show ?thesis by (simp add: take_bit_eq_mod)
qed

lemma TermID_div: "TermID x = wrap32 (x div 4294967296)"
  by (simp add: TermID_def drop_bit_eq_div)

lemma low32_bounds [simp]: "0 \<le> low32 x" "low32 x < 4294967296"
  by (simp_all add: low32_mod)

lemma TermID_raw [simp]:
  "in_i32 tid \<Longrightarrow> 0 \<le> off \<Longrightarrow> off < 4294967296 \<Longrightarrow> TermID (tid * 4294967296 + off) = tid"
  by (simp add: TermID_div div_pos_pos_trivial)

lemma low32_raw [simp]:
  "0 \<le> off \<Longrightarrow> off < 4294967296 \<Longrightarrow> low32 (tid * 4294967296 + off) = off"
  by (simp add: low32_mod)

lemma raw_tail_split: "x = x div 4294967296 * 4294967296 + low32 x"
  by (simp add: low32_mod)

lemma raw_tail_in_i64:
  "in_i32 tid \<Longrightarrow> 0 \<le> off \<Longrightarrow> off < 4294967296 \<Longrightarrow> in_i64 (tid * 4294967296 + off)"
  by (simp add: in_i32_def in_i64_def)

lemma raw_tail_start: "in_i64 (wrap32 x * 4294967296)"
  using in_i32_wrap32 [of x] by (simp add: in_i32_def in_i64_def)

subsection \<open>The layout of the meta data\<close>

definition meta_at :: "int \<Rightarrow> LogBufferMetaData" where
  "meta_at p =
     \<lparr>TailCounter = [p, p + 8, p + 16], ActiveTermCountOff = p + 24, EndOfStreamPosOff = p + 128,
      meta_IsConnected = p + 136, ActiveTransportCountOff = p + 140, meta_CorrelationId = p + 256,
      InitTermID = p + 264, DefaultFrameHdrLen = p + 268, MTULen = p + 272, TermLen = p + 276,
      PageSize = p + 280, DefaultFrameHeader = Wrap (p + 320) 32, meta_size = 448\<rparr>"

lemma smod_nonneg_int: "0 \<le> (a :: int) \<Longrightarrow> 0 < b \<Longrightarrow> a smod b = a mod b"
  by (cases "a = 0") (simp_all add: signed_modulo_int_def)

lemma Padding_Wrap_len:
  assumes "0 \<le> offset" and "64 \<le> padding" and "offset + padding < 2147483648"
  shows "snd (Padding_Wrap buf offset padding 64) = (offset + padding) div 64 * 64 - offset"
proof -
  let ?n = "offset + padding - (offset + padding) mod 64"
  have n: "?n = (offset + padding) div 64 * 64" by (simp add: minus_mod_eq_div_mult)
  have "0 \<le> (offset + padding) mod 64" "(offset + padding) mod 64 < 64" by simp_all
  then have "0 \<le> ?n - offset" and "0 \<le> ?n" and "?n < 2147483648"
    using assms by linarith+
  then have "snd (Padding_Wrap buf offset padding 64) = ?n - offset"
    using assms
    by (simp add: Padding_Wrap_def RawDataField_Wrap_def Let_def wrap32_id smod_nonneg_int)
  then show ?thesis by (simp only: n)
qed

lemma LogBufferMetaData_Wrap_meta_at:
  assumes "4096 \<le> Capacity buf" and "Capacity buf < 2147483648"
  shows "LogBufferMetaData_Wrap buf 0 = Inr (meta_at (Ptr buf))"
  unfolding LogBufferMetaData_Wrap_def CacheLineLength_def
  using assms
  by (simp add: buffer_ok Let_def Padding_Wrap_len RawDataField_Wrap_def meta_at_def
      cong: bindR_weak_cong)

text \<open>
  Wrapping the meta data section of a log buffer places every field at a fixed offset: the
  tail counters at 0, 8 and 16, the active term count at 24, the end of stream position at 128,
  the connected flag at 136, the registration id at 256, the initial term id at 264, then the
  header length, MTU, term length and page size at 268, 272, 276 and 280 and the default frame
  header at 320; the section takes 448 bytes.
\<close>

theorem LogBufferMetaData_layout:
  assumes "4096 \<le> Capacity buf" and "Capacity buf < 2147483648"
  shows "LogBufferMetaData_Wrap buf 0 = Inr (meta_at (Ptr buf))"
  using assms by (rule LogBufferMetaData_Wrap_meta_at)

theorem LogBufferMetaData_layout_witness:
  "LogBufferMetaData_Wrap (Wrap 1000 4096) 0 = Inr (meta_at 1000)"
  using LogBufferMetaData_layout [of "Wrap 1000 4096"] by (simp add: Wrap_def)

subsection \<open>Mapping\<close>

lemma sdiv_nonneg_int: "0 \<le> (a :: int) \<Longrightarrow> 0 < b \<Longrightarrow> a sdiv b = a div b"
  by (cases "a = 0") (simp_all add: signed_divide_int_def)

lemma checkTermLength_pow2:
  assumes "16 \<le> k" and "k \<le> 30"
  shows "checkTermLength (2 ^ k) = Inr ()"
proof -
  have "(2::int) ^ 16 \<le> 2 ^ k" using assms(1) by (rule power_increasing) simp
  then have lo: "65536 \<le> (2::int) ^ k" by simp
  have "(2::int) ^ k \<le> 2 ^ 30" using assms(2) by (rule power_increasing) simp
  then have hi: "(2::int) ^ k \<le> 1073741824" by simp
  have "in_i64 (2 ^ k)" unfolding in_i64_def using lo hi by linarith
  then have "IsPowerOfTwo (2 ^ k)" by (auto simp: IsPowerOfTwo_iff)
  then show ?thesis using lo hi by (simp add: checkTermLength_def)
qed

text \<open>
  A log file of three terms of \<open>2 ^ k\<close> bytes (64 KiB up to 512 MiB) followed by a 4 KiB meta
  data section is mapped once, its terms lie one behind the other from the base of the
  mapping, and the meta data flyweight sits right behind the third term.
\<close>

theorem LogBuffers_Wrap_single_mapping:
  assumes "16 \<le> k" and "k \<le> 29" and "mapExisting 0 0 = Some base"
  shows "LogBuffers_Wrap (3 * 2 ^ k + 4096) mapExisting =
     Inr \<lparr>mmapFiles = [Some base],
          lb_buffers = [Wrap base (2 ^ k), Wrap (base + 2 ^ k) (2 ^ k),
                        Wrap (base + 2 * 2 ^ k) (2 ^ k), Wrap (base + 3 * 2 ^ k) 4096],
          lb_meta = meta_at (base + 3 * 2 ^ k), refCount = 0\<rparr>"
proof -
  have "(2::int) ^ k \<le> 2 ^ 29" using assms(2) by (rule power_increasing) simp
  then have hi: "(2::int) ^ k \<le> 536870912" by simp
  have lo: "0 \<le> (2::int) ^ k" by simp
  have len: "wrap32 (3 * 2 ^ k + 4096) = 3 * 2 ^ k + 4096"
    by (rule wrap32_id) (use hi lo in linarith)+
  have "wrap32 (3 * 2 ^ k) = 3 * 2 ^ k"
    by (rule wrap32_id) (use hi lo in linarith)+
  then have tl: "computeTermLength (3 * 2 ^ k + 4096) = 2 ^ k"
    by (simp add: computeTermLength_def sdiv_nonneg_int)
  have small: "3 * (2::int) ^ k + 4096 < 0x7FFFFFFF" using hi by linarith
  have meta: "LogBufferMetaData_Wrap (Wrap p 4096) 0 = Inr (meta_at p)" for p
    using LogBufferMetaData_Wrap_meta_at [of "Wrap p 4096"] by (simp add: Wrap_def)
  show ?thesis
    using assms small
    by (simp add: LogBuffers_Wrap_def Let_def len tl checkTermLength_pow2 meta upt_rec)
qed

theorem LogBuffers_Wrap_single_mapping_witness:
  "LogBuffers_Wrap (3 * 2 ^ 16 + 4096) (\<lambda>_ _. Some 4096) =
     Inr \<lparr>mmapFiles = [Some 4096],
          lb_buffers = [Wrap 4096 (2 ^ 16), Wrap (4096 + 2 ^ 16) (2 ^ 16),
                        Wrap (4096 + 2 * 2 ^ 16) (2 ^ 16), Wrap (4096 + 3 * 2 ^ 16) 4096],
          lb_meta = meta_at (4096 + 3 * 2 ^ 16), refCount = 0\<rparr>"
  by (rule LogBuffers_Wrap_single_mapping) simp_all

lemma wrap_terms_nil_files:
  "\<exists>msg. wrap_terms mapExisting termLength 3 0 (replicate 4 None @ fs) = Inl (Panic msg)"
  by (auto simp: numeral_3_eq_3 index_slice_def GetMemoryPtr_def eval_nat_numeral split: option.split)

lemma checkTermLength_outcome: "checkTermLength n = Inr () \<or> (\<exists>msg. checkTermLength n = Inl (Panic msg))"
  by (simp add: checkTermLength_def)

text \<open>
  (C38) A log file at or above the single-mapping limit of 2 GiB cannot be opened, whatever the
  operating system answers. The file length is cut to 32 bits before the term length is computed
  from it; for terms of 1 GiB, the only ones that give so large a file, the result is negative and
  the check of the term length panics. Where the cut length passes that check, the branch that
  maps the terms one by one reads the nil entries it created the slice of maps with, and panics.
\<close>

theorem LogBuffers_Wrap_large_panics:
  assumes "0x7FFFFFFF \<le> logLength"
  shows "\<exists>msg. LogBuffers_Wrap logLength mapExisting = Inl (Panic msg)"
proof -
  let ?t = "computeTermLength (wrap32 logLength)"
  consider "checkTermLength ?t = Inr ()" | msg where "checkTermLength ?t = Inl (Panic msg)"
    using checkTermLength_outcome [of ?t] by blast
  then show ?thesis
  proof cases
    case 1
    show ?thesis
    proof (cases "mapExisting (?t * 3) (logLength - ?t * 3)")
      case None
      then show ?thesis using 1 assms by (simp add: LogBuffers_Wrap_def Let_def)
    next
      case (Some mmap)
      obtain msg where "wrap_terms mapExisting ?t 3 0 (replicate 4 None @ [Some mmap]) = Inl (Panic msg)"
        using wrap_terms_nil_files by blast
      then show ?thesis using 1 assms Some by (simp add: LogBuffers_Wrap_def Let_def)
    qed
  qed (simp add: LogBuffers_Wrap_def Let_def)
qed

theorem LogBuffers_Wrap_large_panics_witness:
  "\<exists>msg. LogBuffers_Wrap (3 * 1073741824 + 4096) (\<lambda>_ _. Some 4096) = Inl (Panic msg)"
  by (rule LogBuffers_Wrap_large_panics) simp

subsection \<open>Rotation\<close>

lemma tail_counter_index:
  assumes "0 \<le> i" and "i < 3"
  shows "index_slice (TailCounter (meta_at p)) i = Inr (p + 8 * i)"
proof -
  have "i = 0 \<or> i = 1 \<or> i = 2" using assms by linarith
  then show ?thesis by (auto simp: index_slice_def meta_at_def numeral_2_eq_2)
qed

lemma indexByTermCount_nonneg: "0 \<le> n \<Longrightarrow> indexByTermCount n = n mod 3"
  by (simp add: indexByTermCount_def smod_nonneg_int)

text \<open>What memory becomes when only the others act.\<close>

primrec by_others :: "(nat \<Rightarrow> mem \<Rightarrow> mem) \<Rightarrow> nat \<Rightarrow> mem \<Rightarrow> mem" where
  "by_others env 0 m = m"
| "by_others env (Suc j) m = env j (by_others env j m)"

lemma by_others_alone [simp]: "by_others alone j m = m"
  by (induction j) auto

text \<open>
  A failed attempt leaves no trace, so the retry loop acts as one conditional store at the moment
  of its last access.
\<close>

lemma rotate_tail_ends:
  assumes "\<And>k m. N \<le> k \<Longrightarrow> get_i64 (env k m) t = get_i64 m t"
  shows "\<exists>j. rotate_tail env k t ex new (by_others env k m) = Some (j,
     let m1 = by_others env j m in if TermID (get_i64 m1 t) = ex then store 8 m1 t new else m1)"
proof (induction "N - k" arbitrary: k rule: less_induct)
  case less
  let ?m1 = "by_others env (Suc k) m" and ?m2 = "by_others env (Suc (Suc k)) m"
  consider (gone) "TermID (get_i64 ?m1 t) \<noteq> ex"
    | (swap) "TermID (get_i64 ?m1 t) = ex" "get_i64 ?m2 t = get_i64 ?m1 t"
    | (retry) "TermID (get_i64 ?m1 t) = ex" "get_i64 ?m2 t \<noteq> get_i64 ?m1 t" by blast
  then show ?case
  proof cases
    case gone
    then show ?thesis
      by (subst rotate_tail.simps) (auto simp: Let_def Int64Field_Get_def intro!: exI [of _ "Suc k"])
  next
    case swap
    then show ?thesis
      by (subst rotate_tail.simps)
         (auto simp: Let_def Int64Field_Get_def Int64Field_CAS_def intro!: exI [of _ "Suc (Suc k)"])
  next
    case retry
    then have "\<not> N \<le> Suc k" using assms by force
    then have "N - Suc (Suc k) < N - k" by linarith
    from less [OF this] show ?thesis
      using retry by (subst rotate_tail.simps) (auto simp: Let_def Int64Field_Get_def Int64Field_CAS_def)
  qed
qed

lemma RotateLog_steps:
  assumes "0 \<le> tc" and "tc < 2147483647" and "in_i32 tid" and t: "t = p + 8 * ((tc + 1) mod 3)"
    and settles: "\<And>k m. N \<le> k \<Longrightarrow> get_i64 (env k m) t = get_i64 m t"
  shows "\<exists>j m1 m2 m3. m1 = by_others env j m \<and>
    m2 = (if TermID (get_i64 m1 t) = wrap32 (tid - 2) then store 8 m1 t (wrap32 (tid + 1) * 4294967296) else m1) \<and>
    m3 = env j m2 \<and>
    RotateLog env m (meta_at p) tc tid =
      Some (Inr (if get_i32 m3 (p + 24) = tc then store 4 m3 (p + 24) (tc + 1) else m3))"
proof -
  have "wrap32 (wrap32 (tid + 1) - 3) = wrap32 (tid - 2)"
    by (simp add: wrap32_def mod_simps)
  moreover have "in_i64 (wrap32 (tid + 1) * 4294967296)" by (rule raw_tail_start)
  moreover obtain j where "rotate_tail env 0 t (wrap32 (tid - 2)) (wrap32 (tid + 1) * 4294967296) (by_others env 0 m) = Some (j,
     let m1 = by_others env j m
     in if TermID (get_i64 m1 t) = wrap32 (tid - 2) then store 8 m1 t (wrap32 (tid + 1) * 4294967296) else m1)"
    using rotate_tail_ends [where env = env and N = N and t = t and k = 0, OF settles] by blast
  moreover define m1 m2 where "m1 = by_others env j m"
    and "m2 = (if TermID (get_i64 m1 t) = wrap32 (tid - 2) then store 8 m1 t (wrap32 (tid + 1) * 4294967296) else m1)"
  ultimately have "rotate_tail env 0 t (wrap32 (wrap32 (tid + 1) - 3)) (wrap64 (wrap32 (tid + 1) * 4294967296)) m = Some (j, m2)"
    by (simp add: Let_def)
  moreover have "index_slice (TailCounter (meta_at p)) (indexByTermCount (wrap32 (tc + 1))) = Inr t"
    using assms(1,2) by (simp add: wrap32_id indexByTermCount_nonneg tail_counter_index t)
  ultimately have "RotateLog env m (meta_at p) tc tid =
      Some (Inr (if get_i32 (env j m2) (p + 24) = tc then store 4 (env j m2) (p + 24) (tc + 1) else env j m2))"
    using assms(1,2) by (simp add: RotateLog_def Int32Field_CAS_def wrap32_id) (simp add: meta_at_def)
  then show ?thesis using m1_def m2_def by blast
qed

lemma RotateLog_alone_unfold:
  assumes "0 \<le> tc" and "tc < 2147483647" and "in_i32 tid"
  shows "RotateLog_alone m (meta_at p) tc tid =
    (let t = p + 8 * ((tc + 1) mod 3);
         m1 = (if wrap32 (tid - 2) \<noteq> TermID (get_i64 m t) then m
               else store 8 m t (wrap32 (tid + 1) * 4294967296))
     in Inr (if get_i32 m1 (p + 24) = tc then store 4 m1 (p + 24) (tc + 1) else m1))"
  using RotateLog_steps [OF assms refl, where N = 0 and env = alone and p = p and m = m] by (auto simp: RotateLog_alone_def Let_def)

lemma wrap32_term_distinct: "wrap32 (tid - 2) \<noteq> wrap32 (tid + 1)"
proof
  assume "wrap32 (tid - 2) = wrap32 (tid + 1)"
  then have "(tid - 2) mod 4294967296 = (tid + 1) mod 4294967296"
    by (metis wrap32_congruent)
  then have "(tid + 1 - (tid - 2)) mod 4294967296 = (0::int)"
    by (metis cancel_comm_monoid_add_class.diff_cancel mod_0 mod_diff_cong)
  then show False by simp
qed

text \<open>
  (C18) Rotation of a full term while other publishers work on the same log. Whatever they do
  between any two accesses, as long as they leave the tail of the next partition alone from some
  moment on, the call ends, and all it does to memory is two conditional stores. After the others'
  steps up to some moment it sets the raw tail of the next partition to the start of the next term,
  if and only if that tail carries the term three behind then; after one more step of the others it
  moves the active term count from \<open>tc\<close> to \<open>tc + 1\<close>, if and only if it is \<open>tc\<close> then. Behind each store its
  condition is false, so publishers that rotate the same term advance the log once.
\<close>

theorem RotateLog_advances_once:
  assumes "0 \<le> tc" and "tc < 2147483647" and "in_i32 tid" and "t = p + 8 * ((tc + 1) mod 3)"
    and "\<And>k m. N \<le> k \<Longrightarrow> get_i64 (env k m) t = get_i64 m t"
  shows "\<exists>j m1 m2 m3 m'. RotateLog env m (meta_at p) tc tid = Some (Inr m') \<and>
    m1 = by_others env j m \<and>
    m2 = (if TermID (get_i64 m1 t) = wrap32 (tid - 2) then store 8 m1 t (wrap32 (tid + 1) * 4294967296) else m1) \<and>
    m3 = env j m2 \<and>
    m' = (if get_i32 m3 (p + 24) = tc then store 4 m3 (p + 24) (tc + 1) else m3) \<and>
    TermID (get_i64 m2 t) \<noteq> wrap32 (tid - 2) \<and> get_i32 m' (p + 24) \<noteq> tc"
proof -
  have "TermID (get_i64 (store 8 m1 t (wrap32 (tid + 1) * 4294967296)) t) \<noteq> wrap32 (tid - 2)" for m1
    using TermID_raw [of "wrap32 (tid + 1)" 0] wrap32_term_distinct [of tid] by (simp add: i64.get_put raw_tail_start)
  moreover have "get_i32 (store 4 m3 (p + 24) (tc + 1)) (p + 24) \<noteq> tc" for m3
    using assms(1,2) by (simp add: i32.get_put wrap32_id)
  moreover have "\<exists>j m1 m2 m3. m1 = by_others env j m \<and>
      m2 = (if TermID (get_i64 m1 t) = wrap32 (tid - 2) then store 8 m1 t (wrap32 (tid + 1) * 4294967296) else m1) \<and>
      m3 = env j m2 \<and> RotateLog env m (meta_at p) tc tid =
        Some (Inr (if get_i32 m3 (p + 24) = tc then store 4 m3 (p + 24) (tc + 1) else m3))"
    by (rule RotateLog_steps) (use assms in auto)
  then obtain j m1 m2 m3 where "m1 = by_others env j m"
      "m2 = (if TermID (get_i64 m1 t) = wrap32 (tid - 2) then store 8 m1 t (wrap32 (tid + 1) * 4294967296) else m1)"
      "m3 = env j m2" "RotateLog env m (meta_at p) tc tid =
        Some (Inr (if get_i32 m3 (p + 24) = tc then store 4 m3 (p + 24) (tc + 1) else m3))" by blast
  ultimately show ?thesis
    by (intro exI [of _ j] exI [of _ m1] exI [of _ m2] exI [of _ m3] exI conjI) (assumption | simp)+
qed

text \<open>Another publisher resets the tail between the reading and the compare-and-set.\<close>

theorem RotateLog_advances_once_witness:
  "\<exists>m'. RotateLog (\<lambda>k m. if k = 1 then store 8 m 1008 (8 * 4294967296) else m)
      (store 8 (\<lambda>_. 0) 1008 (5 * 4294967296)) (meta_at 1000) 0 7 = Some (Inr m') \<and> get_i32 m' 1024 \<noteq> 0"
proof -
  have "\<exists>j m1 m2 m3 m'. RotateLog (\<lambda>k m. if k = 1 then store 8 m 1008 (8 * 4294967296) else m)
      (store 8 (\<lambda>_. 0) 1008 (5 * 4294967296)) (meta_at 1000) 0 7 = Some (Inr m') \<and>
    m1 = by_others (\<lambda>k m. if k = 1 then store 8 m 1008 (8 * 4294967296) else m) j (store 8 (\<lambda>_. 0) 1008 (5 * 4294967296)) \<and>
    m2 = (if TermID (get_i64 m1 1008) = wrap32 (7 - 2) then store 8 m1 1008 (wrap32 (7 + 1) * 4294967296) else m1) \<and>
    m3 = (\<lambda>k m. if k = 1 then store 8 m 1008 (8 * 4294967296) else m) j m2 \<and>
    m' = (if get_i32 m3 (1000 + 24) = 0 then store 4 m3 (1000 + 24) (0 + 1) else m3) \<and>
    TermID (get_i64 m2 1008) \<noteq> wrap32 (7 - 2) \<and> get_i32 m' (1000 + 24) \<noteq> 0"
    by (rule RotateLog_advances_once [where N = 2]) (simp_all add: in_i32_def)
  then show ?thesis by auto
qed

subsection \<open>Positions\<close>

text \<open>The stream position of an offset in a term.\<close>

lemma computePosition_eq:
  assumes "0 \<le> bits" and "bits \<le> 30" and "0 \<le> termOffset" and "termOffset \<le> 2 ^ nat bits"
    and "0 \<le> wrap32 (activeTermId - initialTermId)"
  shows "computePosition activeTermId termOffset bits initialTermId =
           wrap32 (activeTermId - initialTermId) * 2 ^ nat bits + termOffset"
proof -
  let ?c = "wrap32 (activeTermId - initialTermId)"
  have c: "0 \<le> ?c" "?c \<le> 2147483647" 
    using assms(5) in_i32_wrap32 [of "activeTermId - initialTermId"] by (auto simp: in_i32_def)
  have "(2::int) ^ nat bits \<le> 2 ^ 30" using assms(1,2) by (intro power_increasing) auto
  then have b: "(2::int) ^ nat bits \<le> 1073741824" by simp
  have "?c * 2 ^ nat bits \<le> 2147483647 * 1073741824"
    using c b by (intro mult_mono) simp_all
  moreover have "0 \<le> ?c * 2 ^ nat bits" using c by simp
  moreover have "bits mod 4294967296 = bits" using assms(1,2) by simp
  ultimately show ?thesis
    using assms(1-4) b by (simp add: computePosition_def shl64_def Let_def wrap64_id)
qed

end
