(* ===== verification/Frame_Log.thy ===== *)
theory Frame_Log
  imports Log_Descriptor
begin

text \<open>
  The abstract view of a term buffer: a sequence of committed frames from offset 0 to the tail.
  Appends refine the extension of this sequence and reads walk along it; both sides of the log
  buffer meet in the predicate \<open>log_at\<close>.
\<close>

record frame =
  fr_length :: int
  fr_flags :: int
  fr_type :: int
  fr_termOffset :: int
  fr_session :: int
  fr_stream :: int
  fr_termID :: int
  fr_reserved :: int
  fr_payload :: "byte list"

definition frame_at :: "mem \<Rightarrow> int \<Rightarrow> frame" where
  "frame_at m a =
     \<lparr>fr_length = get_i32 m a, fr_flags = load 1 m (a + 5), fr_type = load 2 m (a + 6),
      fr_termOffset = get_i32 m (a + 8), fr_session = get_i32 m (a + 12),
      fr_stream = get_i32 m (a + 16), fr_termID = get_i32 m (a + 20),
      fr_reserved = get_i64 m (a + 24),
      fr_payload = (if load 2 m (a + 6) = TypePad then []
                    else read_bytes m (a + 32) (nat (get_i32 m a - 32)))\<rparr>"

definition aligned_len :: "int \<Rightarrow> int" where
  "aligned_len n = (n + 31) div 32 * 32"

fun log_at :: "mem \<Rightarrow> int \<Rightarrow> int \<Rightarrow> frame list \<Rightarrow> int \<Rightarrow> bool" where
  "log_at m base off [] end_off \<longleftrightarrow> off = end_off"
| "log_at m base off (f # fs) end_off \<longleftrightarrow>
     frame_at m (base + off) = f \<and> 32 \<le> fr_length f \<and>
     log_at m base (off + aligned_len (fr_length f)) fs end_off"

abbreviation is_padding :: "frame \<Rightarrow> bool" where
  "is_padding f \<equiv> fr_type f = TypePad"

subsection \<open>Alignment\<close>

lemma aligned_len_bounds: "n \<le> aligned_len n" "aligned_len n < n + 32"
  unfolding aligned_len_def by linarith+

lemma aligned_len_mod [simp]: "aligned_len n mod 32 = 0"
  by (simp add: aligned_len_def)

lemma aligned_len_id: "n mod 32 = 0 \<Longrightarrow> aligned_len n = n"
  by (auto simp: aligned_len_def)

lemma AlignInt32_aligned_len:
  "- 2147483648 \<le> n \<Longrightarrow> n \<le> 2147483616 \<Longrightarrow> AlignInt32 n 32 = aligned_len n"
  by (simp add: AlignInt32_32 aligned_len_def)

lemma aligned_len_add: "off mod 32 = 0 \<Longrightarrow> aligned_len (off + n) = off + aligned_len n"
  unfolding aligned_len_def
  by (simp add: mod_eq_0_iff_dvd add.assoc div_plus_div_distrib_dvd_left distrib_right)

subsection \<open>Logs\<close>

lemma fr_length_frame_at [simp]: "fr_length (frame_at m a) = get_i32 m a"
  by (simp add: frame_at_def)

lemma frame_at_cong:
  assumes "\<And>x. a \<le> x \<Longrightarrow> x < a + max 32 (get_i32 m a) \<Longrightarrow> m' x = m x"
  shows "frame_at m' a = frame_at m a"
proof -
  have near: "m' x = m x" if "a \<le> x" "x < a + 32" for x
    using assms that by auto
  have len: "get_i32 m' a = get_i32 m a"
    by (rule i32.get_local) (auto intro: near)
  have "read_bytes m' (a + 32) (nat (get_i32 m a - 32)) =
        read_bytes m (a + 32) (nat (get_i32 m a - 32))"
    by (rule read_bytes_cong) (auto intro!: assms split: if_splits)
  moreover have "get_i32 m' (a + 8) = get_i32 m (a + 8)" "get_i32 m' (a + 12) = get_i32 m (a + 12)"
    "get_i32 m' (a + 16) = get_i32 m (a + 16)" "get_i32 m' (a + 20) = get_i32 m (a + 20)"
    by (rule i32.get_local; auto intro: near)+
  moreover have "get_i64 m' (a + 24) = get_i64 m (a + 24)"
    by (rule i64.get_local) (auto intro: near)
  moreover have "load 1 m' (a + 5) = load 1 m (a + 5)" "load 2 m' (a + 6) = load 2 m (a + 6)"
    by (rule load_local; auto intro: near)+
  ultimately show ?thesis by (simp add: frame_at_def len)
qed

lemma log_at_le: "log_at m base off fs e \<Longrightarrow> off \<le> e"
proof (induction fs arbitrary: off)
  case (Cons f fs)
  then have "off + aligned_len (fr_length f) \<le> e" and "32 \<le> fr_length f" by auto
  then show ?case using aligned_len_bounds(1) [of "fr_length f"] by linarith
qed simp

lemma log_at_aligned: "log_at m base off fs e \<Longrightarrow> off mod 32 = 0 \<Longrightarrow> e mod 32 = 0"
proof (induction fs arbitrary: off)
  case (Cons f fs)
  then show ?case using mod_add_eq [of off 32 "aligned_len (fr_length f)"] by auto
qed simp

lemma log_at_cong:
  assumes "log_at m base off fs e" and "\<And>x. base + off \<le> x \<Longrightarrow> x < base + e \<Longrightarrow> m' x = m x"
  shows "log_at m' base off fs e"
  using assms
proof (induction fs arbitrary: off)
  case (Cons f fs)
  then have f: "frame_at m (base + off) = f" "32 \<le> fr_length f"
    and rest: "log_at m base (off + aligned_len (fr_length f)) fs e" by auto
  have "get_i32 m (base + off) = fr_length f" using f by (auto simp: frame_at_def)
  moreover have "off + aligned_len (fr_length f) \<le> e" using rest by (rule log_at_le)
  ultimately have "frame_at m' (base + off) = f"
    using f(2) aligned_len_bounds(1) [of "fr_length f"] Cons.prems(2)
    by (subst frame_at_cong [where m = m]) (auto simp: f(1))
  moreover have "log_at m' base (off + aligned_len (fr_length f)) fs e"
    using rest
  proof (rule Cons.IH)
    fix x assume "base + (off + aligned_len (fr_length f)) \<le> x" "x < base + e"
    then show "m' x = m x"
      using f(2) aligned_len_bounds(1) [of "fr_length f"] Cons.prems(2) by auto
  qed
  ultimately show ?case using f(2) by simp
qed simp

lemma log_at_append:
  "log_at m base off (fs @ gs) e \<longleftrightarrow> (\<exists>mid. log_at m base off fs mid \<and> log_at m base mid gs e)"
  by (induction fs arbitrary: off) auto

lemma log_at_snoc:
  "log_at m base off (fs @ [f]) e \<longleftrightarrow>
     (\<exists>mid. log_at m base off fs mid \<and> frame_at m (base + mid) = f \<and> 32 \<le> fr_length f \<and>
            e = mid + aligned_len (fr_length f))"
  by (auto simp: log_at_append)

text \<open>A frame in front of a log survives the writes behind it.\<close>

lemma log_at_Cons_kept:
  assumes "frame_at c (base + off) = f" and "32 \<le> fr_length f"
    and "off' = off + aligned_len (fr_length f)" and "log_at m base off' gs e"
    and "\<And>x. x < base + off' \<Longrightarrow> m x = c x"
  shows "log_at m base off (f # gs) e"
proof -
  have "get_i32 c (base + off) = fr_length f" using assms(1) by auto
  then have "frame_at m (base + off) = frame_at c (base + off)"
    using assms(2,3) aligned_len_bounds(1) [of "fr_length f"] by (intro frame_at_cong assms(5)) auto
  then show ?thesis using assms by simp
qed

lemma log_at_end_unique: "log_at m base off fs e \<Longrightarrow> log_at m' base' off fs e' \<Longrightarrow> e = e'"
  by (induction fs arbitrary: off) auto

end
