(* ===== verification/Term_Appender.thy ===== *)
theory Term_Appender
  imports Frame_Log
begin

text \<open>
  \<open>aeron/logbuffer/term/appender.go\<close>: the term appender reserves space by an atomic add on the
  raw tail (term id in the high half, offset in the low half), writes the frame with a
  negative length, copies the payload, and commits by storing the length. A nil reserved
  value supplier is \<^term>\<open>None\<close>; a supplier is a function of memory, as the client supplies it.
  Loops are \<open>partial_function\<close>s: \<^term>\<open>None\<close> is a loop that does not end.
\<close>

type_synonym ReservedValueSupplier = "mem \<Rightarrow> buffer \<Rightarrow> int \<Rightarrow> int \<Rightarrow> int"

definition AppenderTripped :: int where [simp]: "AppenderTripped = - 1"
definition AppenderFailed :: int where [simp]: "AppenderFailed = - 2"
definition beginFrag :: int where [simp]: "beginFrag = 0x80"
definition endFrag :: int where [simp]: "endFrag = 0x40"
definition unfragmented :: int where [simp]: "unfragmented = 0xC0"

definition DefaultReservedValueSupplier :: ReservedValueSupplier where
  "DefaultReservedValueSupplier m termBuffer termOffset len = 0"

record headerWriter =
  sessionID :: int
  streamID :: int

definition headerWriter_fill :: "mem \<Rightarrow> buffer \<Rightarrow> headerWriter res" where
  "headerWriter_fill m defaultHdr =
     bindR (GetInt32 m defaultHdr SessionIDFieldOffset) (\<lambda>session.
     bindR (GetInt32 m defaultHdr StreamIDFieldOffset) (\<lambda>stream.
     Inr \<lparr>sessionID = session, streamID = stream\<rparr>))"

definition headerWriter_write ::
  "mem \<Rightarrow> headerWriter \<Rightarrow> buffer \<Rightarrow> int \<Rightarrow> int \<Rightarrow> int \<Rightarrow> mem res" where
  "headerWriter_write m header termBuffer offset len termID =
     bindR (PutInt32Ordered m termBuffer offset (wrap32 (- len))) (\<lambda>m.
     bindR (PutInt8 m termBuffer (wrap32 (offset + VersionFieldOffset)) CurrentVersion) (\<lambda>m.
     bindR (PutUInt8 m termBuffer (wrap32 (offset + FlagsFieldOffset)) unfragmented) (\<lambda>m.
     bindR (PutUInt16 m termBuffer (wrap32 (offset + TypeFieldOffset)) TypeData) (\<lambda>m.
     bindR (PutInt32 m termBuffer (wrap32 (offset + TermOffsetFieldOffset)) offset) (\<lambda>m.
     bindR (PutInt32 m termBuffer (wrap32 (offset + SessionIDFieldOffset)) (sessionID header)) (\<lambda>m.
     bindR (PutInt32 m termBuffer (wrap32 (offset + StreamIDFieldOffset)) (streamID header)) (\<lambda>m.
     PutInt32 m termBuffer (wrap32 (offset + TermIDFieldOffset)) termID)))))))"

record Appender =
  termBuffer :: buffer
  tailCounter :: Int64Field
  header_writer :: headerWriter

definition MakeAppender :: "mem \<Rightarrow> LogBuffers \<Rightarrow> int \<Rightarrow> Appender res" where
  "MakeAppender m logBuffers partitionIndex =
     bindR (Buffer logBuffers partitionIndex) (\<lambda>term.
     bindR (index_slice (TailCounter (lb_meta logBuffers)) partitionIndex) (\<lambda>tail.
     bindR (headerWriter_fill m (DefaultFrameHeader (lb_meta logBuffers))) (\<lambda>header.
     Inr \<lparr>termBuffer = term, tailCounter = tail, header_writer = header\<rparr>)))"

definition RawTail :: "mem \<Rightarrow> Appender \<Rightarrow> int" where
  "RawTail m appender = Int64Field_Get m (tailCounter appender)"

definition SetRawTail :: "mem \<Rightarrow> Appender \<Rightarrow> int \<Rightarrow> mem" where
  "SetRawTail m appender v = Int64Field_Set m (tailCounter appender) v"

definition getAndAddRawTail :: "mem \<Rightarrow> Appender \<Rightarrow> int \<Rightarrow> int \<times> mem" where
  "getAndAddRawTail m appender alignedLength =
     Int64Field_GetAndAddInt64 m (tailCounter appender) alignedLength"

definition SetTailTermID :: "mem \<Rightarrow> Appender \<Rightarrow> int \<Rightarrow> mem" where
  "SetTailTermID m appender termID = Int64Field_Set m (tailCounter appender) (wrap64 (termID * 2 ^ 32))"

definition minInt32 :: "int \<Rightarrow> int \<Rightarrow> int" where
  "minInt32 v1 v2 = (if v1 < v2 then v1 else v2)"

definition handleEndOfLogCondition ::
  "mem \<Rightarrow> int \<Rightarrow> buffer \<Rightarrow> int \<Rightarrow> headerWriter \<Rightarrow> int \<Rightarrow> (int \<times> mem) res" where
  "handleEndOfLogCondition m termID term termOffset header termLength =
     (if termOffset \<le> termLength then
        if termOffset < termLength then
          (let paddingLength = wrap32 (termLength - termOffset)
           in bindR (headerWriter_write m header term termOffset paddingLength termID) (\<lambda>m.
              bindR (SetFrameType m term termOffset TypePad) (\<lambda>m.
              bindR (SetFrameLength m term termOffset paddingLength) (\<lambda>m.
              Inr (AppenderTripped, m)))))
        else Inr (AppenderTripped, m)
      else Inr (AppenderFailed, m))"

definition Appender_Claim ::
  "mem \<Rightarrow> Appender \<Rightarrow> int \<Rightarrow> Claim \<Rightarrow> (int \<times> int \<times> Claim \<times> mem) res" where
  "Appender_Claim m appender len claim =
     (let frameLength = wrap32 (len + DataFrameHeader_Length);
          alignedLength = AlignInt32 frameLength FrameAlignment;
          (rawTail, m) = getAndAddRawTail m appender alignedLength;
          termLength = Capacity (termBuffer appender);
          termID = TermID rawTail;
          termOffset = low32 rawTail;
          resultingOffset = termOffset + alignedLength
      in if resultingOffset > termLength then
           bindR (handleEndOfLogCondition m termID (termBuffer appender) (wrap32 termOffset)
                    (header_writer appender) termLength) (\<lambda>(resultingOffset, m).
           Inr (resultingOffset, termID, claim, m))
         else
           (let offset = wrap32 termOffset
            in bindR (headerWriter_write m (header_writer appender) (termBuffer appender) offset
                        frameLength termID) (\<lambda>m.
               bindR (Claim_Wrap (termBuffer appender) offset frameLength) (\<lambda>claim.
               Inr (resultingOffset, termID, claim, m)))))"

text \<open>The optional reserved value, written just before the commit.\<close>

definition put_reserved ::
  "mem \<Rightarrow> buffer \<Rightarrow> int \<Rightarrow> int \<Rightarrow> ReservedValueSupplier option \<Rightarrow> mem res" where
  "put_reserved m term offset frameLength reservedValueSupplier =
     (case reservedValueSupplier of
        None \<Rightarrow> Inr m
      | Some supplier \<Rightarrow>
          PutInt64 m term (wrap32 (offset + ReservedValueFieldOffset))
            (supplier m term offset frameLength))"

definition AppendUnfragmentedMessage ::
  "mem \<Rightarrow> Appender \<Rightarrow> buffer \<Rightarrow> int \<Rightarrow> int \<Rightarrow> ReservedValueSupplier option \<Rightarrow>
   (int \<times> int \<times> mem) res" where
  "AppendUnfragmentedMessage m appender srcBuffer srcOffset len reservedValueSupplier =
     (let frameLength = wrap32 (len + DataFrameHeader_Length);
          alignedLength = AlignInt32 frameLength FrameAlignment;
          (rawTail, m) = getAndAddRawTail m appender alignedLength;
          termLength = Capacity (termBuffer appender);
          termID = TermID rawTail;
          termOffset = low32 rawTail;
          resultingOffset = termOffset + alignedLength
      in if resultingOffset > termLength then
           bindR (handleEndOfLogCondition m termID (termBuffer appender) (wrap32 termOffset)
                    (header_writer appender) termLength) (\<lambda>(resultingOffset, m).
           Inr (resultingOffset, termID, m))
         else
           (let offset = wrap32 termOffset
            in bindR (headerWriter_write m (header_writer appender) (termBuffer appender) offset
                        frameLength termID) (\<lambda>m.
               bindR (PutBytes m (termBuffer appender) (wrap32 (offset + DataFrameHeader_Length))
                        srcBuffer srcOffset len) (\<lambda>m.
               bindR (put_reserved m (termBuffer appender) offset frameLength
                        reservedValueSupplier) (\<lambda>m.
               bindR (SetFrameLength m (termBuffer appender) offset frameLength) (\<lambda>m.
               Inr (resultingOffset, termID, m)))))))"

definition AppendUnfragmentedMessage2 ::
  "mem \<Rightarrow> Appender \<Rightarrow> buffer \<Rightarrow> int \<Rightarrow> int \<Rightarrow> buffer \<Rightarrow> int \<Rightarrow> int \<Rightarrow>
   ReservedValueSupplier option \<Rightarrow> (int \<times> int \<times> mem) res" where
  "AppendUnfragmentedMessage2 m appender srcBufferOne srcOffsetOne lengthOne
     srcBufferTwo srcOffsetTwo lengthTwo reservedValueSupplier =
     (let frameLength = wrap32 (wrap32 (lengthOne + lengthTwo) + DataFrameHeader_Length);
          alignedLength = AlignInt32 frameLength FrameAlignment;
          (rawTail, m) = getAndAddRawTail m appender alignedLength;
          termLength = Capacity (termBuffer appender);
          termID = TermID rawTail;
          termOffset = low32 rawTail;
          resultingOffset = termOffset + alignedLength
      in if resultingOffset > termLength then
           bindR (handleEndOfLogCondition m termID (termBuffer appender) (wrap32 termOffset)
                    (header_writer appender) termLength) (\<lambda>(resultingOffset, m).
           Inr (resultingOffset, termID, m))
         else
           (let offset = wrap32 termOffset;
                dataOffset = wrap32 (offset + DataFrameHeader_Length)
            in bindR (headerWriter_write m (header_writer appender) (termBuffer appender) offset
                        frameLength (TermID rawTail)) (\<lambda>m.
               bindR (PutBytes m (termBuffer appender) dataOffset srcBufferOne srcOffsetOne
                        lengthOne) (\<lambda>m.
               bindR (PutBytes m (termBuffer appender) (wrap32 (dataOffset + lengthOne))
                        srcBufferTwo srcOffsetTwo lengthTwo) (\<lambda>m.
               bindR (put_reserved m (termBuffer appender) offset frameLength
                        reservedValueSupplier) (\<lambda>m.
               bindR (SetFrameLength m (termBuffer appender) offset frameLength) (\<lambda>m.
               Inr (resultingOffset, termID, m))))))))"

subsection \<open>Fragmented messages\<close>

text \<open>
  The space a fragmented message reserves; a payload length of zero divides by zero. In the
  fragmented appends a nil supplier is called without a check.
\<close>

definition required_length :: "int \<Rightarrow> int \<Rightarrow> int res" where
  "required_length len maxPayloadLength =
     (if maxPayloadLength = 0 then Inl (Panic ''integer divide by zero'')
      else
        (let numMaxPayloads = wrap32 (len sdiv maxPayloadLength);
             remainingPayload = len smod maxPayloadLength;
             lastFrameLength =
               (if remainingPayload > 0
                then AlignInt32 (wrap32 (remainingPayload + DataFrameHeader_Length)) FrameAlignment
                else 0)
         in Inr (wrap32 (wrap32 (numMaxPayloads *
                   wrap32 (maxPayloadLength + DataFrameHeader_Length)) + lastFrameLength))))"

definition call_supplier ::
  "mem \<Rightarrow> buffer \<Rightarrow> int \<Rightarrow> int \<Rightarrow> ReservedValueSupplier option \<Rightarrow> mem res" where
  "call_supplier m term offset frameLength reservedValueSupplier =
     (case reservedValueSupplier of
        None \<Rightarrow> Inl (Panic ''nil function call'')
      | Some supplier \<Rightarrow>
          PutInt64 m term (wrap32 (offset + ReservedValueFieldOffset))
            (supplier m term offset frameLength))"

text \<open>What follows the payload in each round: flags, reserved value and commit.\<close>

definition finish_fragment ::
  "mem \<Rightarrow> buffer \<Rightarrow> int \<Rightarrow> int \<Rightarrow> int \<Rightarrow> ReservedValueSupplier option \<Rightarrow> mem res" where
  "finish_fragment m term offset frameLength flags reservedValueSupplier =
     bindR (FrameFlags m term offset flags) (\<lambda>m.
     bindR (call_supplier m term offset frameLength reservedValueSupplier) (\<lambda>m.
     SetFrameLength m term offset frameLength))"

definition fragment_flags :: "int \<Rightarrow> int \<Rightarrow> int \<Rightarrow> int" where
  "fragment_flags flags remaining maxPayloadLength =
     (if remaining \<le> maxPayloadLength then flags OR endFrag else flags)"

definition append_fragment ::
  "mem \<Rightarrow> Appender \<Rightarrow> buffer \<Rightarrow> int \<Rightarrow> int \<Rightarrow> int \<Rightarrow> ReservedValueSupplier option \<Rightarrow> int \<Rightarrow>
   int \<Rightarrow> int \<Rightarrow> int \<Rightarrow> mem res" where
  "append_fragment m appender srcBuffer srcOffset len maxPayloadLength reservedValueSupplier
     termID flags remaining offset =
     (let bytesToWrite = minInt32 remaining maxPayloadLength;
          frameLength = wrap32 (bytesToWrite + DataFrameHeader_Length)
      in bindR (headerWriter_write m (header_writer appender) (termBuffer appender) offset
                  frameLength termID) (\<lambda>m.
         bindR (PutBytes m (termBuffer appender) (wrap32 (offset + DataFrameHeader_Length))
                  srcBuffer (wrap32 (srcOffset + wrap32 (len - remaining))) bytesToWrite) (\<lambda>m.
         finish_fragment m (termBuffer appender) offset frameLength
           (fragment_flags flags remaining maxPayloadLength) reservedValueSupplier)))"

definition advance_fragment :: "int \<Rightarrow> int \<Rightarrow> int \<Rightarrow> int \<times> int" where
  "advance_fragment remaining maxPayloadLength offset =
     (let bytesToWrite = minInt32 remaining maxPayloadLength;
          frameLength = wrap32 (bytesToWrite + DataFrameHeader_Length);
          alignedLength = AlignInt32 frameLength FrameAlignment
      in (wrap32 (remaining - bytesToWrite), wrap32 (offset + alignedLength)))"

partial_function (option) fragment_loop ::
  "Appender \<Rightarrow> buffer \<Rightarrow> int \<Rightarrow> int \<Rightarrow> int \<Rightarrow> ReservedValueSupplier option \<Rightarrow> int \<Rightarrow>
   mem \<Rightarrow> int \<Rightarrow> int \<Rightarrow> int \<Rightarrow> mem res option" where
  "fragment_loop appender srcBuffer srcOffset len maxPayloadLength supplier termID
     m flags remaining offset =
     (if remaining > 0 then
        (case append_fragment m appender srcBuffer srcOffset len maxPayloadLength supplier termID
                flags remaining offset of
           Inl e \<Rightarrow> Some (Inl e)
         | Inr m' \<Rightarrow>
             (case advance_fragment remaining maxPayloadLength offset of (remaining', offset') \<Rightarrow>
                fragment_loop appender srcBuffer srcOffset len maxPayloadLength supplier termID
                  m' 0 remaining' offset'))
      else Some (Inr m))"

definition AppendFragmentedMessage ::
  "mem \<Rightarrow> Appender \<Rightarrow> buffer \<Rightarrow> int \<Rightarrow> int \<Rightarrow> int \<Rightarrow> ReservedValueSupplier option \<Rightarrow>
   (int \<times> int \<times> mem) res option" where
  "AppendFragmentedMessage m appender srcBuffer srcOffset len maxPayloadLength supplier =
     (case required_length len maxPayloadLength of
        Inl e \<Rightarrow> Some (Inl e)
      | Inr requiredLength \<Rightarrow>
          (let (rawTail, m) = getAndAddRawTail m appender requiredLength;
               termLength = Capacity (termBuffer appender);
               termID = TermID rawTail;
               termOffset = low32 rawTail;
               resultingOffset = termOffset + requiredLength
           in if resultingOffset > termLength then
                Some (bindR (handleEndOfLogCondition m termID (termBuffer appender)
                               (wrap32 termOffset) (header_writer appender) termLength)
                        (\<lambda>(resultingOffset, m). Inr (resultingOffset, termID, m)))
              else
                map_option (\<lambda>r. bindR r (\<lambda>m. Inr (resultingOffset, termID, m)))
                  (fragment_loop appender srcBuffer srcOffset len maxPayloadLength supplier termID
                     m beginFrag len (wrap32 termOffset))))"

text \<open>
  The variant with two source buffers fills each payload by an inner loop that drains the
  first buffer before it starts on the second.
\<close>

definition fill_chunk ::
  "mem \<Rightarrow> buffer \<Rightarrow> buffer \<Rightarrow> int \<Rightarrow> int \<Rightarrow> buffer \<Rightarrow> int \<Rightarrow> int \<Rightarrow>
   int \<Rightarrow> int \<Rightarrow> int \<Rightarrow> int \<Rightarrow> int \<Rightarrow> (mem \<times> int \<times> int \<times> int \<times> int) res" where
  "fill_chunk m term srcBufferOne srcOffsetOne lengthOne srcBufferTwo srcOffsetTwo lengthTwo
     bytesToWrite bytesWritten payloadOffset posOne posTwo =
     (let remainingOne = wrap32 (lengthOne - posOne)
      in if remainingOne > 0 then
           (let numBytes = minInt32 (wrap32 (bytesToWrite - bytesWritten)) remainingOne
            in bindR (PutBytes m term payloadOffset srcBufferOne (wrap32 (srcOffsetOne + posOne))
                        numBytes) (\<lambda>m.
               Inr (m, wrap32 (bytesWritten + numBytes), wrap32 (payloadOffset + numBytes),
                    wrap32 (posOne + numBytes), posTwo)))
         else
           (let numBytes = minInt32 (wrap32 (bytesToWrite - bytesWritten)) (wrap32 (lengthTwo - posTwo))
            in bindR (PutBytes m term payloadOffset srcBufferTwo (wrap32 (srcOffsetTwo + posTwo))
                        numBytes) (\<lambda>m.
               Inr (m, wrap32 (bytesWritten + numBytes), wrap32 (payloadOffset + numBytes),
                    posOne, wrap32 (posTwo + numBytes)))))"

partial_function (option) fill_payload ::
  "buffer \<Rightarrow> buffer \<Rightarrow> int \<Rightarrow> int \<Rightarrow> buffer \<Rightarrow> int \<Rightarrow> int \<Rightarrow> int \<Rightarrow>
   mem \<Rightarrow> int \<Rightarrow> int \<Rightarrow> int \<Rightarrow> int \<Rightarrow> (mem \<times> int \<times> int) res option" where
  "fill_payload term srcBufferOne srcOffsetOne lengthOne srcBufferTwo srcOffsetTwo lengthTwo
     bytesToWrite m bytesWritten payloadOffset posOne posTwo =
     (if bytesWritten < bytesToWrite then
        (case fill_chunk m term srcBufferOne srcOffsetOne lengthOne srcBufferTwo srcOffsetTwo
                lengthTwo bytesToWrite bytesWritten payloadOffset posOne posTwo of
           Inl e \<Rightarrow> Some (Inl e)
         | Inr (m', bytesWritten', payloadOffset', posOne', posTwo') \<Rightarrow>
             fill_payload term srcBufferOne srcOffsetOne lengthOne srcBufferTwo srcOffsetTwo
               lengthTwo bytesToWrite m' bytesWritten' payloadOffset' posOne' posTwo')
      else Some (Inr (m, posOne, posTwo)))"

definition append_fragment2 ::
  "mem \<Rightarrow> Appender \<Rightarrow> buffer \<Rightarrow> int \<Rightarrow> int \<Rightarrow> buffer \<Rightarrow> int \<Rightarrow> int \<Rightarrow> int \<Rightarrow>
   ReservedValueSupplier option \<Rightarrow> int \<Rightarrow> int \<Rightarrow> int \<Rightarrow> int \<Rightarrow> int \<Rightarrow> int \<Rightarrow>
   (mem \<times> int \<times> int) res option" where
  "append_fragment2 m appender srcBufferOne srcOffsetOne lengthOne srcBufferTwo srcOffsetTwo
     lengthTwo maxPayloadLength supplier termID flags remaining frameOffset posOne posTwo =
     (let bytesToWrite = minInt32 remaining maxPayloadLength;
          frameLength = wrap32 (bytesToWrite + DataFrameHeader_Length)
      in case headerWriter_write m (header_writer appender) (termBuffer appender) frameOffset
                frameLength termID of
           Inl e \<Rightarrow> Some (Inl e)
         | Inr m \<Rightarrow>
             map_option (\<lambda>r. bindR r (\<lambda>(m, posOne, posTwo).
                 bindR (finish_fragment m (termBuffer appender) frameOffset frameLength
                          (fragment_flags flags remaining maxPayloadLength) supplier) (\<lambda>m.
                 Inr (m, posOne, posTwo))))
               (fill_payload (termBuffer appender) srcBufferOne srcOffsetOne lengthOne
                  srcBufferTwo srcOffsetTwo lengthTwo bytesToWrite m 0
                  (wrap32 (frameOffset + DataFrameHeader_Length)) posOne posTwo))"

partial_function (option) fragment_loop2 ::
  "Appender \<Rightarrow> buffer \<Rightarrow> int \<Rightarrow> int \<Rightarrow> buffer \<Rightarrow> int \<Rightarrow> int \<Rightarrow> int \<Rightarrow>
   ReservedValueSupplier option \<Rightarrow> int \<Rightarrow> mem \<Rightarrow> int \<Rightarrow> int \<Rightarrow> int \<Rightarrow> int \<Rightarrow> int \<Rightarrow> mem res option" where
  "fragment_loop2 appender srcBufferOne srcOffsetOne lengthOne srcBufferTwo srcOffsetTwo
     lengthTwo maxPayloadLength supplier termID m flags remaining frameOffset posOne posTwo =
     (if remaining > 0 then
        (case append_fragment2 m appender srcBufferOne srcOffsetOne lengthOne srcBufferTwo
                srcOffsetTwo lengthTwo maxPayloadLength supplier termID flags remaining
                frameOffset posOne posTwo of
           None \<Rightarrow> None
         | Some (Inl e) \<Rightarrow> Some (Inl e)
         | Some (Inr (m', posOne', posTwo')) \<Rightarrow>
             (case advance_fragment remaining maxPayloadLength frameOffset of
                (remaining', frameOffset') \<Rightarrow>
                  fragment_loop2 appender srcBufferOne srcOffsetOne lengthOne srcBufferTwo
                    srcOffsetTwo lengthTwo maxPayloadLength supplier termID
                    m' 0 remaining' frameOffset' posOne' posTwo'))
      else Some (Inr m))"

definition AppendFragmentedMessage2 ::
  "mem \<Rightarrow> Appender \<Rightarrow> buffer \<Rightarrow> int \<Rightarrow> int \<Rightarrow> buffer \<Rightarrow> int \<Rightarrow> int \<Rightarrow> int \<Rightarrow>
   ReservedValueSupplier option \<Rightarrow> (int \<times> int \<times> mem) res option" where
  "AppendFragmentedMessage2 m appender srcBufferOne srcOffsetOne lengthOne srcBufferTwo
     srcOffsetTwo lengthTwo maxPayloadLength supplier =
     (let len = wrap32 (lengthOne + lengthTwo)
      in case required_length len maxPayloadLength of
        Inl e \<Rightarrow> Some (Inl e)
      | Inr requiredLength \<Rightarrow>
          (let (rawTail, m) = getAndAddRawTail m appender requiredLength;
               termLength = Capacity (termBuffer appender);
               termID = TermID rawTail;
               termOffset = low32 rawTail;
               resultingOffset = termOffset + requiredLength
           in if resultingOffset > termLength then
                Some (bindR (handleEndOfLogCondition m termID (termBuffer appender)
                               (wrap32 termOffset) (header_writer appender) termLength)
                        (\<lambda>(resultingOffset, m). Inr (resultingOffset, termID, m)))
              else
                map_option (\<lambda>r. bindR r (\<lambda>m. Inr (resultingOffset, termID, m)))
                  (fragment_loop2 appender srcBufferOne srcOffsetOne lengthOne srcBufferTwo
                     srcOffsetTwo lengthTwo maxPayloadLength supplier termID
                     m beginFrag len (wrap32 termOffset) 0 0)))"

subsection \<open>The contract of an append\<close>

text \<open>
  A well-formed appender: the term is a whole number of frames long and at most 1 GiB, and
  the tail counter lies outside of it.
\<close>

definition appender_ok :: "Appender \<Rightarrow> bool" where
  "appender_ok ap \<longleftrightarrow>
     0 < Capacity (termBuffer ap) \<and> Capacity (termBuffer ap) \<le> 1073741824 \<and>
     Capacity (termBuffer ap) mod 32 = 0 \<and>
     (tailCounter ap + 8 \<le> Ptr (termBuffer ap) \<or>
      Ptr (termBuffer ap) + Capacity (termBuffer ap) \<le> tailCounter ap) \<and>
     in_i32 (sessionID (header_writer ap)) \<and> in_i32 (streamID (header_writer ap))"

text \<open>
  The state of a term between appends: the raw tail holds the term id and the offset up to
  which the term holds the committed frames \<open>fs\<close>.
\<close>

definition term_state :: "mem \<Rightarrow> Appender \<Rightarrow> int \<Rightarrow> int \<Rightarrow> frame list \<Rightarrow> bool" where
  "term_state m ap tid off fs \<longleftrightarrow>
     in_i32 tid \<and> get_i64 m (tailCounter ap) = tid * 4294967296 + off \<and>
     log_at m (Ptr (termBuffer ap)) 0 fs off \<and> off \<le> Capacity (termBuffer ap)"

text \<open>Memory outside the appended range of the term and the tail counter stays as it was.\<close>

definition only_touches :: "mem \<Rightarrow> mem \<Rightarrow> Appender \<Rightarrow> int \<Rightarrow> int \<Rightarrow> bool" where
  "only_touches m m' ap off end_off \<longleftrightarrow>
     (\<forall>x. (x < tailCounter ap \<or> tailCounter ap + 8 \<le> x) \<and>
          (x < Ptr (termBuffer ap) + off \<or> Ptr (termBuffer ap) + end_off \<le> x) \<longrightarrow> m' x = m x)"

lemma term_state_offset:
  assumes "term_state m ap tid off fs"
  shows "0 \<le> off" and "off mod 32 = 0" and "off \<le> Capacity (termBuffer ap)"
  using assms log_at_le [of m _ 0 fs off] log_at_aligned [of m _ 0 fs off]
  by (auto simp: term_state_def)

text \<open>Header fields of a frame as the header writer leaves them, before its commit.\<close>

definition header_image :: "mem \<Rightarrow> headerWriter \<Rightarrow> int \<Rightarrow> int \<Rightarrow> int \<Rightarrow> int \<Rightarrow> mem" where
  "header_image m hw a off len tid =
     store 4 (store 4 (store 4 (store 4 (store 2 (store 1 (store 1 (store 4 m a (wrap32 (- len)))
       (a + 4) CurrentVersion) (a + 5) unfragmented) (a + 6) TypeData) (a + 8) off)
       (a + 12) (sessionID hw)) (a + 16) (streamID hw)) (a + 20) tid"

lemma headerWriter_write_ok:
  assumes "0 \<le> off" and "off + 24 \<le> Capacity buf" and "Capacity buf < 2147483648"
  shows "headerWriter_write m hw buf off len tid = Inr (header_image m hw (Ptr buf + off) off len tid)"
  using assms by (simp add: headerWriter_write_def header_image_def buffer_ok wrap32_id add.assoc)

lemma header_image_outside:
  "x < a \<or> a + 24 \<le> x \<Longrightarrow> header_image m hw a off len tid x = m x"
  by (auto simp: header_image_def store_outside)

text \<open>
  Any memory that keeps the header writer's fields and has the length committed, with flags
  and payload in place, holds the frame.
\<close>

lemma header_image_fields:
  "load 1 (header_image m hw a off len tid) (a + 5) = unfragmented"
  "load 2 (header_image m hw a off len tid) (a + 6) = TypeData"
  "get_i32 (header_image m hw a off len tid) (a + 8) = wrap32 off"
  "get_i32 (header_image m hw a off len tid) (a + 12) = wrap32 (sessionID hw)"
  "get_i32 (header_image m hw a off len tid) (a + 16) = wrap32 (streamID hw)"
  "get_i32 (header_image m hw a off len tid) (a + 20) = wrap32 tid"
  "get_i64 (header_image m hw a off len tid) (a + 24) = get_i64 m (a + 24)"
  "get_i32 (header_image m hw a off len tid) a = wrap32 (- len)"
  by (simp_all add: header_image_def cell_other mem_simps)

lemma tail_add:
  assumes "appender_ok ap" and "term_state m ap tid off fs"
  shows "getAndAddRawTail m ap n =
           (tid * 4294967296 + off, store 8 m (tailCounter ap) (tid * 4294967296 + (off + n)))"
  using assms by (simp add: getAndAddRawTail_def Int64Field_GetAndAdd_eq term_state_def add.assoc)

lemma tail_parts:
  assumes "appender_ok ap" and "term_state m ap tid off fs"
  shows "TermID (tid * 4294967296 + off) = tid" and "low32 (tid * 4294967296 + off) = off"
    and "wrap32 off = off"
proof -
  have "0 \<le> off" "off \<le> 1073741824"
    using assms(1) term_state_offset [OF assms(2)] by (auto simp: appender_ok_def)
  then show "TermID (tid * 4294967296 + off) = tid" and "low32 (tid * 4294967296 + off) = off"
    and "wrap32 off = off"
    using assms(2) by (simp_all add: term_state_def wrap32_id)
qed

text \<open>Memory that differs from the old one by an advanced tail and writes behind the old end
  extends the log by whatever frames now stand there.\<close>

lemma term_state_extend:
  assumes ok: "appender_ok ap" and st: "term_state m ap tid off fs"
    and tail: "get_i64 m' (tailCounter ap) = tid * 4294967296 + e"
    and frame: "only_touches m m' ap off e"
    and new: "log_at m' (Ptr (termBuffer ap)) off gs e" and fits: "e \<le> Capacity (termBuffer ap)"
  shows "term_state m' ap tid e (fs @ gs)"
proof -
  have "log_at m' (Ptr (termBuffer ap)) 0 fs off"
  proof (rule log_at_cong [where m = m])
    show "log_at m (Ptr (termBuffer ap)) 0 fs off" using st by (simp add: term_state_def)
    fix x assume "Ptr (termBuffer ap) + 0 \<le> x" "x < Ptr (termBuffer ap) + off"
    then show "m' x = m x"
      using frame ok term_state_offset [OF st] by (auto simp: only_touches_def appender_ok_def)
  qed
  then show ?thesis
    using st tail new fits by (auto simp: term_state_def log_at_append)
qed

subsection \<open>Frames\<close>

definition data_frame :: "headerWriter \<Rightarrow> int \<Rightarrow> int \<Rightarrow> int \<Rightarrow> int \<Rightarrow> byte list \<Rightarrow> frame" where
  "data_frame hw tid off flags rv payload =
     \<lparr>fr_length = int (length payload) + 32, fr_flags = flags, fr_type = TypeData,
      fr_termOffset = off, fr_session = sessionID hw, fr_stream = streamID hw, fr_termID = tid,
      fr_reserved = rv, fr_payload = payload\<rparr>"

definition pad_frame :: "headerWriter \<Rightarrow> int \<Rightarrow> int \<Rightarrow> int \<Rightarrow> int \<Rightarrow> frame" where
  "pad_frame hw tid off rv len =
     \<lparr>fr_length = len, fr_flags = unfragmented, fr_type = TypePad,
      fr_termOffset = off, fr_session = sessionID hw, fr_stream = streamID hw, fr_termID = tid,
      fr_reserved = rv, fr_payload = []\<rparr>"

text \<open>The commit of a frame whose header stands: the store of its length.\<close>

lemma frame_committed:
  assumes hdr: "\<And>x. a + 6 \<le> x \<Longrightarrow> x < a + 24 \<Longrightarrow> m2 x = header_image m hw a off len tid x"
    and "load 1 m2 (a + 5) = flags" and "get_i64 m2 (a + 24) = rv"
    and "read_bytes m2 (a + 32) (nat (len - 32)) = payload"
    and "32 \<le> len" and "in_i32 len" and "in_i32 off" and "in_i32 tid"
    and "in_i32 (sessionID hw)" and "in_i32 (streamID hw)"
  shows "frame_at (store 4 m2 a len) a = data_frame hw tid off flags rv payload"
proof -
  let ?h = "header_image m hw a off len tid"
  have "get_i32 m2 (a + 8) = get_i32 ?h (a + 8)" "get_i32 m2 (a + 12) = get_i32 ?h (a + 12)"
    "get_i32 m2 (a + 16) = get_i32 ?h (a + 16)" "get_i32 m2 (a + 20) = get_i32 ?h (a + 20)"
    by (rule i32.get_local; simp add: hdr)+
  moreover have "load 2 m2 (a + 6) = load 2 ?h (a + 6)"
    by (rule load_local) (simp add: hdr)
  moreover have "int (length payload) + 32 = len"
    using assms(4,5) length_read_bytes [of m2 "a + 32" "nat (len - 32)"] by simp
  ultimately show ?thesis
    using assms
    by (simp add: frame_at_def data_frame_def header_image_fields cell_other mem_simps
        del: One_nat_def)
qed

lemma pad_committed:
  assumes "32 \<le> len" and "in_i32 len" and "in_i32 off" and "in_i32 tid"
    and "in_i32 (sessionID hw)" and "in_i32 (streamID hw)"
  shows "frame_at (store 4 (store 2 (header_image m hw a off len tid) (a + 6) TypePad) a len) a =
           pad_frame hw tid off (get_i64 m (a + 24)) len"
  using assms
  by (simp add: frame_at_def pad_frame_def header_image_fields cell_other mem_simps
      del: One_nat_def)

subsection \<open>The end of a term\<close>

lemma handleEndOfLog_at_end:
  "handleEndOfLogCondition m tid buf cap hw cap = Inr (AppenderTripped, m)"
  by (simp add: handleEndOfLogCondition_def)

lemma handleEndOfLog_beyond:
  "cap < off \<Longrightarrow> handleEndOfLogCondition m tid buf off hw cap = Inr (AppenderFailed, m)"
  by (simp add: handleEndOfLogCondition_def)

lemma handleEndOfLog_pads:
  assumes "0 \<le> off" and "off + 32 \<le> Capacity buf" and "Capacity buf < 2147483648"
    and "a = Ptr buf + off" and "len = Capacity buf - off"
  shows "handleEndOfLogCondition m tid buf off hw (Capacity buf) =
           Inr (AppenderTripped,
                store 4 (store 2 (header_image m hw a off len tid) (a + 6) TypePad) a len)"
  using assms
  by (simp add: handleEndOfLogCondition_def headerWriter_write_ok SetFrameType_def typeOffset_def
      SetFrameLength_def lengthOffset_def buffer_ok wrap32_id Let_def add.assoc)

text \<open>
  Tripping over the end of the term: at most one padding frame is added, which fills the term
  exactly, and nothing else is written.
\<close>

lemma handleEndOfLog_trips:
  assumes ok: "appender_ok ap" and st: "log_at m (Ptr (termBuffer ap)) 0 fs off"
    and le: "off \<le> Capacity (termBuffer ap)" and tid: "in_i32 tid"
  obtains m' gs where
    "handleEndOfLogCondition m tid (termBuffer ap) off (header_writer ap) (Capacity (termBuffer ap)) =
       Inr (AppenderTripped, m')"
    and "log_at m' (Ptr (termBuffer ap)) 0 (fs @ gs) (Capacity (termBuffer ap))"
    and "length gs \<le> 1" and "list_all is_padding gs"
    and "\<And>x. x < Ptr (termBuffer ap) + off \<or> Ptr (termBuffer ap) + Capacity (termBuffer ap) \<le> x \<Longrightarrow>
           m' x = m x"
proof (cases "off = Capacity (termBuffer ap)")
  case True
  then show ?thesis
    using that [of m "[]"] st by (simp add: handleEndOfLog_at_end)
next
  case False
  let ?a = "Ptr (termBuffer ap) + off" and ?len = "Capacity (termBuffer ap) - off"
  define m' where "m' = store 4 (store 2 (header_image m (header_writer ap) ?a off ?len tid)
                                  (?a + 6) TypePad) ?a ?len"
  have off: "0 \<le> off" "off mod 32 = 0" using log_at_le [OF st] log_at_aligned [OF st] by auto
  have "?len mod 32 = 0" using ok off(2) by (auto simp: appender_ok_def mod_diff_eq dvd_imp_mod_0)
  moreover have "0 < ?len" using False le by simp
  ultimately have len: "32 \<le> ?len" and al: "aligned_len ?len = ?len"
    by (auto simp: aligned_len_id zdvd_imp_le)
  have out: "m' x = m x" if "x < ?a \<or> Ptr (termBuffer ap) + Capacity (termBuffer ap) \<le> x" for x
    using that len by (auto simp: m'_def store_outside header_image_outside)
  have "log_at m' (Ptr (termBuffer ap)) 0 fs off"
    using st by (rule log_at_cong) (auto intro!: out)
  moreover have "frame_at m' ?a = pad_frame (header_writer ap) tid off (get_i64 m (?a + 24)) ?len"
    unfolding m'_def by (rule pad_committed) (use len off ok tid in \<open>auto simp: appender_ok_def in_i32_def\<close>)
  ultimately have "log_at m' (Ptr (termBuffer ap)) 0
      (fs @ [pad_frame (header_writer ap) tid off (get_i64 m (?a + 24)) ?len]) (Capacity (termBuffer ap))"
    using len al by (simp add: log_at_snoc pad_frame_def)
  moreover have "handleEndOfLogCondition m tid (termBuffer ap) off (header_writer ap)
      (Capacity (termBuffer ap)) = Inr (AppenderTripped, m')"
    unfolding m'_def using ok off len by (intro handleEndOfLog_pads) (auto simp: appender_ok_def)
  ultimately show ?thesis
    using that [of m' "[pad_frame (header_writer ap) tid off (get_i64 m (?a + 24)) ?len]"] out
    by (simp add: pad_frame_def)
qed

subsection \<open>What all append operations share\<close>

text \<open>
  The interface of the append operations, with the argument \<open>x\<close> standing for the message and
  its options: when the space the message requires is left in the term, the frames \<open>adds\<close>
  speaks of are committed behind the old ones; otherwise the operation ends in
  \<^const>\<open>handleEndOfLogCondition\<close>. In both cases the raw tail moves on by the required length.
\<close>

locale append_operation =
  fixes op :: "Appender \<Rightarrow> 'a \<Rightarrow> mem \<Rightarrow> (int \<times> int \<times> mem) res option"
    and valid :: "Appender \<Rightarrow> 'a \<Rightarrow> bool"
    and required :: "'a \<Rightarrow> int"
    and adds :: "Appender \<Rightarrow> 'a \<Rightarrow> mem \<Rightarrow> int \<Rightarrow> int \<Rightarrow> frame list \<Rightarrow> bool"
  assumes fits:
    "\<lbrakk>appender_ok ap; valid ap x; term_state m ap tid off fs;
      off + required x \<le> Capacity (termBuffer ap)\<rbrakk> \<Longrightarrow>
     \<exists>m' gs. op ap x m = Some (Inr (off + required x, tid, m')) \<and>
       term_state m' ap tid (off + required x) (fs @ gs) \<and>
       only_touches m m' ap off (off + required x) \<and> adds ap x m tid off gs"
    and over:
    "\<lbrakk>appender_ok ap; valid ap x; get_i64 m (tailCounter ap) = tid * 4294967296 + off; in_i32 tid;
      0 \<le> off; off < 2147483648; Capacity (termBuffer ap) < off + required x\<rbrakk> \<Longrightarrow>
     op ap x m = Some (bindR (handleEndOfLogCondition
         (store 8 m (tailCounter ap) (tid * 4294967296 + (off + required x))) tid
         (termBuffer ap) off (header_writer ap) (Capacity (termBuffer ap)))
         (\<lambda>(resultingOffset, m). Inr (resultingOffset, tid, m)))"
    and required_bound: "valid ap x \<Longrightarrow> 0 < required x \<and> required x < 2147483648"
begin

lemma trips:
  assumes ok: "appender_ok ap" and valid: "valid ap x" and st: "term_state m ap tid off fs"
    and over_end: "Capacity (termBuffer ap) < off + required x"
  shows "\<exists>m' gs. op ap x m = Some (Inr (AppenderTripped, tid, m')) \<and>
           get_i64 m' (tailCounter ap) = tid * 4294967296 + (off + required x) \<and>
           log_at m' (Ptr (termBuffer ap)) 0 (fs @ gs) (Capacity (termBuffer ap)) \<and>
           length gs \<le> 1 \<and> list_all is_padding gs \<and>
           only_touches m m' ap off (Capacity (termBuffer ap))"
proof -
  define m1 where "m1 = store 8 m (tailCounter ap) (tid * 4294967296 + (off + required x))"
  have off: "0 \<le> off" "off \<le> Capacity (termBuffer ap)" "Capacity (termBuffer ap) \<le> 1073741824"
    using ok term_state_offset [OF st] by (auto simp: appender_ok_def)
  have tid: "in_i32 tid" and tail: "get_i64 m (tailCounter ap) = tid * 4294967296 + off"
    using st by (auto simp: term_state_def)
  have log1: "log_at m1 (Ptr (termBuffer ap)) 0 fs off"
  proof (rule log_at_cong [where m = m])
    show "log_at m (Ptr (termBuffer ap)) 0 fs off" using st by (simp add: term_state_def)
    fix y assume "Ptr (termBuffer ap) + 0 \<le> y" "y < Ptr (termBuffer ap) + off"
    then show "m1 y = m y"
      unfolding m1_def by (intro store_outside) (use ok off in \<open>auto simp: appender_ok_def\<close>)
  qed
  obtain m' gs where eo:
    "handleEndOfLogCondition m1 tid (termBuffer ap) off (header_writer ap) (Capacity (termBuffer ap)) =
       Inr (AppenderTripped, m')"
    and log: "log_at m' (Ptr (termBuffer ap)) 0 (fs @ gs) (Capacity (termBuffer ap))"
    and gs: "length gs \<le> 1" "list_all is_padding gs"
    and out: "\<And>x. x < Ptr (termBuffer ap) + off \<or> Ptr (termBuffer ap) + Capacity (termBuffer ap) \<le> x \<Longrightarrow>
           m' x = m1 x"
    using handleEndOfLog_trips [OF ok log1 off(2) tid] by blast
  have "get_i64 m' (tailCounter ap) = get_i64 m1 (tailCounter ap)"
    by (rule i64.get_local, rule out) (use ok off in \<open>auto simp: appender_ok_def\<close>)
  moreover have "in_i64 (tid * 4294967296 + (off + required x))"
    using off required_bound [OF valid] by (intro raw_tail_in_i64 tid) auto
  moreover have "only_touches m m' ap off (Capacity (termBuffer ap))"
    by (auto simp: only_touches_def out m1_def store_outside)
  moreover have "op ap x m = Some (bindR (handleEndOfLogCondition m1 tid (termBuffer ap) off
      (header_writer ap) (Capacity (termBuffer ap))) (\<lambda>(r, m). Inr (r, tid, m)))"
    unfolding m1_def using off over_end by (intro over [OF ok valid tail tid]) auto
  ultimately show ?thesis using eo log gs by (auto simp: m1_def mem_simps)
qed

lemma fails:
  assumes "appender_ok ap" and "valid ap x" and "in_i32 tid"
    and "get_i64 m (tailCounter ap) = tid * 4294967296 + off"
    and "Capacity (termBuffer ap) < off" and "off < 2147483648"
  shows "op ap x m = Some (Inr (AppenderFailed, tid,
           store 8 m (tailCounter ap) (tid * 4294967296 + (off + required x))))"
proof -
  have "0 \<le> off" "Capacity (termBuffer ap) < off + required x"
    using assms required_bound [OF assms(2)] by (auto simp: appender_ok_def)
  then show ?thesis
    using over [OF assms(1,2,4,3)] assms(5,6) by (simp add: handleEndOfLog_beyond)
qed

text \<open>
  An append is all or nothing: the frames of a reader's interest after it are those from
  before, extended by the whole message or not at all.
\<close>

lemma all_or_nothing:
  assumes ok: "appender_ok ap" and valid: "valid ap x" and st: "term_state m ap tid off fs"
  shows "\<exists>r m' fs' e. op ap x m = Some (Inr (r, tid, m')) \<and>
           log_at m' (Ptr (termBuffer ap)) 0 fs' e \<and> e \<le> Capacity (termBuffer ap) \<and>
           (r = AppenderTripped \<and> filter (\<lambda>f. \<not> is_padding f) fs' = filter (\<lambda>f. \<not> is_padding f) fs \<or>
            r = e \<and> (\<exists>gs. fs' = fs @ gs \<and> adds ap x m tid off gs))"
proof (cases "off + required x \<le> Capacity (termBuffer ap)")
  case True
  then show ?thesis
    using fits [OF ok valid st] by (fastforce simp: term_state_def)
next
  case False
  then obtain m' gs where "op ap x m = Some (Inr (AppenderTripped, tid, m'))"
    "log_at m' (Ptr (termBuffer ap)) 0 (fs @ gs) (Capacity (termBuffer ap))" "list_all is_padding gs"
    using trips [OF ok valid st] by auto
  moreover from this(3) have "filter (\<lambda>f. \<not> is_padding f) gs = []"
    by (simp add: filter_empty_conv list_all_iff)
  ultimately show ?thesis by (intro exI) auto
qed

end

end
