(* ===== verification/Append_Refinement.thy ===== *)
theory Append_Refinement
  imports Term_Appender
begin

text \<open>
  The append operations of \<open>appender.go\<close> implement the append contract: appending a message
  extends the log of committed frames by exactly the message, unfragmented in one frame or as
  a chain of fragments, or leaves the readable frames as they were.
\<close>

subsection \<open>Source buffers\<close>

text \<open>The message lies inside its buffer, and the buffer apart from the term and its tail.\<close>

definition source_ok :: "Appender \<Rightarrow> buffer \<Rightarrow> int \<Rightarrow> int \<Rightarrow> bool" where
  "source_ok ap buf offset len \<longleftrightarrow>
     0 \<le> offset \<and> 0 \<le> len \<and> offset + len \<le> Capacity buf \<and> Capacity buf < 2147483648 \<and>
     (Ptr (termBuffer ap) + Capacity (termBuffer ap) \<le> Ptr buf \<or>
      Ptr buf + Capacity buf \<le> Ptr (termBuffer ap)) \<and>
     (tailCounter ap + 8 \<le> Ptr buf \<or> Ptr buf + Capacity buf \<le> tailCounter ap)"

definition source_bytes :: "mem \<Rightarrow> buffer \<Rightarrow> int \<Rightarrow> int \<Rightarrow> byte list" where
  "source_bytes m buf offset len = read_bytes m (Ptr buf + offset) (nat len)"

lemma length_source_bytes [simp]: "length (source_bytes m buf offset len) = nat len"
  by (simp add: source_bytes_def)

lemma source_bytes_kept:
  assumes "source_ok ap buf offset len" and "only_touches m m' ap lo hi"
    and "0 \<le> lo" and "hi \<le> Capacity (termBuffer ap)"
    and "0 \<le> o2" and "offset \<le> o2" and "o2 + n \<le> offset + len"
  shows "source_bytes m' buf o2 n = source_bytes m buf o2 n"
  unfolding source_bytes_def
  by (rule read_bytes_cong) (use assms in \<open>auto simp: only_touches_def source_ok_def split: if_splits\<close>)

text \<open>
  The reserved value of a frame: left as it stood in memory without a supplier, and otherwise
  what the supplier returns for a memory in which the payload is already in place.
\<close>

definition reserved_from ::
  "ReservedValueSupplier option \<Rightarrow> mem \<Rightarrow> buffer \<Rightarrow> int \<Rightarrow> byte list \<Rightarrow> int \<Rightarrow> bool" where
  "reserved_from supplier m buf off payload rv =
     (case supplier of
        None \<Rightarrow> rv = get_i64 m (Ptr buf + off + 24)
      | Some s \<Rightarrow>
          \<exists>mm. read_bytes mm (Ptr buf + off + 32) (length payload) = payload \<and>
               rv = wrap64 (s mm buf off (int (length payload) + 32)))"

definition reserved_image ::
  "mem \<Rightarrow> buffer \<Rightarrow> int \<Rightarrow> int \<Rightarrow> ReservedValueSupplier option \<Rightarrow> mem" where
  "reserved_image m buf off len supplier =
     (case supplier of None \<Rightarrow> m | Some s \<Rightarrow> store 8 m (Ptr buf + off + 24) (s m buf off len))"

lemma put_reserved_ok:
  assumes "0 \<le> off" and "off + 32 \<le> Capacity buf" and "Capacity buf < 2147483648"
  shows "put_reserved m buf off len supplier = Inr (reserved_image m buf off len supplier)"
  using assms
  by (simp add: put_reserved_def reserved_image_def buffer_ok wrap32_id add.assoc split: option.split)

lemma reserved_image_outside:
  "x < Ptr buf + off + 24 \<or> Ptr buf + off + 32 \<le> x \<Longrightarrow> reserved_image m buf off len supplier x = m x"
  by (auto simp: reserved_image_def store_outside split: option.split)

subsection \<open>Committing one frame\<close>

lemma frame_commit:
  assumes hdr: "\<And>x. a + 6 \<le> x \<Longrightarrow> x < a + 24 \<Longrightarrow> w x = header_image m hw a off len tid x"
    and flags: "load 1 w (a + 5) = flags"
    and rv: "get_i64 w (a + 24) = get_i64 m0 (a + 24)"
    and payload: "read_bytes w (a + 32) (nat (len - 32)) = payload"
    and "a = Ptr buf + off" and "32 \<le> len" and "in_i32 len" and "in_i32 off" and "in_i32 tid"
    and "in_i32 (sessionID hw)" and "in_i32 (streamID hw)"
  shows "\<exists>rv. frame_at (store 4 (reserved_image w buf off len supplier) a len) a =
                data_frame hw tid off flags rv payload \<and>
              reserved_from supplier m0 buf off payload rv"
proof -
  let ?r = "reserved_image w buf off len supplier"
  have len: "int (length payload) + 32 = len"
    using payload assms(6) length_read_bytes [of w "a + 32" "nat (len - 32)"] by simp
  have out: "?r x = w x" if "x < a + 24 \<or> a + 32 \<le> x" for x
    using that assms(5) by (simp add: reserved_image_outside)
  have "load 1 ?r (a + 5) = flags"
    using flags load_local [of "a + 5" 1 ?r w] out by simp
  moreover have "read_bytes ?r (a + 32) (nat (len - 32)) = payload"
    using payload read_bytes_cong [of "a + 32" "nat (len - 32)" ?r w] out by simp
  ultimately have "frame_at (store 4 ?r a len) a =
      data_frame hw tid off flags (get_i64 ?r (a + 24)) payload"
    using assms by (intro frame_committed [where m = m]) (simp_all add: out hdr)
  moreover have "reserved_from supplier m0 buf off payload (get_i64 ?r (a + 24))"
  proof (cases supplier)
    case None
    then show ?thesis using rv assms(5) by (simp add: reserved_from_def reserved_image_def)
  next
    case (Some s)
    have "read_bytes w (a + 32) (length payload) = payload" using payload len by auto
    then show ?thesis
      using Some assms(5) by (auto simp: reserved_from_def reserved_image_def mem_simps len)
  qed
  ultimately show ?thesis by blast
qed

text \<open>
  The common end of the unfragmented appends: with header and payload written behind an
  advanced tail, reserved value and commit complete the frame and the log.
\<close>

lemma append_one_frame:
  assumes ok: "appender_ok ap" and st: "term_state m ap tid off fs"
    and len: "32 \<le> len" and fit: "off + aligned_len len \<le> Capacity (termBuffer ap)"
    and a: "a = Ptr (termBuffer ap) + off" and hw: "hw = header_writer ap"
    and m1: "m1 = store 8 m (tailCounter ap) (tid * 4294967296 + (off + aligned_len len))"
    and hdr: "\<And>x. x < a + 32 \<or> a + len \<le> x \<Longrightarrow> w x = header_image m1 hw a off len tid x"
    and payload: "read_bytes w (a + 32) (nat (len - 32)) = payload"
    and c: "c = store 4 (reserved_image w (termBuffer ap) off len supplier) a len"
  shows "\<exists>rv. term_state c ap tid (off + aligned_len len)
                (fs @ [data_frame hw tid off unfragmented rv payload]) \<and>
              only_touches m c ap off (off + aligned_len len) \<and>
              reserved_from supplier m (termBuffer ap) off payload rv"
proof -
  have off: "0 \<le> off" "off mod 32 = 0" "off \<le> Capacity (termBuffer ap)"
    using term_state_offset [OF st] .
  have cap: "Capacity (termBuffer ap) \<le> 1073741824" and ids: "in_i32 (sessionID hw)" "in_i32 (streamID hw)"
    and apart: "tailCounter ap + 8 \<le> Ptr (termBuffer ap) \<or>
      Ptr (termBuffer ap) + Capacity (termBuffer ap) \<le> tailCounter ap"
    using ok by (auto simp: appender_ok_def hw)
  have al: "len \<le> aligned_len len" by (rule aligned_len_bounds)
  have tid: "in_i32 tid" using st by (simp add: term_state_def)
  have far: "a + 32 \<le> tailCounter ap \<or> tailCounter ap + 8 \<le> a"
    using apart fit al len off(1) by (auto simp: a)
  have "get_i64 m1 (a + 24) = get_i64 m (a + 24)"
    unfolding m1 using far by (intro i64.get_store_other) auto
  moreover have "load 1 w (a + 5) = load 1 (header_image m1 hw a off len tid) (a + 5)"
    "get_i64 w (a + 24) = get_i64 (header_image m1 hw a off len tid) (a + 24)"
    by (rule load_local i64.get_local; simp add: hdr)+
  ultimately obtain rv where fr: "frame_at c a = data_frame hw tid off unfragmented rv payload"
    and rv: "reserved_from supplier m (termBuffer ap) off payload rv"
    using frame_commit [of a w m1 hw off len tid unfragmented m payload "termBuffer ap" supplier]
      payload len tid ids off cap fit al
    unfolding c by (auto simp: hdr header_image_fields a in_i32_def simp del: One_nat_def)
  have out: "c x = m1 x" if "x < a \<or> a + len \<le> x" for x
    using that len by (auto simp: c store_outside reserved_image_outside hdr header_image_outside a)
  have "only_touches m c ap off (off + aligned_len len)"
    using al by (auto simp: only_touches_def out a m1 store_outside)
  moreover have "get_i64 c (tailCounter ap) = get_i64 m1 (tailCounter ap)"
    using apart fit al off by (intro i64.get_local out) (auto simp: a)
  then have "get_i64 c (tailCounter ap) = tid * 4294967296 + (off + aligned_len len)"
    using fit off len al cap raw_tail_in_i64 [OF tid, of "off + aligned_len len"]
    by (simp add: m1 mem_simps)
  moreover have "log_at c (Ptr (termBuffer ap)) off [data_frame hw tid off unfragmented rv payload]
      (off + aligned_len len)"
    using fr len payload length_read_bytes [of w "a + 32" "nat (len - 32)"]
    by (auto simp: a data_frame_def)
  ultimately show ?thesis
    using term_state_extend [OF ok st _ _ _ fit] rv by blast
qed

subsection \<open>Unfragmented messages\<close>

lemma raw_tail_read:
  assumes "get_i64 m (tailCounter ap) = tid * 4294967296 + off"
  shows "getAndAddRawTail m ap n =
           (tid * 4294967296 + off, store 8 m (tailCounter ap) (tid * 4294967296 + (off + n)))"
  using assms by (simp add: getAndAddRawTail_def Int64Field_GetAndAdd_eq add.assoc)

lemma unfragmented_length:
  assumes "0 \<le> len" and "len \<le> 2147483584"
  shows "wrap32 (len + 32) = len + 32" and "AlignInt32 (len + 32) 32 = aligned_len (len + 32)"
    and "0 < aligned_len (len + 32)" and "aligned_len (len + 32) < 2147483648"
proof -
  have "aligned_len (len + 32) \<le> 2147483616"
    using assms by (auto simp: aligned_len_def)
  then show "aligned_len (len + 32) < 2147483648" by simp
qed (use assms aligned_len_bounds(1) [of "len + 32"] in
     \<open>simp_all add: wrap32_id AlignInt32_aligned_len\<close>)

lemma AppendUnfragmentedMessage_fits:
  assumes ok: "appender_ok ap" and st: "term_state m ap tid off fs"
    and src: "source_ok ap src so len" and fit: "off + aligned_len (len + 32) \<le> Capacity (termBuffer ap)"
  shows "\<exists>m' rv. AppendUnfragmentedMessage m ap src so len supplier =
             Inr (off + aligned_len (len + 32), tid, m') \<and>
           term_state m' ap tid (off + aligned_len (len + 32))
             (fs @ [data_frame (header_writer ap) tid off unfragmented rv (source_bytes m src so len)]) \<and>
           only_touches m m' ap off (off + aligned_len (len + 32)) \<and>
           reserved_from supplier m (termBuffer ap) off (source_bytes m src so len) rv"
proof -
  have off: "0 \<le> off" and cap: "Capacity (termBuffer ap) \<le> 1073741824"
    using term_state_offset [OF st] ok by (auto simp: appender_ok_def)
  have al: "len + 32 \<le> aligned_len (len + 32)" by (rule aligned_len_bounds)
  have len: "0 \<le> len" using src by (simp add: source_ok_def)
  have room: "off + (len + 32) \<le> Capacity (termBuffer ap)" using fit al by linarith
  have len2: "len \<le> 2147483584" using room off cap by linarith
  define a where "a = Ptr (termBuffer ap) + off"
  define m1 where "m1 = store 8 m (tailCounter ap) (tid * 4294967296 + (off + aligned_len (len + 32)))"
  define h where "h = header_image m1 (header_writer ap) a off (len + 32) tid"
  define w where "w = write_bytes h (a + 32) (source_bytes h src so len)"
  define c where "c = store 4 (reserved_image w (termBuffer ap) off (len + 32) supplier) a (len + 32)"
  have touch: "only_touches m h ap off (off + aligned_len (len + 32))"
    using al len by (auto simp: only_touches_def h_def m1_def a_def header_image_outside store_outside)
  have bytes: "source_bytes h src so len = source_bytes m src so len"
    by (rule source_bytes_kept [OF src touch off fit]) (use src in \<open>auto simp: source_ok_def\<close>)
  have "\<exists>rv. term_state c ap tid (off + aligned_len (len + 32))
      (fs @ [data_frame (header_writer ap) tid off unfragmented rv (source_bytes m src so len)]) \<and>
      only_touches m c ap off (off + aligned_len (len + 32)) \<and>
      reserved_from supplier m (termBuffer ap) off (source_bytes m src so len) rv"
  proof (rule append_one_frame [OF ok st _ fit a_def refl m1_def _ _ c_def])
    show "32 \<le> len + 32" using len by simp
    show "w x = header_image m1 (header_writer ap) a off (len + 32) tid x"
      if "x < a + 32 \<or> a + (len + 32) \<le> x" for x
      using that len by (auto simp: w_def write_bytes_apply h_def)
    show "read_bytes w (a + 32) (nat (len + 32 - 32)) = source_bytes m src so len"
      by (simp add: w_def bytes mem_simps)
  qed
  moreover have "AppendUnfragmentedMessage m ap src so len supplier =
      Inr (off + aligned_len (len + 32), tid, c)"
  proof -
    have "PutBytes h (termBuffer ap) (off + 32) src so len = Inr w"
      unfolding w_def source_bytes_def using src room off cap
      by (subst PutBytes_ok) (auto simp: source_ok_def a_def add.assoc)
    moreover have "put_reserved w (termBuffer ap) off (len + 32) supplier =
        Inr (reserved_image w (termBuffer ap) off (len + 32) supplier)"
      using room off cap len by (intro put_reserved_ok) auto
    moreover have "headerWriter_write m1 (header_writer ap) (termBuffer ap) off (len + 32) tid = Inr h"
      unfolding h_def a_def using room off cap len by (intro headerWriter_write_ok) auto
    moreover have "wrap32 (off + 32) = off + 32" using room off cap len by (intro wrap32_id) auto
    ultimately show ?thesis
      using unfragmented_length [OF len len2] fit off cap room len
      by (simp add: AppendUnfragmentedMessage_def tail_add [OF ok st] tail_parts [OF ok st] Let_def
          SetFrameLength_def lengthOffset_def buffer_ok c_def flip: m1_def a_def)
  qed
  ultimately show ?thesis by blast
qed

text \<open>
  The operation on the arguments (source buffer, offset, length, supplier) implements the
  append contract.
\<close>

interpretation unfrag: append_operation
  "\<lambda>ap (src, so, len, supplier) m. Some (AppendUnfragmentedMessage m ap src so len supplier)"
  "\<lambda>ap (src, so, len, supplier). source_ok ap src so len \<and> len \<le> 2147483584"
  "\<lambda>(src, so, len, supplier). aligned_len (len + 32)"
  "\<lambda>ap (src, so, len, supplier) m tid off gs.
     \<exists>rv. gs = [data_frame (header_writer ap) tid off unfragmented rv (source_bytes m src so len)] \<and>
          reserved_from supplier m (termBuffer ap) off (source_bytes m src so len) rv"
proof (unfold_locales, goal_cases)
  case (1 ap x m tid off fs)
  then show ?case
    using AppendUnfragmentedMessage_fits [of ap m tid off fs] by (cases x) (fastforce split: prod.splits)
next
  case (2 ap x m tid off)
  then show ?case
    by (cases x) (auto simp: AppendUnfragmentedMessage_def raw_tail_read unfragmented_length source_ok_def
        Let_def wrap32_id)
next
  case (3 ap x)
  then show ?case by (cases x) (auto simp: source_ok_def unfragmented_length)
qed

text \<open>Two source buffers end up as one payload, the first before the second.\<close>

lemma AppendUnfragmentedMessage2_fits:
  assumes ok: "appender_ok ap" and st: "term_state m ap tid off fs"
    and src: "source_ok ap s1 o1 l1" "source_ok ap s2 o2 l2"
    and fit: "off + aligned_len (l1 + l2 + 32) \<le> Capacity (termBuffer ap)"
    and payload: "payload = source_bytes m s1 o1 l1 @ source_bytes m s2 o2 l2"
  shows "\<exists>m' rv. AppendUnfragmentedMessage2 m ap s1 o1 l1 s2 o2 l2 supplier =
             Inr (off + aligned_len (l1 + l2 + 32), tid, m') \<and>
           term_state m' ap tid (off + aligned_len (l1 + l2 + 32))
             (fs @ [data_frame (header_writer ap) tid off unfragmented rv payload]) \<and>
           only_touches m m' ap off (off + aligned_len (l1 + l2 + 32)) \<and>
           reserved_from supplier m (termBuffer ap) off payload rv"
proof -
  let ?len = "l1 + l2"
  have off: "0 \<le> off" and cap: "Capacity (termBuffer ap) \<le> 1073741824"
    using term_state_offset [OF st] ok by (auto simp: appender_ok_def)
  have al: "?len + 32 \<le> aligned_len (?len + 32)" by (rule aligned_len_bounds)
  have len: "0 \<le> l1" "0 \<le> l2" using src by (simp_all add: source_ok_def)
  have room: "off + (?len + 32) \<le> Capacity (termBuffer ap)" using fit al by linarith
  have len2: "?len \<le> 2147483584" using room off cap by linarith
  define a where "a = Ptr (termBuffer ap) + off"
  define m1 where "m1 = store 8 m (tailCounter ap) (tid * 4294967296 + (off + aligned_len (?len + 32)))"
  define h where "h = header_image m1 (header_writer ap) a off (?len + 32) tid"
  define w1 where "w1 = write_bytes h (a + 32) (source_bytes h s1 o1 l1)"
  define w where "w = write_bytes w1 (a + 32 + l1) (source_bytes w1 s2 o2 l2)"
  define c where "c = store 4 (reserved_image w (termBuffer ap) off (?len + 32) supplier) a (?len + 32)"
  have touch: "only_touches m h ap off (off + aligned_len (?len + 32))"
    using al len by (auto simp: only_touches_def h_def m1_def a_def header_image_outside store_outside)
  moreover have "only_touches m w1 ap off (off + aligned_len (?len + 32))"
    using touch al len by (auto simp: only_touches_def w1_def a_def write_bytes_apply)
  ultimately have bytes: "source_bytes h s1 o1 l1 = source_bytes m s1 o1 l1"
    "source_bytes w1 s2 o2 l2 = source_bytes m s2 o2 l2"
    using source_bytes_kept [OF src(1) touch off fit, of o1 l1]
      source_bytes_kept [OF src(2) _ off fit, of m w1 o2 l2] src by (auto simp: source_ok_def)
  have w: "w = write_bytes h (a + 32) payload"
    unfolding w_def bytes(2) unfolding w1_def bytes(1) payload
    using len by (simp add: write_bytes_append)
  have "\<exists>rv. term_state c ap tid (off + aligned_len (?len + 32))
      (fs @ [data_frame (header_writer ap) tid off unfragmented rv payload]) \<and>
      only_touches m c ap off (off + aligned_len (?len + 32)) \<and>
      reserved_from supplier m (termBuffer ap) off payload rv"
  proof (rule append_one_frame [OF ok st _ fit a_def refl m1_def _ _ c_def])
    show "32 \<le> ?len + 32" using len by simp
    show "w x = header_image m1 (header_writer ap) a off (?len + 32) tid x"
      if "x < a + 32 \<or> a + (?len + 32) \<le> x" for x
      using that len by (auto simp: w write_bytes_apply h_def payload)
    show "read_bytes w (a + 32) (nat (?len + 32 - 32)) = payload"
      using len by (simp add: w payload mem_simps nat_add_distrib)
  qed
  moreover have "AppendUnfragmentedMessage2 m ap s1 o1 l1 s2 o2 l2 supplier =
      Inr (off + aligned_len (?len + 32), tid, c)"
  proof -
    have "PutBytes h (termBuffer ap) (off + 32) s1 o1 l1 = Inr w1"
      unfolding w1_def source_bytes_def using src room off cap
      by (subst PutBytes_ok) (auto simp: source_ok_def a_def add.assoc)
    moreover have "PutBytes w1 (termBuffer ap) (off + 32 + l1) s2 o2 l2 = Inr w"
      unfolding w_def source_bytes_def using src room off cap
      by (subst PutBytes_ok) (auto simp: source_ok_def a_def add.assoc)
    moreover have "put_reserved w (termBuffer ap) off (?len + 32) supplier =
        Inr (reserved_image w (termBuffer ap) off (?len + 32) supplier)"
      using room off cap len by (intro put_reserved_ok) auto
    moreover have "headerWriter_write m1 (header_writer ap) (termBuffer ap) off (?len + 32) tid = Inr h"
      unfolding h_def a_def using room off cap len by (intro headerWriter_write_ok) auto
    moreover have "wrap32 (off + 32) = off + 32" "wrap32 (off + 32 + l1) = off + 32 + l1"
      "wrap32 (l1 + l2) = l1 + l2"
      using room off cap len by (intro wrap32_id; auto)+
    moreover have "0 \<le> l1 + l2" using len by simp
    ultimately show ?thesis
      using unfragmented_length [of ?len] len2 fit off cap room len
      by (simp add: AppendUnfragmentedMessage2_def tail_add [OF ok st] tail_parts [OF ok st] Let_def
          SetFrameLength_def lengthOffset_def buffer_ok c_def flip: m1_def a_def)
  qed
  ultimately show ?thesis by blast
qed

interpretation unfrag2: append_operation
  "\<lambda>ap (s1, o1, l1, s2, o2, l2, supplier) m.
     Some (AppendUnfragmentedMessage2 m ap s1 o1 l1 s2 o2 l2 supplier)"
  "\<lambda>ap (s1, o1, l1, s2, o2, l2, supplier).
     source_ok ap s1 o1 l1 \<and> source_ok ap s2 o2 l2 \<and> l1 + l2 \<le> 2147483584"
  "\<lambda>(s1, o1, l1, s2, o2, l2, supplier). aligned_len (l1 + l2 + 32)"
  "\<lambda>ap (s1, o1, l1, s2, o2, l2, supplier) m tid off gs.
     \<exists>rv. gs = [data_frame (header_writer ap) tid off unfragmented rv
                  (source_bytes m s1 o1 l1 @ source_bytes m s2 o2 l2)] \<and>
          reserved_from supplier m (termBuffer ap) off
            (source_bytes m s1 o1 l1 @ source_bytes m s2 o2 l2) rv"
proof (unfold_locales, goal_cases)
  case (1 ap x m tid off fs)
  then show ?case
    using AppendUnfragmentedMessage2_fits [of ap m tid off fs] by (cases x) (fastforce split: prod.splits)
next
  case (2 ap x m tid off)
  then show ?case
    by (cases x) (auto simp: AppendUnfragmentedMessage2_def raw_tail_read unfragmented_length source_ok_def
        Let_def wrap32_id)
next
  case (3 ap x)
  then show ?case by (cases x) (auto simp: source_ok_def unfragmented_length)
qed

subsection \<open>Fragmented messages\<close>

text \<open>The space a message of \<open>r\<close> bytes takes in fragments of at most \<open>mp\<close> payload bytes.\<close>

definition fragmented_len :: "int \<Rightarrow> int \<Rightarrow> int" where
  "fragmented_len mp r =
     r div mp * (mp + 32) + (if 0 < r mod mp then aligned_len (r mod mp + 32) else 0)"

text \<open>The flags of a fragment: the begin flag on the first, the end flag on the last.\<close>

definition frag_flags :: "bool \<Rightarrow> bool \<Rightarrow> int" where
  "frag_flags first final = (if first then beginFrag else 0) + (if final then endFrag else 0)"

text \<open>
  The frames of a fragmented message: payloads of \<open>mp\<close> bytes, the last one shorter, whose
  concatenation is the message.
\<close>

fun is_fragments :: "Appender \<Rightarrow> ReservedValueSupplier \<Rightarrow> int \<Rightarrow> int \<Rightarrow> bool \<Rightarrow> int \<Rightarrow> byte list \<Rightarrow>
    frame list \<Rightarrow> bool" where
  "is_fragments ap s tid mp first off payload [] \<longleftrightarrow> payload = []"
| "is_fragments ap s tid mp first off payload (f # fs) \<longleftrightarrow>
     payload \<noteq> [] \<and>
     (\<exists>rv. f = data_frame (header_writer ap) tid off
             (frag_flags first (int (length payload) \<le> mp)) rv (take (nat mp) payload) \<and>
           reserved_from (Some s) (\<lambda>_. 0) (termBuffer ap) off (take (nat mp) payload) rv) \<and>
     is_fragments ap s tid mp False (off + aligned_len (fr_length f)) (drop (nat mp) payload) fs"

lemma fragmented_len_last:
  assumes "0 < r" and "r \<le> mp" and "mp mod 32 = 0"
  shows "fragmented_len mp r = aligned_len (r + 32)"
proof (cases "r = mp")
  case True
  have "(mp + 32) mod 32 = 0" using assms(3) by simp
  then show ?thesis using True assms by (simp add: fragmented_len_def aligned_len_id)
qed (use assms in \<open>simp add: fragmented_len_def\<close>)

lemma fragmented_len_step:
  assumes "0 < mp" and "mp < r"
  shows "fragmented_len mp r = mp + 32 + fragmented_len mp (r - mp)"
proof -
  have "r div mp = (r - mp) div mp + 1" using assms by (intro div_pos_geq) auto
  then have "fragmented_len mp r =
      ((r - mp) div mp + 1) * (mp + 32) + (if 0 < r mod mp then aligned_len (r mod mp + 32) else 0)"
    by (simp only: fragmented_len_def)
  moreover have "(r - mp) mod mp = r mod mp" by simp
  ultimately show ?thesis by (simp only: fragmented_len_def distrib_right mult_1 ac_simps)
qed

lemma fragmented_len_nonneg: "0 < mp \<Longrightarrow> 0 \<le> r \<Longrightarrow> 0 \<le> fragmented_len mp r"
  using aligned_len_bounds(1) [of "r mod mp + 32"]
  by (auto simp: fragmented_len_def pos_imp_zdiv_nonneg_iff)

lemma fragmented_len_pos:
  assumes "0 < mp" and "0 < r" and "mp mod 32 = 0"
  shows "0 < fragmented_len mp r"
proof (cases "r \<le> mp")
  case True
  then show ?thesis using assms aligned_len_bounds(1) [of "r + 32"] by (simp add: fragmented_len_last)
next
  case False
  then show ?thesis
    using assms fragmented_len_nonneg [of mp "r - mp"] by (simp add: fragmented_len_step)
qed

lemma source_bytes_outside_term:
  assumes "source_ok ap buf offset len" and "offset \<le> o2" and "o2 + n \<le> offset + len"
    and "\<And>x. x < Ptr (termBuffer ap) \<or> Ptr (termBuffer ap) + Capacity (termBuffer ap) \<le> x \<Longrightarrow> m' x = m x"
  shows "source_bytes m' buf o2 n = source_bytes m buf o2 n"
  unfolding source_bytes_def
  by (rule read_bytes_cong) (use assms in \<open>auto simp: source_ok_def split: if_splits\<close>)

lemma finish_fragment_ok:
  assumes "0 \<le> off" and "off + 32 \<le> Capacity buf" and "Capacity buf < 2147483648"
  shows "finish_fragment m buf off len flags (Some s) =
           Inr (store 4 (reserved_image (store 1 m (Ptr buf + off + 5) flags) buf off len (Some s))
                  (Ptr buf + off) len)"
  using assms
  by (simp add: finish_fragment_def FrameFlags_def flagsOffset_def call_supplier_def
      SetFrameLength_def lengthOffset_def buffer_ok wrap32_id reserved_image_def add.assoc)

text \<open>A fragment's frame, once header, payload and flags are written and the length is stored.\<close>

lemma fragment_frame:
  assumes "0 \<le> off" and "off + n + 32 \<le> Capacity (termBuffer ap)" and ok: "appender_ok ap"
    and "in_i32 tid" and "0 \<le> flags" and "flags < 256" and "int (length payload) = n"
    and a: "a = Ptr (termBuffer ap) + off"
    and h: "h = header_image m (header_writer ap) a off (n + 32) tid"
    and c: "c = store 4 (reserved_image (store 1 (write_bytes h (a + 32) payload) (a + 5) flags)
                  (termBuffer ap) off (n + 32) (Some s)) a (n + 32)"
  shows "\<exists>rv. frame_at c a = data_frame (header_writer ap) tid off flags rv payload \<and>
              reserved_from (Some s) (\<lambda>_. 0) (termBuffer ap) off payload rv"
    and "\<And>x. x < a \<or> a + (n + 32) \<le> x \<Longrightarrow> c x = m x"
proof -
  let ?w = "store 1 (write_bytes h (a + 32) payload) (a + 5) flags"
  have n: "nat (n + 32 - 32) = length payload" using assms(7) by auto
  have "\<exists>rv. frame_at c a = data_frame (header_writer ap) tid off flags rv payload \<and>
             reserved_from (Some s) m (termBuffer ap) off payload rv"
    unfolding c
  proof (rule frame_commit [where m = m])
    show "?w x = header_image m (header_writer ap) a off (n + 32) tid x" if "a + 6 \<le> x" "x < a + 24" for x
      using that by (simp add: store_outside write_bytes_apply h)
    show "load 1 ?w (a + 5) = flags"
      using assms(5,6) by (simp add: mem_simps del: One_nat_def)
    show "get_i64 ?w (a + 24) = get_i64 m (a + 24)"
      by (simp add: cell_other h header_image_fields)
    show "read_bytes ?w (a + 32) (nat (n + 32 - 32)) = payload"
      unfolding n by (simp add: cell_other mem_simps)
  qed (use assms in \<open>auto simp: appender_ok_def in_i32_def\<close>)
  then show "\<exists>rv. frame_at c a = data_frame (header_writer ap) tid off flags rv payload \<and>
      reserved_from (Some s) (\<lambda>_. 0) (termBuffer ap) off payload rv"
    by (simp add: reserved_from_def)
  show "c x = m x" if "x < a \<or> a + (n + 32) \<le> x" for x
    using that assms(7)
    by (auto simp: c store_outside reserved_image_outside a write_bytes_apply h header_image_outside)
qed

lemma append_fragment_ok:
  assumes ok: "appender_ok ap" and src: "source_ok ap src so len" and "in_i32 tid"
    and "0 \<le> off" and "off + n + 32 \<le> Capacity (termBuffer ap)"
    and n: "n = min remaining mp" and "0 < mp" and "0 < remaining" and "remaining \<le> len"
    and flags: "flags = (if first then beginFrag else 0)"
  shows "\<exists>c rv. append_fragment m ap src so len mp (Some s) tid flags remaining off = Inr c \<and>
           frame_at c (Ptr (termBuffer ap) + off) =
             data_frame (header_writer ap) tid off (frag_flags first (remaining \<le> mp)) rv
               (source_bytes m src (so + (len - remaining)) n) \<and>
           reserved_from (Some s) (\<lambda>_. 0) (termBuffer ap) off
             (source_bytes m src (so + (len - remaining)) n) rv \<and>
           (\<forall>x. x < Ptr (termBuffer ap) + off \<or> Ptr (termBuffer ap) + off + (n + 32) \<le> x \<longrightarrow> c x = m x)"
proof -
  define a where "a = Ptr (termBuffer ap) + off"
  define h where "h = header_image m (header_writer ap) a off (n + 32) tid"
  define payload where "payload = source_bytes m src (so + (len - remaining)) n"
  let ?flags = "frag_flags first (remaining \<le> mp)"
  define c where "c = store 4 (reserved_image (store 1 (write_bytes h (a + 32) payload) (a + 5) ?flags)
                        (termBuffer ap) off (n + 32) (Some s)) a (n + 32)"
  have n0: "0 < n" "n \<le> remaining" using n assms(7,8) by auto
  have cap: "Capacity (termBuffer ap) \<le> 1073741824" using ok by (simp add: appender_ok_def)
  have bytes: "source_bytes h src (so + (len - remaining)) n = payload"
    unfolding payload_def
    by (rule source_bytes_outside_term [OF src])
       (use n0 assms(4,5,8,9) in \<open>auto simp: h_def a_def header_image_outside\<close>)
  have fl: "fragment_flags flags remaining mp = ?flags" "0 \<le> ?flags" "?flags < 256"
    by (simp_all add: fragment_flags_def frag_flags_def flags)
  have "PutBytes h (termBuffer ap) (off + 32) src (so + (len - remaining)) n =
      Inr (write_bytes h (Ptr (termBuffer ap) + (off + 32))
             (read_bytes h (Ptr src + (so + (len - remaining))) (nat n)))"
    using src assms(4,5,8,9) n0 cap by (intro PutBytes_ok) (simp_all add: source_ok_def)
  then have "PutBytes h (termBuffer ap) (off + 32) src (so + (len - remaining)) n =
      Inr (write_bytes h (a + 32) payload)"
    unfolding bytes [symmetric] source_bytes_def a_def by (simp only: add.assoc)
  moreover have "headerWriter_write m (header_writer ap) (termBuffer ap) off (n + 32) tid = Inr h"
    unfolding h_def a_def using assms(4,5) n0 cap by (intro headerWriter_write_ok) auto
  moreover have "wrap32 (off + 32) = off + 32" "wrap32 (n + 32) = n + 32"
    using assms(4,5) n0 cap by (intro wrap32_id; linarith)+
  moreover have "wrap32 (len - remaining) = len - remaining"
    "wrap32 (so + (len - remaining)) = so + (len - remaining)"
    using src assms(8,9) by (auto simp: source_ok_def intro!: wrap32_id)
  moreover have "minInt32 remaining mp = n" by (simp add: minInt32_def n)
  ultimately have "append_fragment m ap src so len mp (Some s) tid flags remaining off = Inr c"
    using fl(1) assms(4,5) n0 cap
    by (simp add: append_fragment_def Let_def finish_fragment_ok c_def a_def)
  moreover have "int (length payload) = n" using n0 by (simp add: payload_def)
  note fragment_frame [OF assms(4,5) ok assms(3) fl(2,3) this a_def h_def c_def]
  ultimately show ?thesis by (auto simp: payload_def a_def add.assoc)
qed

lemma advance_fragment_ok:
  assumes "0 \<le> off" and "off + aligned_len (n + 32) \<le> cap" and "cap \<le> 1073741824"
    and "n = min remaining mp" and "0 < n" and "remaining < 2147483648"
  shows "advance_fragment remaining mp off = (remaining - n, off + aligned_len (n + 32))"
proof -
  have al: "n + 32 \<le> aligned_len (n + 32)" by (rule aligned_len_bounds)
  have "minInt32 remaining mp = n" by (simp add: minInt32_def assms(4))
  moreover have "wrap32 (n + 32) = n + 32" "wrap32 (off + aligned_len (n + 32)) = off + aligned_len (n + 32)"
    "wrap32 (remaining - n) = remaining - n"
    using assms al by (intro wrap32_id; linarith)+
  moreover have "AlignInt32 (n + 32) 32 = aligned_len (n + 32)"
    using assms(1-3,5) al by (intro AlignInt32_aligned_len) linarith+
  ultimately show ?thesis by (simp add: advance_fragment_def Let_def)
qed

lemma source_bytes_take_drop:
  assumes "0 \<le> n" and "n \<le> r"
  shows "take (nat n) (source_bytes m buf o1 r) = source_bytes m buf o1 n"
    and "drop (nat n) (source_bytes m buf o1 r) = source_bytes m buf (o1 + n) (r - n)"
proof -
  have "nat r = nat n + nat (r - n)" using assms by simp
  then have split: "source_bytes m buf o1 r = source_bytes m buf o1 n @ source_bytes m buf (o1 + n) (r - n)"
    using assms by (simp add: source_bytes_def read_bytes_append add.assoc)
  show "take (nat n) (source_bytes m buf o1 r) = source_bytes m buf o1 n"
    and "drop (nat n) (source_bytes m buf o1 r) = source_bytes m buf (o1 + n) (r - n)"
    by (simp_all add: split)
qed

lemma fragmented_len_unfold:
  assumes "0 < mp" and "mp mod 32 = 0" and "0 < remaining" and "n = min remaining mp"
  shows "fragmented_len mp remaining = aligned_len (n + 32) + fragmented_len mp (remaining - n)"
proof (cases "remaining \<le> mp")
  case True
  then show ?thesis
    using assms fragmented_len_last [of remaining mp] by (simp add: fragmented_len_def)
next
  case False
  then show ?thesis
    using assms fragmented_len_step [of mp remaining] aligned_len_id [of "mp + 32"] by simp
qed

lemma is_fragments_step:
  assumes "0 < mp" and "0 < remaining" and n: "n = min remaining mp"
    and f: "f = data_frame (header_writer ap) tid off (frag_flags first (remaining \<le> mp)) rv
                  (source_bytes m src o1 n)"
    and "reserved_from (Some s) (\<lambda>_. 0) (termBuffer ap) off (source_bytes m src o1 n) rv"
    and "is_fragments ap s tid mp False (off + aligned_len (n + 32))
           (source_bytes m src (o1 + n) (remaining - n)) gs"
  shows "is_fragments ap s tid mp first off (source_bytes m src o1 remaining) (f # gs)"
proof -
  let ?p = "source_bytes m src o1 remaining"
  have n0: "0 < n" "n \<le> remaining" using assms(1-3) by auto
  have "take (nat mp) ?p = take (nat n) ?p" "drop (nat mp) ?p = drop (nat n) ?p"
    using assms(1,2) by (auto simp: n min_def)
  then have "take (nat mp) ?p = source_bytes m src o1 n"
    "drop (nat mp) ?p = source_bytes m src (o1 + n) (remaining - n)"
    using source_bytes_take_drop [of n remaining m src o1] n0 by simp_all
  moreover have "?p \<noteq> []"
    using assms(2) length_source_bytes [of m src o1 remaining] by (metis list.size(3) zero_less_nat_eq less_irrefl)
  moreover have "fr_length f = n + 32" using n0 by (simp add: f data_frame_def)
  ultimately show ?thesis using assms by auto
qed

text \<open>
  The fragment loop ends, and the log it writes from \<open>off\<close> on is the chain of fragments of the
  bytes that remained.
\<close>

lemma fragment_loop_ok:
  assumes ok: "appender_ok ap" and src: "source_ok ap src so len" and tid: "in_i32 tid"
    and mp: "0 < mp" "mp mod 32 = 0"
  shows "\<lbrakk>0 \<le> remaining; remaining \<le> len; 0 \<le> off;
          off + fragmented_len mp remaining \<le> Capacity (termBuffer ap);
          flags = (if first then beginFrag else 0)\<rbrakk> \<Longrightarrow>
    \<exists>m' gs. fragment_loop ap src so len mp (Some s) tid m flags remaining off = Some (Inr m') \<and>
      log_at m' (Ptr (termBuffer ap)) off gs (off + fragmented_len mp remaining) \<and>
      is_fragments ap s tid mp first off (source_bytes m src (so + (len - remaining)) remaining) gs \<and>
      (\<forall>x. x < Ptr (termBuffer ap) + off \<or>
           Ptr (termBuffer ap) + off + fragmented_len mp remaining \<le> x \<longrightarrow> m' x = m x)"
proof (induction "nat remaining" arbitrary: m remaining off flags first rule: less_induct)
  case less
  show ?case
  proof (cases "remaining = 0")
    case True
    then show ?thesis
      by (intro exI [of _ m] exI [of _ "[]"])
         (simp add: fragment_loop.simps fragmented_len_def source_bytes_def)
  next
    case False
    define n where "n = min remaining mp"
    define r where "r = remaining - n"
    have cap: "Capacity (termBuffer ap) \<le> 1073741824" using ok by (simp add: appender_ok_def)
    have n: "0 < n" "n \<le> remaining" "n \<le> mp" using False less.prems(1) mp by (auto simp: n_def)
    have flen: "fragmented_len mp remaining = aligned_len (n + 32) + fragmented_len mp r"
      unfolding r_def using False less.prems(1) mp by (intro fragmented_len_unfold) (auto simp: n_def)
    have r: "0 \<le> r" "r \<le> len" "nat r < nat remaining" using n less.prems by (auto simp: r_def)
    have rest: "0 \<le> fragmented_len mp r" using mp r by (intro fragmented_len_nonneg)
    have al: "n + 32 \<le> aligned_len (n + 32)" by (rule aligned_len_bounds)
    define off' where "off' = off + aligned_len (n + 32)"
    have fit: "off' + fragmented_len mp r \<le> Capacity (termBuffer ap)"
      using less.prems(4) by (simp add: flen off'_def)
    obtain c rv where step: "append_fragment m ap src so len mp (Some s) tid flags remaining off = Inr c"
      and fr: "frame_at c (Ptr (termBuffer ap) + off) =
        data_frame (header_writer ap) tid off (frag_flags first (remaining \<le> mp)) rv
          (source_bytes m src (so + (len - remaining)) n)"
      and rv: "reserved_from (Some s) (\<lambda>_. 0) (termBuffer ap) off
          (source_bytes m src (so + (len - remaining)) n) rv"
      and out: "\<And>x. x < Ptr (termBuffer ap) + off \<or> Ptr (termBuffer ap) + off + (n + 32) \<le> x \<Longrightarrow> c x = m x"
      using append_fragment_ok [OF ok src tid less.prems(3) _ n_def mp(1) _ less.prems(2,5), of m s]
        fit rest al False less.prems(1) unfolding off'_def by fastforce
    have adv: "advance_fragment remaining mp off = (r, off')"
      unfolding r_def off'_def
      by (rule advance_fragment_ok [OF less.prems(3) _ cap n_def n(1)])
         (use fit rest less.prems src in \<open>auto simp: off'_def source_ok_def\<close>)
    have off': "0 \<le> off'" "off + (n + 32) \<le> off'" using less.prems(3) al n by (auto simp: off'_def)
    obtain m' gs where loop: "fragment_loop ap src so len mp (Some s) tid c 0 r off' = Some (Inr m')"
      and log: "log_at m' (Ptr (termBuffer ap)) off' gs (off' + fragmented_len mp r)"
      and frs: "is_fragments ap s tid mp False off' (source_bytes c src (so + (len - r)) r) gs"
      and out': "\<And>x. x < Ptr (termBuffer ap) + off' \<or>
           Ptr (termBuffer ap) + off' + fragmented_len mp r \<le> x \<Longrightarrow> m' x = c x"
      using less.hyps [OF r(3,1,2) off'(1) fit, of 0 False c] by auto
    let ?f = "data_frame (header_writer ap) tid off (frag_flags first (remaining \<le> mp)) rv
                (source_bytes m src (so + (len - remaining)) n)"
    have "source_bytes c src (so + (len - r)) r = source_bytes m src (so + (len - r)) r"
      by (rule source_bytes_outside_term [OF src])
         (use r less.prems(3) fit rest off' in \<open>auto intro!: out\<close>)
    then have "is_fragments ap s tid mp first off
        (source_bytes m src (so + (len - remaining)) remaining) (?f # gs)"
      using frs False less.prems(1) mp(1)
      by (intro is_fragments_step [OF _ _ n_def refl rv]) (auto simp: off'_def r_def algebra_simps)
    moreover have "log_at m' (Ptr (termBuffer ap)) off (?f # gs) (off + fragmented_len mp remaining)"
      using log n by (intro log_at_Cons_kept [OF fr]) (auto simp: data_frame_def off'_def flen add.assoc intro: out')
    moreover have "fragment_loop ap src so len mp (Some s) tid m flags remaining off = Some (Inr m')"
      using False less.prems(1) step adv loop by (subst fragment_loop.simps) simp
    moreover have "\<forall>x. x < Ptr (termBuffer ap) + off \<or>
        Ptr (termBuffer ap) + off + fragmented_len mp remaining \<le> x \<longrightarrow> m' x = m x"
      using off' al n rest by (auto simp: flen off'_def out out')
    ultimately show ?thesis by blast
  qed
qed

lemma required_length_ok:
  assumes "0 \<le> len" and "len < 2147483648" and mp: "0 < mp" "mp \<le> 1073741824"
    and "fragmented_len mp len < 2147483648"
  shows "required_length len mp = Inr (fragmented_len mp len)"
proof -
  define q where "q = len div mp"
  define r where "r = len mod mp"
  define last_len where "last_len = (if 0 < r then aligned_len (r + 32) else 0)"
  have q: "0 \<le> q" "q \<le> len"
    using assms(1) mp zdiv_mono2 [of len 1 mp] by (auto simp: q_def pos_imp_zdiv_nonneg_iff)
  have r: "0 \<le> r" "r < mp" using mp by (simp_all add: r_def)
  have ll: "0 \<le> last_len" using aligned_len_bounds(1) [of "r + 32"] r by (simp add: last_len_def)
  have total: "fragmented_len mp len = q * (mp + 32) + last_len"
    by (simp add: fragmented_len_def q_def r_def last_len_def)
  have prod: "0 \<le> q * (mp + 32)" using q mp by simp
  have "wrap32 q = q" "wrap32 (mp + 32) = mp + 32" "wrap32 (r + 32) = r + 32"
    "wrap32 (q * (mp + 32)) = q * (mp + 32)"
    "wrap32 (q * (mp + 32) + last_len) = q * (mp + 32) + last_len"
    using assms q r mp ll prod total by (intro wrap32_id; linarith)+
  moreover have "AlignInt32 (r + 32) 32 = aligned_len (r + 32)"
    using r mp by (intro AlignInt32_aligned_len) linarith+
  ultimately show ?thesis
    using mp assms(1)
    by (simp add: required_length_def Let_def sdiv_nonneg_int smod_nonneg_int total last_len_def
        flip: q_def r_def split: if_splits)
qed

lemma AppendFragmentedMessage_fits:
  assumes ok: "appender_ok ap" and st: "term_state m ap tid off fs"
    and src: "source_ok ap src so len" and mp: "0 < mp" "mp mod 32 = 0" "mp \<le> 1073741824"
    and fit: "off + fragmented_len mp len \<le> Capacity (termBuffer ap)"
  shows "\<exists>m' gs. AppendFragmentedMessage m ap src so len mp (Some s) =
             Some (Inr (off + fragmented_len mp len, tid, m')) \<and>
           term_state m' ap tid (off + fragmented_len mp len) (fs @ gs) \<and>
           only_touches m m' ap off (off + fragmented_len mp len) \<and>
           is_fragments ap s tid mp True off (source_bytes m src so len) gs"
proof -
  let ?e = "off + fragmented_len mp len"
  have off: "0 \<le> off" and cap: "Capacity (termBuffer ap) \<le> 1073741824" and tid: "in_i32 tid"
    and apart: "tailCounter ap + 8 \<le> Ptr (termBuffer ap) \<or>
      Ptr (termBuffer ap) + Capacity (termBuffer ap) \<le> tailCounter ap"
    using term_state_offset [OF st] ok st by (auto simp: appender_ok_def term_state_def)
  have len: "0 \<le> len" "len < 2147483648" using src by (auto simp: source_ok_def)
  have flen: "0 \<le> fragmented_len mp len" using mp len by (intro fragmented_len_nonneg)
  define m1 where "m1 = store 8 m (tailCounter ap) (tid * 4294967296 + ?e)"
  obtain m' gs where loop: "fragment_loop ap src so len mp (Some s) tid m1 beginFrag len off = Some (Inr m')"
    and log: "log_at m' (Ptr (termBuffer ap)) off gs ?e"
    and frs: "is_fragments ap s tid mp True off (source_bytes m1 src so len) gs"
    and out: "\<And>x. x < Ptr (termBuffer ap) + off \<or> Ptr (termBuffer ap) + ?e \<le> x \<Longrightarrow> m' x = m1 x"
    using fragment_loop_ok [OF ok src tid mp(1,2) len(1) order_refl off fit, of beginFrag True s m1]
    by (auto simp: add.assoc)
  have "source_bytes m1 src so len = source_bytes m src so len"
    unfolding source_bytes_def m1_def
    by (rule read_store_disjoint) (use src in \<open>auto simp: source_ok_def\<close>)
  moreover have touch: "only_touches m m' ap off ?e"
    by (auto simp: only_touches_def out m1_def store_outside)
  moreover have "get_i64 m' (tailCounter ap) = get_i64 m1 (tailCounter ap)"
    using apart off fit by (intro i64.get_local out) auto
  then have "get_i64 m' (tailCounter ap) = tid * 4294967296 + ?e"
    using raw_tail_in_i64 [OF tid, of ?e] off flen fit cap by (simp add: m1_def mem_simps)
  then have "term_state m' ap tid ?e (fs @ gs)"
    by (rule term_state_extend [OF ok st _ touch log fit])
  moreover have "required_length len mp = Inr (fragmented_len mp len)"
    using len mp fit off cap by (intro required_length_ok) auto
  then have "AppendFragmentedMessage m ap src so len mp (Some s) = Some (Inr (?e, tid, m'))"
    using loop fit
    by (simp add: AppendFragmentedMessage_def tail_add [OF ok st] tail_parts [OF ok st] Let_def
        flip: m1_def)
  ultimately show ?thesis using frs by auto
qed

interpretation frag: append_operation
  "\<lambda>ap (src, so, len, mp, s) m. AppendFragmentedMessage m ap src so len mp (Some s)"
  "\<lambda>ap (src, so, len, mp, s). source_ok ap src so len \<and> 0 < len \<and> 0 < mp \<and> mp mod 32 = 0 \<and>
     mp \<le> 1073741824 \<and> fragmented_len mp len < 2147483648"
  "\<lambda>(src, so, len, mp, s). fragmented_len mp len"
  "\<lambda>ap (src, so, len, mp, s) m tid off gs.
     is_fragments ap s tid mp True off (source_bytes m src so len) gs"
proof (unfold_locales, goal_cases)
  case (1 ap x m tid off fs)
  then show ?case
    using AppendFragmentedMessage_fits [of ap m tid off fs] by (cases x) (auto split: prod.splits)
next
  case (2 ap x m tid off)
  then show ?case
    by (cases x) (auto simp: AppendFragmentedMessage_def raw_tail_read required_length_ok source_ok_def
        Let_def wrap32_id)
next
  case (3 ap x)
  then show ?case by (cases x) (auto simp: fragmented_len_pos)
qed

subsection \<open>Claims\<close>

lemma Appender_Claim_ok:
  assumes ok: "appender_ok ap" and st: "term_state m ap tid off fs" and len: "0 \<le> len"
    and fit: "off + aligned_len (len + 32) \<le> Capacity (termBuffer ap)"
    and a: "a = Ptr (termBuffer ap) + off"
    and m1: "m1 = store 8 m (tailCounter ap) (tid * 4294967296 + (off + aligned_len (len + 32)))"
  shows "Appender_Claim m ap len claim0 =
           Inr (off + aligned_len (len + 32), tid, Wrap a (len + 32),
                header_image m1 (header_writer ap) a off (len + 32) tid)"
proof -
  have off: "0 \<le> off" and cap: "Capacity (termBuffer ap) \<le> 1073741824"
    using term_state_offset [OF st] ok by (auto simp: appender_ok_def)
  have room: "off + (len + 32) \<le> Capacity (termBuffer ap)"
    using fit aligned_len_bounds(1) [of "len + 32"] by linarith
  have "headerWriter_write m1 (header_writer ap) (termBuffer ap) off (len + 32) tid =
      Inr (header_image m1 (header_writer ap) a off (len + 32) tid)"
    unfolding a using room off cap len by (intro headerWriter_write_ok) auto
  moreover have "Claim_Wrap (termBuffer ap) off (len + 32) = Inr (Wrap a (len + 32))"
    using room off cap len by (simp add: Claim_Wrap_def BoundsCheck_ok a)
  moreover have "len \<le> 2147483584" using room off cap by linarith
  ultimately show ?thesis
    using unfragmented_length [OF len] fit
    by (simp add: Appender_Claim_def tail_add [OF ok st] tail_parts [OF ok st] Let_def flip: m1)
qed

lemma claim_commit_log:
  assumes ok: "appender_ok ap" and st: "term_state m ap tid off fs" and len: "0 \<le> len"
    and fit: "off + aligned_len (len + 32) \<le> Capacity (termBuffer ap)"
    and a: "a = Ptr (termBuffer ap) + off"
    and h: "h = header_image (store 8 m (tailCounter ap)
                  (tid * 4294967296 + (off + aligned_len (len + 32)))) (header_writer ap) a off (len + 32) tid"
    and payload: "int (length payload) = len"
  shows "\<exists>m' rv. Claim_Commit (write_bytes h (a + 32) payload) (Wrap a (len + 32)) = Inr m' \<and>
           term_state m' ap tid (off + aligned_len (len + 32))
             (fs @ [data_frame (header_writer ap) tid off unfragmented rv payload])"
proof -
  define c where "c = store 4 (reserved_image (write_bytes h (a + 32) payload) (termBuffer ap) off
                        (len + 32) None) a (len + 32)"
  have "len + 32 < 2147483648"
    using fit aligned_len_bounds(1) [of "len + 32"] term_state_offset [OF st] ok
    by (auto simp: appender_ok_def)
  then have "Claim_Commit (write_bytes h (a + 32) payload) (Wrap a (len + 32)) = Inr c"
    using len by (simp add: Claim_Commit_def buffer_ok Wrap_def c_def reserved_image_def)
  moreover have "\<exists>rv. term_state c ap tid (off + aligned_len (len + 32))
      (fs @ [data_frame (header_writer ap) tid off unfragmented rv payload]) \<and>
      only_touches m c ap off (off + aligned_len (len + 32)) \<and>
      reserved_from None m (termBuffer ap) off payload rv"
    by (rule append_one_frame [OF ok st _ fit a refl refl _ _ c_def])
       (use len payload in \<open>auto simp: h write_bytes_apply mem_simps\<close>)
  ultimately show ?thesis by blast
qed

lemma claim_abort_log:
  assumes ok: "appender_ok ap" and st: "term_state m ap tid off fs" and len: "0 \<le> len"
    and fit: "off + aligned_len (len + 32) \<le> Capacity (termBuffer ap)"
    and a: "a = Ptr (termBuffer ap) + off"
    and m1: "m1 = store 8 m (tailCounter ap) (tid * 4294967296 + (off + aligned_len (len + 32)))"
    and h: "h = header_image m1 (header_writer ap) a off (len + 32) tid"
  shows "\<exists>m' rv. Claim_Abort h (Wrap a (len + 32)) = Inr m' \<and>
           term_state m' ap tid (off + aligned_len (len + 32))
             (fs @ [pad_frame (header_writer ap) tid off rv (len + 32)])"
proof -
  define c where "c = store 4 (store 2 h (a + 6) TypePad) a (len + 32)"
  let ?e = "off + aligned_len (len + 32)"
  have al: "len + 32 \<le> aligned_len (len + 32)" by (rule aligned_len_bounds)
  have off: "0 \<le> off" and cap: "Capacity (termBuffer ap) \<le> 1073741824" and tid: "in_i32 tid"
    and apart: "tailCounter ap + 8 \<le> Ptr (termBuffer ap) \<or>
      Ptr (termBuffer ap) + Capacity (termBuffer ap) \<le> tailCounter ap"
    using term_state_offset [OF st] ok st by (auto simp: appender_ok_def term_state_def)
  have abort: "Claim_Abort h (Wrap a (len + 32)) = Inr c"
    using len off fit al cap by (simp add: Claim_Abort_def buffer_ok Wrap_def c_def)
  have fr: "frame_at c a = pad_frame (header_writer ap) tid off (get_i64 m1 (a + 24)) (len + 32)"
    unfolding c_def h
    by (rule pad_committed) (use len off fit al cap tid ok in \<open>auto simp: in_i32_def appender_ok_def\<close>)
  have out: "c x = m1 x" if "x < a \<or> a + (len + 32) \<le> x" for x
    using that len by (auto simp: c_def store_outside h header_image_outside)
  have "get_i64 c (tailCounter ap) = get_i64 m1 (tailCounter ap)"
    using apart off fit al by (intro i64.get_local out) (auto simp: a)
  then have "get_i64 c (tailCounter ap) = tid * 4294967296 + ?e"
    using raw_tail_in_i64 [OF tid, of ?e] off fit cap al len by (simp add: m1 mem_simps)
  moreover have "only_touches m c ap off ?e"
    using al by (auto simp: only_touches_def out m1 store_outside a)
  moreover have "log_at c (Ptr (termBuffer ap)) off
      [pad_frame (header_writer ap) tid off (get_i64 m1 (a + 24)) (len + 32)] ?e"
    using fr len by (simp add: a pad_frame_def)
  ultimately show ?thesis
    using term_state_extend [OF ok st _ _ _ fit] abort by blast
qed

subsection \<open>Properties\<close>

lemma is_fragments_concat:
  "0 < mp \<Longrightarrow> is_fragments ap s tid mp first off payload gs \<Longrightarrow> concat (map fr_payload gs) = payload"
  by (induction ap s tid mp first off payload gs rule: is_fragments.induct) (auto simp: data_frame_def)

lemma term_state_empty:
  "in_i32 tid \<Longrightarrow> 0 \<le> Capacity (termBuffer ap) \<Longrightarrow>
   term_state (store 8 m (tailCounter ap) (tid * 4294967296)) ap tid 0 []"
  using raw_tail_in_i64 [of tid 0] by (simp add: term_state_def mem_simps)

definition sample_appender :: Appender where
  "sample_appender =
     \<lparr>termBuffer = Wrap 4096 1024, tailCounter = 64,
      header_writer = \<lparr>sessionID = 11, streamID = 22\<rparr>\<rparr>"

lemmas sample_simps =
  sample_appender_def appender_ok_def source_ok_def Wrap_def in_i32_def aligned_len_def
  fragmented_len_def

lemma sample_state:
  "term_state (store 8 (\<lambda>_. 0) 64 (5 * 4294967296)) sample_appender 5 0 []"
  using term_state_empty [of 5 sample_appender "\<lambda>_. 0"] by (simp add: sample_simps)

text \<open>
  (C10) An unfragmented append that fits in the term returns the offset behind the new frame,
  and the committed log is the old log followed by one frame: unfragmented flags, the
  appender's session and stream, the term id of the raw tail, the frame's own offset and the
  message bytes as payload. The raw tail moves on by the aligned length, no byte outside the
  frame and the tail changes, and the reserved value is the supplier's, asked for when the
  payload was in place.
\<close>

theorem AppendUnfragmentedMessage_appends:
  assumes "appender_ok ap" and "term_state m ap tid off fs" and "source_ok ap src so len"
    and "off + aligned_len (len + 32) \<le> Capacity (termBuffer ap)"
  shows "\<exists>m' rv. AppendUnfragmentedMessage m ap src so len supplier =
             Inr (off + aligned_len (len + 32), tid, m') \<and>
           term_state m' ap tid (off + aligned_len (len + 32))
             (fs @ [data_frame (header_writer ap) tid off unfragmented rv (source_bytes m src so len)]) \<and>
           only_touches m m' ap off (off + aligned_len (len + 32)) \<and>
           reserved_from supplier m (termBuffer ap) off (source_bytes m src so len) rv"
  using assms by (rule AppendUnfragmentedMessage_fits)

theorem AppendUnfragmentedMessage_appends_witness:
  "\<exists>m' rv. AppendUnfragmentedMessage (store 8 (\<lambda>_. 0) 64 (5 * 4294967296)) sample_appender
             (Wrap 9000 100) 10 50 None = Inr (96, 5, m') \<and>
           term_state m' sample_appender 5 96
             ([] @ [data_frame (header_writer sample_appender) 5 0 unfragmented rv
                (source_bytes (store 8 (\<lambda>_. 0) 64 (5 * 4294967296)) (Wrap 9000 100) 10 50)]) \<and>
           only_touches (store 8 (\<lambda>_. 0) 64 (5 * 4294967296)) m' sample_appender 0 96 \<and>
           reserved_from None (store 8 (\<lambda>_. 0) 64 (5 * 4294967296)) (termBuffer sample_appender) 0
             (source_bytes (store 8 (\<lambda>_. 0) 64 (5 * 4294967296)) (Wrap 9000 100) 10 50) rv"
  using AppendUnfragmentedMessage_appends [OF _ sample_state, of "Wrap 9000 100" 10 50 None]
  by (simp add: sample_simps)

text \<open>
  (C4) A fragmented append that fits, with a payload limit that is a multiple of the frame
  alignment, ends and commits a chain of fragments behind the old log: every payload but the
  last is full, the first frame alone has the begin flag and the last alone the end flag, and
  the payloads in order make up the message. The log ends where the returned offset says.
\<close>

theorem AppendFragmentedMessage_appends:
  assumes "appender_ok ap" and "term_state m ap tid off fs" and "source_ok ap src so len"
    and "0 < mp" and "mp mod 32 = 0" and "mp \<le> 1073741824"
    and "off + fragmented_len mp len \<le> Capacity (termBuffer ap)"
  shows "\<exists>m' gs. AppendFragmentedMessage m ap src so len mp (Some s) =
             Some (Inr (off + fragmented_len mp len, tid, m')) \<and>
           term_state m' ap tid (off + fragmented_len mp len) (fs @ gs) \<and>
           only_touches m m' ap off (off + fragmented_len mp len) \<and>
           is_fragments ap s tid mp True off (source_bytes m src so len) gs \<and>
           concat (map fr_payload gs) = source_bytes m src so len"
  using AppendFragmentedMessage_fits [OF assms, of s] is_fragments_concat [OF assms(4)] by blast

theorem AppendFragmentedMessage_appends_witness:
  "\<exists>m' gs. AppendFragmentedMessage (store 8 (\<lambda>_. 0) 64 (5 * 4294967296)) sample_appender
             (Wrap 9000 200) 10 150 64 (Some DefaultReservedValueSupplier) = Some (Inr (256, 5, m')) \<and>
           term_state m' sample_appender 5 256 ([] @ gs) \<and>
           only_touches (store 8 (\<lambda>_. 0) 64 (5 * 4294967296)) m' sample_appender 0 256 \<and>
           is_fragments sample_appender DefaultReservedValueSupplier 5 64 True 0
             (source_bytes (store 8 (\<lambda>_. 0) 64 (5 * 4294967296)) (Wrap 9000 200) 10 150) gs \<and>
           concat (map fr_payload gs) =
             source_bytes (store 8 (\<lambda>_. 0) 64 (5 * 4294967296)) (Wrap 9000 200) 10 150"
  using AppendFragmentedMessage_appends [OF _ sample_state, of "Wrap 9000 200" 10 150 64
      DefaultReservedValueSupplier]
  by (simp add: sample_simps)

text \<open>
  (C19) An append that does not fit reports that the term is full. It commits at most one frame,
  a padding frame that fills the term to its last byte, so a reader sees the same messages as
  before; nothing outside the rest of the term and the raw tail is written.
\<close>

theorem AppendUnfragmentedMessage_trips:
  assumes "appender_ok ap" and "term_state m ap tid off fs" and "source_ok ap src so len"
    and "len \<le> 2147483584" and "Capacity (termBuffer ap) < off + aligned_len (len + 32)"
  shows "\<exists>m' gs. AppendUnfragmentedMessage m ap src so len supplier = Inr (AppenderTripped, tid, m') \<and>
           get_i64 m' (tailCounter ap) = tid * 4294967296 + (off + aligned_len (len + 32)) \<and>
           log_at m' (Ptr (termBuffer ap)) 0 (fs @ gs) (Capacity (termBuffer ap)) \<and>
           length gs \<le> 1 \<and> list_all is_padding gs \<and>
           only_touches m m' ap off (Capacity (termBuffer ap))"
  using unfrag.trips [of ap "(src, so, len, supplier)" m tid off fs] assms by simp

theorem AppendUnfragmentedMessage_trips_witness:
  "\<exists>m' gs. AppendUnfragmentedMessage (store 8 (\<lambda>_. 0) 64 (5 * 4294967296)) sample_appender
             (Wrap 9000 2000) 0 1000 None = Inr (AppenderTripped, 5, m') \<and>
           get_i64 m' (tailCounter sample_appender) = 5 * 4294967296 + (0 + aligned_len (1000 + 32)) \<and>
           log_at m' (Ptr (termBuffer sample_appender)) 0 ([] @ gs) (Capacity (termBuffer sample_appender)) \<and>
           length gs \<le> 1 \<and> list_all is_padding gs \<and>
           only_touches (store 8 (\<lambda>_. 0) 64 (5 * 4294967296)) m' sample_appender 0
             (Capacity (termBuffer sample_appender))"
  by (rule AppendUnfragmentedMessage_trips [OF _ sample_state]) (simp_all add: sample_simps)

text \<open>
  (C20) A claim reserves its frame uncommitted: the frame length field is negative, so no reader
  passes it. Whatever message of the claimed length is then written into the claim, Commit
  appends exactly that message to the log, and Abort turns the claimed space into padding.
\<close>

theorem Claim_commit_or_abort:
  assumes "appender_ok ap" and "term_state m ap tid off fs" and "0 \<le> len"
    and "off + aligned_len (len + 32) \<le> Capacity (termBuffer ap)"
  shows "\<exists>m1 claim. Appender_Claim m ap len claim0 = Inr (off + aligned_len (len + 32), tid, claim, m1) \<and>
           Ptr claim = Ptr (termBuffer ap) + off \<and> Claim_Length claim = len \<and>
           get_i32 m1 (Ptr claim) = - (len + 32) \<and>
           (\<forall>payload. int (length payload) = len \<longrightarrow>
              (\<exists>m' rv. Claim_Commit (write_bytes m1 (Ptr claim + Claim_Offset) payload) claim = Inr m' \<and>
                 term_state m' ap tid (off + aligned_len (len + 32))
                   (fs @ [data_frame (header_writer ap) tid off unfragmented rv payload]))) \<and>
           (\<exists>m' rv. Claim_Abort m1 claim = Inr m' \<and>
              term_state m' ap tid (off + aligned_len (len + 32))
                (fs @ [pad_frame (header_writer ap) tid off rv (len + 32)]))"
proof -
  have "len + 32 \<le> 1073741824" "0 \<le> off"
    using assms(3,4) aligned_len_bounds(1) [of "len + 32"] term_state_offset [OF assms(2)] assms(1)
    by (auto simp: appender_ok_def)
  then have len: "Claim_Length (Wrap a (len + 32)) = len" "wrap32 (- (len + 32)) = - (len + 32)" for a
    using assms(3) by (auto simp: Claim_Length_def Wrap_def intro!: wrap32_id)
  let ?a = "Ptr (termBuffer ap) + off"
  let ?h = "header_image (store 8 m (tailCounter ap) (tid * 4294967296 + (off + aligned_len (len + 32))))
              (header_writer ap) ?a off (len + 32) tid"
  have ptr: "Ptr (Wrap ?a (len + 32)) = ?a" by (simp add: Wrap_def)
  show ?thesis
    using Appender_Claim_ok [OF assms refl refl, of claim0] len
      claim_commit_log [OF assms refl refl] claim_abort_log [OF assms refl refl refl]
    by (intro exI [where P = "\<lambda>x. \<exists>y. P x y" for P, of _ ?h]
          exI [where P = "\<lambda>y. R y \<and> Q y" for R Q, of _ "Wrap ?a (len + 32)"])
       (simp only: ptr Claim_Offset_def DataFrameHeader_Length_def header_image_fields simp_thms, blast)
qed

theorem Claim_commit_or_abort_witness:
  "\<exists>m1 claim. Appender_Claim (store 8 (\<lambda>_. 0) 64 (5 * 4294967296)) sample_appender 40 (Wrap 0 0) =
        Inr (96, 5, claim, m1) \<and> Claim_Length claim = 40 \<and> get_i32 m1 (Ptr claim) = - 72"
  using Claim_commit_or_abort [OF _ sample_state, of 40 "Wrap 0 0"] by (auto simp: sample_simps)

end
