(* ===== verification/Publication.thy ===== *)
theory Publication
  imports Append_Refinement
begin

text \<open>
  \<open>aeron/publication.go\<close> and \<open>aeron/position.go\<close>: offering messages to the active term, flow
  control by the publication limit counter, and rotation to the next term. The conductor a
  publication belongs to is part of the client conductor's theory.
\<close>

subsection \<open>Position counters\<close>

record Position =
  pos_buffer :: buffer
  pos_id :: int
  pos_offset :: int

text \<open>\<open>NewPosition\<close> reads the counter for its log line, so it fails where a read fails.\<close>

definition NewPosition :: "mem \<Rightarrow> buffer \<Rightarrow> int \<Rightarrow> Position res" where
  "NewPosition m buf ident =
     (let offset = wrap32 (wrap32 (ident * 2) * CacheLineLength)
      in bindR (GetInt64 m buf offset) (\<lambda>_.
         Inr \<lparr>pos_buffer = buf, pos_id = ident, pos_offset = offset\<rparr>))"

definition Position_get :: "mem \<Rightarrow> Position \<Rightarrow> int res" where
  "Position_get m pos = GetInt64 m (pos_buffer pos) (pos_offset pos)"

definition Position_set :: "mem \<Rightarrow> Position \<Rightarrow> int \<Rightarrow> mem res" where
  "Position_set m pos value = PutInt64 m (pos_buffer pos) (pos_offset pos) value"

subsection \<open>Publications\<close>

definition NotConnected :: int where [simp]: "NotConnected = - 1"
definition BackPressured :: int where [simp]: "BackPressured = - 2"
definition AdminAction :: int where [simp]: "AdminAction = - 3"
definition PublicationClosed :: int where [simp]: "PublicationClosed = - 4"
definition MaxPositionExceeded :: int where [simp]: "MaxPositionExceeded = - 5"

record Publication =
  pub_channel :: "byte list"
  pub_regID :: int
  pub_originalRegID :: int
  maxPossiblePosition :: int
  pub_streamID :: int
  pub_sessionID :: int
  pub_initialTermID :: int
  maxPayloadLength :: int
  maxMessageLength :: int
  pub_positionBitsToShift :: int
  pubLimit :: Position
  pub_channelStatusIndicatorID :: int
  pub_isClosed :: bool
  metaData :: LogBufferMetaData
  appenders :: "Appender list"

fun make_appenders :: "mem \<Rightarrow> LogBuffers \<Rightarrow> int list \<Rightarrow> Appender list res" where
  "make_appenders m logBuffers [] = Inr []"
| "make_appenders m logBuffers (i # is) =
     bindR (MakeAppender m logBuffers i) (\<lambda>ap.
     bindR (make_appenders m logBuffers is) (\<lambda>aps. Inr (ap # aps)))"

definition trailing_zeroes :: "int \<Rightarrow> int" where
  "trailing_zeroes capacity = uint (NumberOfTrailingZeroes (word_of_int capacity))"

text \<open>Fields a new publication leaves at Go's zero values are those the conductor sets.\<close>

definition NewPublication :: "mem \<Rightarrow> LogBuffers \<Rightarrow> Publication res" where
  "NewPublication m logBuffers =
     bindR (Buffer logBuffers 0) (\<lambda>term0.
     let termBufferCapacity = Capacity term0;
         meta = lb_meta logBuffers
     in bindR (make_appenders m logBuffers [0, 1, 2]) (\<lambda>aps.
        Inr \<lparr>pub_channel = [], pub_regID = 0, pub_originalRegID = 0,
             maxPossiblePosition = wrap64 (termBufferCapacity * 2 ^ 31),
             pub_streamID = 0, pub_sessionID = 0,
             pub_initialTermID = Int32Field_Get m (InitTermID meta),
             maxPayloadLength = wrap32 (Int32Field_Get m (MTULen meta) - DataFrameHeader_Length),
             maxMessageLength = ComputeMaxMessageLength termBufferCapacity,
             pub_positionBitsToShift = trailing_zeroes termBufferCapacity,
             pubLimit = \<lparr>pos_buffer = Wrap 0 0, pos_id = 0, pos_offset = 0\<rparr>,
             pub_channelStatusIndicatorID = 0, pub_isClosed = False, metaData = meta,
             appenders = aps\<rparr>))"

definition Publication_IsConnected :: "mem \<Rightarrow> Publication \<Rightarrow> bool" where
  "Publication_IsConnected m pub \<longleftrightarrow>
     \<not> pub_isClosed pub \<and> Int32Field_Get m (meta_IsConnected (metaData pub)) = 1"

definition IsOriginal :: "Publication \<Rightarrow> bool" where
  "IsOriginal pub \<longleftrightarrow> pub_originalRegID pub = pub_regID pub"

definition computeTermBeginPosition :: "int \<Rightarrow> int \<Rightarrow> int \<Rightarrow> int" where
  "computeTermBeginPosition activeTermID positionBitsToShift initialTermID =
     (let termCount = wrap32 (activeTermID - initialTermID) in shl64 termCount positionBitsToShift)"

definition nextPartitionIndex :: "int \<Rightarrow> int res" where
  "nextPartitionIndex currentIndex = FastMod3 (word_of_int currentIndex + 1)"

text \<open>The appender of the active term, from the active term count.\<close>

definition active_appender :: "mem \<Rightarrow> Publication \<Rightarrow> (int \<times> Appender) res" where
  "active_appender m pub =
     (let termCount = Int32Field_Get m (ActiveTermCountOff (metaData pub));
          termIndex = termCount smod PartitionCount
      in bindR (index_slice (appenders pub) termIndex) (\<lambda>termAppender.
         Inr (termCount, termAppender)))"

definition Publication_Position :: "mem \<Rightarrow> Publication \<Rightarrow> int res" where
  "Publication_Position m pub =
     (if pub_isClosed pub then Inr PublicationClosed
      else
        bindR (active_appender m pub) (\<lambda>(termCount, termAppender).
        let rawTail = RawTail m termAppender;
            termOffset = low32 rawTail;
            termId = TermID rawTail
        in Inr (wrap64 (computeTermBeginPosition termId (pub_positionBitsToShift pub)
                          (pub_initialTermID pub) + termOffset))))"

definition backPressureStatus :: "mem \<Rightarrow> Publication \<Rightarrow> int \<Rightarrow> int \<Rightarrow> int" where
  "backPressureStatus m pub currentPosition messageLength =
     (if wrap64 (currentPosition + messageLength) \<ge> maxPossiblePosition pub then MaxPositionExceeded
      else if Int32Field_Get m (meta_IsConnected (metaData pub)) = 1 then BackPressured
      else NotConnected)"

definition newPosition ::
  "mem \<Rightarrow> Publication \<Rightarrow> int \<Rightarrow> int \<Rightarrow> int \<Rightarrow> int \<Rightarrow> int \<Rightarrow> (int \<times> mem) res" where
  "newPosition m pub termCount termOffset termId position resultingOffset =
     (if resultingOffset > 0 then Inr (wrap64 (wrap64 (position - termOffset) + resultingOffset), m)
      else if wrap64 (position + termOffset) > maxPossiblePosition pub then
        Inr (MaxPositionExceeded, m)
      else bindR (RotateLog_alone m (metaData pub) termCount termId) (\<lambda>m. Inr (AdminAction, m)))"

definition checkForMaxMessageLength :: "Publication \<Rightarrow> int \<Rightarrow> unit res" where
  "checkForMaxMessageLength pub len =
     (if len > maxMessageLength pub then Inl (Panic ''Encoded message exceeds maxMessageLength'')
      else Inr ())"

definition checkForMaxPayloadLength :: "Publication \<Rightarrow> int \<Rightarrow> unit res" where
  "checkForMaxPayloadLength pub len =
     (if len > maxPayloadLength pub then Inl (Panic ''Encoded message exceeds maxPayloadLength'')
      else Inr ())"

text \<open>What an append returned, turned into the result of the offer.\<close>

definition finish_offer :: "Publication \<Rightarrow> int \<Rightarrow> int \<Rightarrow> int \<Rightarrow> (int \<times> int \<times> mem) res \<Rightarrow> (int \<times> mem) res" where
  "finish_offer pub termCount termOffset position r =
     bindR r (\<lambda>(resultingOffset, termId, m).
     newPosition m pub termCount termOffset termId position resultingOffset)"

definition Offer ::
  "mem \<Rightarrow> Publication \<Rightarrow> buffer \<Rightarrow> int \<Rightarrow> int \<Rightarrow> ReservedValueSupplier option \<Rightarrow> (int \<times> mem) res option" where
  "Offer m pub buf offset len reservedValueSupplier =
     (if pub_isClosed pub then Some (Inr (PublicationClosed, m))
      else
        (let supplier = (case reservedValueSupplier of
                           None \<Rightarrow> DefaultReservedValueSupplier | Some s \<Rightarrow> s)
         in case bindR (Position_get m (pubLimit pub)) (\<lambda>limit.
                 bindR (active_appender m pub) (\<lambda>(termCount, termAppender).
                 Inr (limit, termCount, termAppender))) of
              Inl e \<Rightarrow> Some (Inl e)
            | Inr (limit, termCount, termAppender) \<Rightarrow>
                (let rawTail = RawTail m termAppender;
                     termOffset = low32 rawTail;
                     termId = TermID rawTail;
                     position = wrap64 (computeTermBeginPosition termId
                       (pub_positionBitsToShift pub) (pub_initialTermID pub) + termOffset)
                 in if termCount \<noteq> wrap32 (termId - Int32Field_Get m (InitTermID (metaData pub))) then
                      Some (Inr (AdminAction, m))
                    else if position \<ge> limit then
                      Some (Inr (backPressureStatus m pub position len, m))
                    else if len \<le> maxPayloadLength pub then
                      Some (finish_offer pub termCount termOffset position
                        (AppendUnfragmentedMessage m termAppender buf offset len (Some supplier)))
                    else
                      (case checkForMaxMessageLength pub len of
                         Inl e \<Rightarrow> Some (Inl e)
                       | Inr _ \<Rightarrow>
                           map_option (finish_offer pub termCount termOffset position)
                             (AppendFragmentedMessage m termAppender buf offset len
                                (maxPayloadLength pub) (Some supplier))))))"

definition Offer2 ::
  "mem \<Rightarrow> Publication \<Rightarrow> buffer \<Rightarrow> int \<Rightarrow> int \<Rightarrow> buffer \<Rightarrow> int \<Rightarrow> int \<Rightarrow>
   ReservedValueSupplier option \<Rightarrow> (int \<times> mem) res option" where
  "Offer2 m pub bufferOne offsetOne lengthOne bufferTwo offsetTwo lengthTwo reservedValueSupplier =
     (if lengthOne < 0 then Some (Inr (0, m))
      else if lengthTwo < 0 then Some (Inr (0, m))
      else
        (let len = wrap32 (lengthOne + lengthTwo)
         in if len < 0 then Some (Inl (Panic ''Length overflow''))
            else if pub_isClosed pub then Some (Inr (PublicationClosed, m))
            else
        (let supplier = (case reservedValueSupplier of
                           None \<Rightarrow> DefaultReservedValueSupplier | Some s \<Rightarrow> s)
         in case bindR (Position_get m (pubLimit pub)) (\<lambda>limit.
                 bindR (active_appender m pub) (\<lambda>(termCount, termAppender).
                 Inr (limit, termCount, termAppender))) of
              Inl e \<Rightarrow> Some (Inl e)
            | Inr (limit, termCount, termAppender) \<Rightarrow>
                (let rawTail = RawTail m termAppender;
                     termOffset = low32 rawTail;
                     termId = TermID rawTail;
                     position = wrap64 (computeTermBeginPosition termId
                       (pub_positionBitsToShift pub) (pub_initialTermID pub) + termOffset)
                 in if termCount \<noteq> wrap32 (termId - Int32Field_Get m (InitTermID (metaData pub))) then
                      Some (Inr (AdminAction, m))
                    else if position \<ge> limit then
                      Some (Inr (backPressureStatus m pub position len, m))
                    else if len \<le> maxPayloadLength pub then
                      Some (finish_offer pub termCount termOffset position
                        (AppendUnfragmentedMessage2 m termAppender bufferOne offsetOne lengthOne
                           bufferTwo offsetTwo lengthTwo (Some supplier)))
                    else
                      (case checkForMaxMessageLength pub len of
                         Inl e \<Rightarrow> Some (Inl e)
                       | Inr _ \<Rightarrow>
                           map_option (finish_offer pub termCount termOffset position)
                             (AppendFragmentedMessage2 m termAppender bufferOne offsetOne lengthOne
                                bufferTwo offsetTwo lengthTwo (maxPayloadLength pub)
                                (Some supplier)))))))"

definition TryClaim :: "mem \<Rightarrow> Publication \<Rightarrow> int \<Rightarrow> Claim \<Rightarrow> (int \<times> Claim \<times> mem) res" where
  "TryClaim m pub len bufferClaim =
     (if pub_isClosed pub then Inr (PublicationClosed, bufferClaim, m)
      else
        bindR (checkForMaxPayloadLength pub len) (\<lambda>_.
        bindR (Position_get m (pubLimit pub)) (\<lambda>limit.
        bindR (active_appender m pub) (\<lambda>(termCount, termAppender).
        let rawTail = RawTail m termAppender;
            termOffset = low32 rawTail;
            position = wrap64 (computeTermBeginPosition (TermID rawTail)
              (pub_positionBitsToShift pub) (pub_initialTermID pub) + termOffset)
        in if position < limit then
             bindR (Appender_Claim m termAppender len bufferClaim) (\<lambda>(resultingOffset, termId, claim, m).
             bindR (newPosition m pub termCount termOffset termId position resultingOffset) (\<lambda>(r, m).
             Inr (r, claim, m)))
           else Inr (backPressureStatus m pub position len, bufferClaim, m)))))"

subsection \<open>The invariant of a publication\<close>

text \<open>
  The static part: the three appenders cover the three terms of \<open>2 ^ k\<close> bytes from \<open>base\<close> on,
  the meta data lies behind them at \<open>p\<close>, and the limits are those \<^const>\<open>NewPublication\<close> derives
  from a term length and an MTU that is a multiple of the frame alignment.
\<close>

definition part_appender :: "int \<Rightarrow> int \<Rightarrow> nat \<Rightarrow> headerWriter \<Rightarrow> int \<Rightarrow> Appender" where
  "part_appender p base k hw i =
     \<lparr>termBuffer = Wrap (base + i * 2 ^ k) (2 ^ k), tailCounter = p + 8 * i, header_writer = hw\<rparr>"

definition pub_wf :: "Publication \<Rightarrow> int \<Rightarrow> int \<Rightarrow> nat \<Rightarrow> headerWriter \<Rightarrow> bool" where
  "pub_wf pub p base k hw \<longleftrightarrow>
     metaData pub = meta_at p \<and> appenders pub = map (part_appender p base k hw) [0, 1, 2] \<and>
     5 \<le> k \<and> k \<le> 30 \<and> base + 3 * 2 ^ k \<le> p \<and>
     in_i32 (sessionID hw) \<and> in_i32 (streamID hw) \<and> in_i32 (pub_initialTermID pub) \<and>
     pub_positionBitsToShift pub = int k \<and> maxPossiblePosition pub = 2 ^ k * 2147483648 \<and>
     32 \<le> maxPayloadLength pub \<and> maxPayloadLength pub mod 32 = 0 \<and>
     maxPayloadLength pub \<le> 1073741824 \<and> maxMessageLength pub = 2 ^ k div 8 \<and>
     0 \<le> pos_offset (pubLimit pub) \<and>
     pos_offset (pubLimit pub) + 8 \<le> Capacity (pos_buffer (pubLimit pub)) \<and>
     Capacity (pos_buffer (pubLimit pub)) < 2147483648"

text \<open>
  The dynamic part: with \<open>tc\<close> terms completed, the active term holds the frames \<open>fs\<close> up to
  \<open>off\<close>, and the raw tails of the next two partitions are those of the two terms before.
\<close>

definition pub_inv ::
  "mem \<Rightarrow> Publication \<Rightarrow> int \<Rightarrow> int \<Rightarrow> nat \<Rightarrow> headerWriter \<Rightarrow> int \<Rightarrow> int \<Rightarrow> frame list \<Rightarrow> bool" where
  "pub_inv m pub p base k hw tc off fs \<longleftrightarrow>
     pub_wf pub p base k hw \<and> 0 \<le> tc \<and> tc < 2147483648 \<and>
     get_i32 m (p + 24) = tc \<and> get_i32 m (p + 264) = pub_initialTermID pub \<and>
     term_state m (part_appender p base k hw (tc mod 3)) (wrap32 (pub_initialTermID pub + tc)) off fs \<and>
     TermID (get_i64 m (p + 8 * ((tc + 1) mod 3))) = wrap32 (pub_initialTermID pub + tc - 2) \<and>
     TermID (get_i64 m (p + 8 * ((tc + 2) mod 3))) = wrap32 (pub_initialTermID pub + tc - 1)"

lemma pub_invD:
  assumes "pub_inv m pub p base k hw tc off fs"
  shows "pub_wf pub p base k hw" and "0 \<le> tc" and "tc < 2147483648" and "get_i32 m (p + 24) = tc"
    and "get_i32 m (p + 264) = pub_initialTermID pub"
    and "term_state m (part_appender p base k hw (tc mod 3)) (wrap32 (pub_initialTermID pub + tc)) off fs"
    and "TermID (get_i64 m (p + 8 * ((tc + 1) mod 3))) = wrap32 (pub_initialTermID pub + tc - 2)"
    and "TermID (get_i64 m (p + 8 * ((tc + 2) mod 3))) = wrap32 (pub_initialTermID pub + tc - 1)"
  using assms unfolding pub_inv_def by blast+

lemma pow2_bounds:
  assumes "5 \<le> k" and "k \<le> (30::nat)"
  shows "32 \<le> (2::int) ^ k" and "(2::int) ^ k \<le> 1073741824" and "(2::int) ^ k mod 32 = 0"
proof -
  have "(2::int) ^ 5 \<le> 2 ^ k" using assms(1) by (rule power_increasing) simp
  then show "32 \<le> (2::int) ^ k" by simp
  have "(2::int) ^ k \<le> 2 ^ 30" using assms(2) by (rule power_increasing) simp
  then show "(2::int) ^ k \<le> 1073741824" by simp
  have "(2::int) ^ 5 dvd 2 ^ k" using assms(1) by (rule le_imp_power_dvd)
  then show "(2::int) ^ k mod 32 = 0" by simp
qed

lemma part_appender_ok:
  assumes "pub_wf pub p base k hw" and "0 \<le> i" and "i < 3"
  shows "appender_ok (part_appender p base k hw i)"
proof -
  have "i * 2 ^ k \<le> 2 * 2 ^ k" using assms(3) by (intro mult_right_mono) auto
  moreover have "base + 3 * 2 ^ k \<le> p" using assms(1) by (simp add: pub_wf_def)
  ultimately have "base + i * 2 ^ k + 2 ^ k \<le> p + 8 * i" using assms(2) by linarith
  then show ?thesis
    using assms pow2_bounds [of k] by (auto simp: pub_wf_def appender_ok_def part_appender_def Wrap_def)
qed

lemma part_appender_simps [simp]:
  "termBuffer (part_appender p base k hw i) = Wrap (base + i * 2 ^ k) (2 ^ k)"
  "tailCounter (part_appender p base k hw i) = p + 8 * i"
  "header_writer (part_appender p base k hw i) = hw"
  by (simp_all add: part_appender_def)

lemma active_appender_ok:
  assumes "pub_inv m pub p base k hw tc off fs"
  shows "active_appender m pub = Inr (tc, part_appender p base k hw (tc mod 3))"
proof -
  have "tc mod 3 = 0 \<or> tc mod 3 = 1 \<or> tc mod 3 = 2" by linarith
  moreover have "ActiveTermCountOff (meta_at p) = p + 24" by (simp add: meta_at_def)
  ultimately show ?thesis
    using assms
    by (auto simp: active_appender_def pub_inv_def pub_wf_def Int32Field_Get_def Let_def
        smod_nonneg_int index_slice_def numeral_2_eq_2)
qed

lemma wrap32_count: "in_i32 tc \<Longrightarrow> wrap32 (wrap32 (i + tc) - i) = tc"
proof -
  assume "in_i32 tc"
  moreover have "wrap32 (wrap32 (i + tc) - i) = wrap32 tc"
    by (simp add: wrap32_def mod_simps)
  ultimately show ?thesis by simp
qed

lemma shl64_pow:
  assumes "0 \<le> tc" and "tc < 2147483648" and "k \<le> 30"
  shows "shl64 tc (int k) = tc * 2 ^ k" and "0 \<le> tc * 2 ^ k" and "tc * 2 ^ k \<le> 2147483647 * 1073741824"
proof -
  have "(2::int) ^ k \<le> 2 ^ 30" using assms(3) by (rule power_increasing) simp
  then have k: "(2::int) ^ k \<le> 1073741824" by simp
  show hi: "tc * 2 ^ k \<le> 2147483647 * 1073741824"
    using assms k by (intro mult_mono) auto
  show lo: "0 \<le> tc * 2 ^ k" using assms by simp
  show "shl64 tc (int k) = tc * 2 ^ k"
    using assms(3) hi lo by (simp add: shl64_def Let_def wrap64_id)
qed

text \<open>The raw tail of the active term, its parts and the stream position they make.\<close>

lemma pub_tail:
  assumes inv: "pub_inv m pub p base k hw tc off fs" and ap: "ap = part_appender p base k hw (tc mod 3)"
    and tid: "tid = wrap32 (pub_initialTermID pub + tc)"
  shows "TermID (RawTail m ap) = tid" and "low32 (RawTail m ap) = off"
    and "computeTermBeginPosition tid (pub_positionBitsToShift pub) (pub_initialTermID pub) = tc * 2 ^ k"
    and "wrap64 (tc * 2 ^ k + off) = tc * 2 ^ k + off"
    and "wrap32 (tid - get_i32 m (p + 264)) = tc" and "0 \<le> off" and "off \<le> 2 ^ k"
    and "appender_ok ap" and "term_state m ap tid off fs"
proof -
  have wf: "pub_wf pub p base k hw" and tc: "0 \<le> tc" "tc < 2147483648" and k: "k \<le> 30"
    using inv by (auto simp: pub_inv_def pub_wf_def)
  show ok: "appender_ok ap" unfolding ap by (rule part_appender_ok [OF wf]) simp_all
  show st: "term_state m ap tid off fs" using inv by (simp add: pub_inv_def ap tid)
  show "TermID (RawTail m ap) = tid" "low32 (RawTail m ap) = off"
    using tail_parts [OF ok st] st by (simp_all add: RawTail_def Int64Field_Get_def term_state_def)
  show off: "0 \<le> off" "off \<le> 2 ^ k" using term_state_offset [OF st] by (simp_all add: ap)
  have "in_i32 tc" using tc by (simp add: in_i32_def)
  then have count: "wrap32 (tid - pub_initialTermID pub) = tc"
    using wrap32_count [of tc "pub_initialTermID pub"] by (simp add: tid)
  then show "wrap32 (tid - get_i32 m (p + 264)) = tc" using inv by (simp add: pub_inv_def)
  show "computeTermBeginPosition tid (pub_positionBitsToShift pub) (pub_initialTermID pub) = tc * 2 ^ k"
    using count shl64_pow [OF tc k] wf by (simp add: computeTermBeginPosition_def pub_wf_def)
  have "off \<le> 1073741824" using off pow2_bounds(2) [of k] wf by (auto simp: pub_wf_def)
  then show "wrap64 (tc * 2 ^ k + off) = tc * 2 ^ k + off"
    using shl64_pow [OF tc k] off(1) by (intro wrap64_id) linarith+
qed

subsection \<open>Appends keep the invariant\<close>

lemma mod3_succ:
  fixes tc :: int
  shows "(tc + 1) mod 3 \<noteq> tc mod 3" "(tc + 2) mod 3 \<noteq> tc mod 3" "(tc + 2) mod 3 \<noteq> (tc + 1) mod 3"
    "(tc + 1 + 1) mod 3 = (tc + 2) mod 3" "(tc + 1 + 2) mod 3 = tc mod 3"
  by presburger+

lemma partition_below_meta:
  assumes "pub_wf pub p base k hw" and "0 \<le> i" and "i < 3" and "e \<le> 2 ^ k"
  shows "base + i * 2 ^ k + e \<le> p"
proof -
  have "i * 2 ^ k \<le> 2 * 2 ^ k" using assms(3) by (intro mult_right_mono) auto
  moreover have "base + 3 * 2 ^ k \<le> p" using assms(1) by (simp add: pub_wf_def)
  ultimately show ?thesis using assms(4) by linarith
qed

text \<open>Memory of the meta data that an append in the active term does not touch.\<close>

lemma append_keeps_meta:
  assumes wf: "pub_wf pub p base k hw"
    and touch: "only_touches m m' (part_appender p base k hw (tc mod 3)) off e" and e: "e \<le> 2 ^ k"
  shows "get_i32 m' (p + 24) = get_i32 m (p + 24)" and "get_i32 m' (p + 264) = get_i32 m (p + 264)"
    and "0 \<le> j \<Longrightarrow> j < 3 \<Longrightarrow> j \<noteq> tc mod 3 \<Longrightarrow> get_i64 m' (p + 8 * j) = get_i64 m (p + 8 * j)"
proof -
  have i: "0 \<le> tc mod 3" "tc mod 3 < 3" by simp_all
  have below: "base + tc mod 3 * 2 ^ k + e \<le> p"
    by (rule partition_below_meta [OF wf i e])
  have same: "m' x = m x" if "p \<le> x" "x < p + 8 * (tc mod 3) \<or> p + 8 * (tc mod 3) + 8 \<le> x" for x
    using touch that below by (auto simp: only_touches_def)
  show "get_i32 m' (p + 24) = get_i32 m (p + 24)" "get_i32 m' (p + 264) = get_i32 m (p + 264)"
    using i by (intro i32.get_local same; auto)+
  show "get_i64 m' (p + 8 * j) = get_i64 m (p + 8 * j)" if "0 \<le> j" "j < 3" "j \<noteq> tc mod 3"
    using i that by (intro i64.get_local same) auto
qed

lemma pub_inv_append:
  assumes inv: "pub_inv m pub p base k hw tc off fs"
    and touch: "only_touches m m' (part_appender p base k hw (tc mod 3)) off e" and e: "e \<le> 2 ^ k"
    and st: "term_state m' (part_appender p base k hw (tc mod 3)) (wrap32 (pub_initialTermID pub + tc)) e fs'"
  shows "pub_inv m' pub p base k hw tc e fs'"
proof -
  have wf: "pub_wf pub p base k hw" using inv by (simp add: pub_inv_def)
  note kept = append_keeps_meta [OF wf touch e]
  show ?thesis
    unfolding pub_inv_def
    using pub_invD [OF inv] st kept(1,2) kept(3) [OF _ _ mod3_succ(1)] kept(3) [OF _ _ mod3_succ(2)] by simp
qed

text \<open>Rotation after the active term \<open>tc\<close> was filled.\<close>

lemma pub_inv_rotate:
  assumes inv: "pub_inv m pub p base k hw tc off fs" and tc: "tc < 2147483647"
    and touch: "only_touches m m' (part_appender p base k hw (tc mod 3)) off (2 ^ k)"
    and tid: "tid = wrap32 (pub_initialTermID pub + tc)"
    and tail: "TermID (get_i64 m' (p + 8 * (tc mod 3))) = tid"
  obtains m'' where "RotateLog_alone m' (metaData pub) tc tid = Inr m''"
    and "pub_inv m'' pub p base k hw (tc + 1) 0 []" and "\<And>x. x < p \<Longrightarrow> m'' x = m' x"
proof -
  define i1 where "i1 = (tc + 1) mod 3"
  define i2 where "i2 = (tc + 2) mod 3"
  define i0 where "i0 = tc mod 3"
  define m'' where "m'' = store 4 (store 8 m' (p + 8 * i1) (wrap32 (tid + 1) * 4294967296)) (p + 24) (tc + 1)"
  have i: "0 \<le> i1" "i1 < 3" "0 \<le> i2" "i2 < 3" "0 \<le> i0" "i0 < 3" by (simp_all add: i0_def i1_def i2_def)
  have ne: "i1 \<noteq> i0" "i2 \<noteq> i0" "i2 \<noteq> i1" unfolding i0_def i1_def i2_def by (rule mod3_succ)+
  note invD = pub_invD [OF inv, folded i0_def i1_def i2_def]
  note kept = append_keeps_meta [OF invD(1) touch order_refl, folded i0_def]
  have next_tid: "wrap32 (tid + 1) = wrap32 (pub_initialTermID pub + (tc + 1))"
    "wrap32 (tid - 2) = wrap32 (pub_initialTermID pub + tc - 2)"
    unfolding tid by (simp_all add: wrap32_def mod_simps ac_simps)
  have other: "get_i64 m'' (p + 8 * j) = get_i64 m' (p + 8 * j)" if "0 \<le> j" "j < 3" "j \<noteq> i1" for j
  proof -
    have "p + 8 * j + 8 \<le> p + 8 * i1 \<or> p + 8 * i1 + 8 \<le> p + 8 * j" using that by linarith
    then show ?thesis using that by (simp add: m''_def i64.get_store_other)
  qed
  have "get_i32 (store 8 m' (p + 8 * i1) v) (p + 24) = tc" for v
    using kept(1) invD(4) i by (simp add: i32.get_store_other)
  moreover have "TermID (get_i64 m' (p + 8 * i1)) = wrap32 (tid - 2)"
    using kept(3) [OF i(1,2) ne(1)] invD(7) next_tid(2) by simp
  moreover have "metaData pub = meta_at p" "in_i32 tid" using invD(1) by (simp_all add: pub_wf_def tid)
  ultimately have run: "RotateLog_alone m' (metaData pub) tc tid = Inr m''"
    using tc invD(2) by (simp add: RotateLog_alone_unfold Let_def m''_def flip: i1_def)
  have "get_i64 m'' (p + 8 * i1) = wrap32 (tid + 1) * 4294967296"
    using i raw_tail_start [of "tid + 1"] by (simp add: m''_def i64.get_store_other i64.get_put)
  then have "term_state m'' (part_appender p base k hw i1) (wrap32 (pub_initialTermID pub + (tc + 1))) 0 []"
    using next_tid by (simp add: term_state_def)
  moreover have "get_i32 m'' (p + 24) = tc + 1" "get_i32 m'' (p + 264) = pub_initialTermID pub"
    using tc invD(2,5) i kept(2) by (simp_all add: m''_def i32.get_put wrap32_id i32.get_store_other)
  moreover have "TermID (get_i64 m'' (p + 8 * i2)) = wrap32 (pub_initialTermID pub + (tc + 1) - 2)"
    using other [OF i(3,4) ne(3)] kept(3) [OF i(3,4) ne(2)] invD(8) by simp
  moreover have "TermID (get_i64 m'' (p + 8 * i0)) = wrap32 (pub_initialTermID pub + (tc + 1) - 1)"
    using other [OF i(5,6)] ne(1) tail tid by (simp add: i0_def)
  ultimately have "pub_inv m'' pub p base k hw (tc + 1) 0 []"
    unfolding pub_inv_def mod3_succ(4,5) i0_def [symmetric] i1_def [symmetric] i2_def [symmetric]
    using invD(1,2) tc by linarith
  moreover have "m'' x = m' x" if "x < p" for x
    using that i by (simp add: m''_def store_outside)
  ultimately show ?thesis using run that by blast
qed

subsection \<open>The outcome of an append through a publication\<close>

text \<open>
  Either the message is in the active term and the result is the stream position behind it, or
  the active term is filled up with padding and the next term is active and empty.
\<close>

definition accepted ::
  "mem \<Rightarrow> mem \<Rightarrow> Publication \<Rightarrow> int \<Rightarrow> int \<Rightarrow> nat \<Rightarrow> headerWriter \<Rightarrow> int \<Rightarrow> int \<Rightarrow> frame list \<Rightarrow> int \<Rightarrow>
   frame list \<Rightarrow> int \<Rightarrow> bool" where
  "accepted m m' pub p base k hw tc off fs req gs r \<longleftrightarrow>
     r = tc * 2 ^ k + off + req \<and> off + req \<le> 2 ^ k \<and> pub_inv m' pub p base k hw tc (off + req) (fs @ gs) \<and>
     only_touches m m' (part_appender p base k hw (tc mod 3)) off (off + req)"

definition rotated ::
  "mem \<Rightarrow> Publication \<Rightarrow> int \<Rightarrow> int \<Rightarrow> nat \<Rightarrow> headerWriter \<Rightarrow> int \<Rightarrow> int \<Rightarrow> frame list \<Rightarrow> int \<Rightarrow> int \<Rightarrow> bool" where
  "rotated m' pub p base k hw tc off fs req r \<longleftrightarrow>
     r = AdminAction \<and> 2 ^ k < off + req \<and> pub_inv m' pub p base k hw (tc + 1) 0 [] \<and>
     (\<exists>gs. log_at m' (base + tc mod 3 * 2 ^ k) 0 (fs @ gs) (2 ^ k) \<and> length gs \<le> 1 \<and> list_all is_padding gs)"

lemma last_term_room:
  assumes "0 \<le> tc" and "tc < 2147483647" and "off \<le> 2 ^ k" and "k \<le> 30" and "0 \<le> off"
  shows "wrap64 (tc * 2 ^ k + off + off) \<le> 2 ^ k * 2147483648"
proof -
  define c :: int where "c = 2 ^ k"
  have "(2::int) ^ k \<le> 2 ^ 30" using assms(4) by (rule power_increasing) simp
  then have c: "0 \<le> c" "c \<le> 1073741824" "off \<le> c" using assms(3) by (simp_all add: c_def)
  have "(tc + 2) * c \<le> 2147483648 * c" using assms(2) c by (intro mult_right_mono) auto
  then have "tc * c + 2 * c \<le> 2147483648 * c" by (simp add: distrib_right)
  then have le: "tc * c + off + off \<le> c * 2147483648" using c by linarith
  have "0 \<le> tc * c" using assms(1) c by simp
  then have "wrap64 (tc * c + off + off) = tc * c + off + off"
    using le c assms(5) by (intro wrap64_id) linarith+
  then show ?thesis using le by (simp add: c_def)
qed

context append_operation
begin

lemma publishes:
  assumes inv: "pub_inv m pub p base k hw tc off fs" and tc: "tc < 2147483647"
    and ap: "ap = part_appender p base k hw (tc mod 3)" and x: "valid ap x"
    and tid: "tid = wrap32 (pub_initialTermID pub + tc)"
  shows "\<exists>r m'. map_option (finish_offer pub tc off (tc * 2 ^ k + off)) (op ap x m) = Some (Inr (r, m')) \<and>
           ((\<exists>gs. accepted m m' pub p base k hw tc off fs (required x) gs r \<and> adds ap x m tid off gs) \<or>
            rotated m' pub p base k hw tc off fs (required x) r)"
proof -
  note tailD = pub_tail [OF inv ap tid]
  note invD = pub_invD [OF inv]
  have k: "k \<le> 30" using invD(1) by (simp add: pub_wf_def)
  note ok = tailD(8) and st = tailD(9) and off = tailD(6,7)
  have cap: "Capacity (termBuffer ap) = 2 ^ k" by (simp add: ap)
  show ?thesis
  proof (cases "off + required x \<le> 2 ^ k")
    case True
    then obtain m' gs where op: "op ap x m = Some (Inr (off + required x, tid, m'))"
      and st': "term_state m' ap tid (off + required x) (fs @ gs)"
      and touch: "only_touches m m' ap off (off + required x)" and adds: "adds ap x m tid off gs"
      using fits [OF ok x st] cap by auto
    have "pub_inv m' pub p base k hw tc (off + required x) (fs @ gs)"
      using pub_inv_append [OF inv _ True] touch st' by (simp add: ap tid)
    moreover have "off + required x \<le> 1073741824"
      using True pow2_bounds(2) [of k] invD(1) by (auto simp: pub_wf_def)
    then have "finish_offer pub tc off (tc * 2 ^ k + off) (Inr (off + required x, tid, m')) =
        Inr (tc * 2 ^ k + off + required x, m')"
      using off(1) required_bound [OF x] shl64_pow(2,3) [OF invD(2,3) k]
      by (simp add: finish_offer_def newPosition_def wrap64_id)
    ultimately show ?thesis using op adds True touch by (auto simp: accepted_def ap)
  next
    case False
    then obtain m' gs where op: "op ap x m = Some (Inr (AppenderTripped, tid, m'))"
      and tail: "get_i64 m' (tailCounter ap) = tid * 4294967296 + (off + required x)"
      and log: "log_at m' (Ptr (termBuffer ap)) 0 (fs @ gs) (2 ^ k)"
      and gs: "length gs \<le> 1" "list_all is_padding gs"
      and touch: "only_touches m m' ap off (2 ^ k)"
      using trips [OF ok x st] cap by auto
    have "off \<le> 1073741824" using off(2) pow2_bounds(2) [of k] invD(1) by (auto simp: pub_wf_def)
    then have "TermID (get_i64 m' (p + 8 * (tc mod 3))) = tid"
      using tail required_bound [OF x] off(1) by (simp add: ap tid)
    then obtain m'' where rot: "RotateLog_alone m' (metaData pub) tc tid = Inr m''"
      and inv': "pub_inv m'' pub p base k hw (tc + 1) 0 []" and same: "\<And>y. y < p \<Longrightarrow> m'' y = m' y"
      using pub_inv_rotate [OF inv tc _ tid] touch unfolding ap by metis
    have below: "base + tc mod 3 * 2 ^ k + 2 ^ k \<le> p"
      by (rule partition_below_meta [OF invD(1)]) simp_all
    have "log_at m'' (base + tc mod 3 * 2 ^ k) 0 (fs @ gs) (2 ^ k)"
      using log unfolding ap part_appender_simps Wrap_simps
      by (rule log_at_cong) (intro same, use below in linarith)
    moreover have "finish_offer pub tc off (tc * 2 ^ k + off) (Inr (AppenderTripped, tid, m')) =
        Inr (AdminAction, m'')"
      using rot last_term_room [OF invD(2) tc off(2) k off(1)] invD(1)
      by (simp add: finish_offer_def newPosition_def pub_wf_def)
    ultimately show ?thesis using op inv' gs False by (auto simp: rotated_def)
  qed
qed

end

subsection \<open>Offers\<close>

lemma fragmented_len_bound:
  assumes "32 \<le> mp" and "0 \<le> len"
  shows "fragmented_len mp len \<le> 2 * len + 63"
proof -
  have q: "0 \<le> len div mp" using assms by (simp add: pos_imp_zdiv_nonneg_iff)
  have "32 * (len div mp) \<le> mp * (len div mp)" using assms(1) q by (rule mult_right_mono)
  moreover have split: "mp * (len div mp) + len mod mp = len" by simp
  moreover have "0 \<le> len mod mp" using assms(1) by simp
  ultimately have "32 * (len div mp) \<le> len" by linarith
  moreover have "len div mp * (mp + 32) = mp * (len div mp) + 32 * (len div mp)" by (simp add: algebra_simps)
  moreover have "aligned_len (len mod mp + 32) < len mod mp + 64"
    using aligned_len_bounds(2) [of "len mod mp + 32"] by linarith
  ultimately show ?thesis
    using split \<open>0 \<le> len mod mp\<close> unfolding fragmented_len_def
    by (split if_split) linarith
qed

text \<open>The frames of a message of a publication: one frame, or fragments of the payload limit.\<close>

definition message_frames ::
  "Appender \<Rightarrow> ReservedValueSupplier \<Rightarrow> int \<Rightarrow> int \<Rightarrow> int \<Rightarrow> byte list \<Rightarrow> frame list \<Rightarrow> bool" where
  "message_frames ap s mp tid off payload gs \<longleftrightarrow>
     (if int (length payload) \<le> mp then
        \<exists>rv. gs = [data_frame (header_writer ap) tid off unfragmented rv payload] \<and>
             reserved_from (Some s) (\<lambda>_. 0) (termBuffer ap) off payload rv
      else is_fragments ap s tid mp True off payload gs)"

definition message_len :: "int \<Rightarrow> int \<Rightarrow> int" where
  "message_len mp len = (if len \<le> mp then aligned_len (len + 32) else fragmented_len mp len)"

definition limit_value :: "mem \<Rightarrow> Publication \<Rightarrow> int" where
  "limit_value m pub = get_i64 m (Ptr (pos_buffer (pubLimit pub)) + pos_offset (pubLimit pub))"

definition given_supplier :: "ReservedValueSupplier option \<Rightarrow> ReservedValueSupplier" where
  "given_supplier s = (case s of None \<Rightarrow> DefaultReservedValueSupplier | Some s \<Rightarrow> s)"

lemma Position_get_ok:
  "pub_wf pub p base k hw \<Longrightarrow> Position_get m (pubLimit pub) = Inr (limit_value m pub)"
  by (simp add: pub_wf_def Position_get_def limit_value_def buffer_ok)

text \<open>Reading the state of the publication decides every branch before an append.\<close>

lemma Offer_unfold:
  assumes inv: "pub_inv m pub p base k hw tc off fs" and ap: "ap = part_appender p base k hw (tc mod 3)"
    and len: "len \<le> maxMessageLength pub"
  shows "Offer m pub buf offset len supplier =
    (if pub_isClosed pub then Some (Inr (PublicationClosed, m))
     else if limit_value m pub \<le> tc * 2 ^ k + off then
       Some (Inr (backPressureStatus m pub (tc * 2 ^ k + off) len, m))
     else map_option (finish_offer pub tc off (tc * 2 ^ k + off))
       (if len \<le> maxPayloadLength pub
        then Some (AppendUnfragmentedMessage m ap buf offset len (Some (given_supplier supplier)))
        else AppendFragmentedMessage m ap buf offset len (maxPayloadLength pub)
               (Some (given_supplier supplier))))"
proof -
  note tailD = pub_tail [OF inv ap refl]
  note invD = pub_invD [OF inv]
  have "InitTermID (metaData pub) = p + 264" using invD(1) by (simp add: pub_wf_def meta_at_def)
  then show ?thesis
    using len
    by (simp add: Offer_def Position_get_ok [OF invD(1)] active_appender_ok [OF inv] Let_def
        Int32Field_Get_def tailD(1-5) checkForMaxMessageLength_def given_supplier_def flip: ap)
qed

lemma offer_append:
  assumes inv: "pub_inv m pub p base k hw tc off fs" and tc: "tc < 2147483647"
    and ap: "ap = part_appender p base k hw (tc mod 3)" and src: "source_ok ap buf offset len"
    and len: "len \<le> maxMessageLength pub" and tid: "tid = wrap32 (pub_initialTermID pub + tc)"
  shows "\<exists>r m'. map_option (finish_offer pub tc off (tc * 2 ^ k + off))
       (if len \<le> maxPayloadLength pub
        then Some (AppendUnfragmentedMessage m ap buf offset len (Some s))
        else AppendFragmentedMessage m ap buf offset len (maxPayloadLength pub) (Some s)) = Some (Inr (r, m')) \<and>
      ((\<exists>gs. accepted m m' pub p base k hw tc off fs (message_len (maxPayloadLength pub) len) gs r \<and>
             message_frames ap s (maxPayloadLength pub) tid off (source_bytes m buf offset len) gs) \<or>
       rotated m' pub p base k hw tc off fs (message_len (maxPayloadLength pub) len) r)"
proof -
  have wf: "pub_wf pub p base k hw" using pub_invD(1) [OF inv] .
  have mp: "32 \<le> maxPayloadLength pub" "maxPayloadLength pub mod 32 = 0" "maxPayloadLength pub \<le> 1073741824"
    and k: "5 \<le> k" "k \<le> 30" and mm: "maxMessageLength pub = 2 ^ k div 8"
    using wf by (simp_all add: pub_wf_def)
  have len0: "0 \<le> len" using src by (simp add: source_ok_def)
  show ?thesis
  proof (cases "len \<le> maxPayloadLength pub")
    case True
    then have "len \<le> 2147483584" using mp by simp
    then show ?thesis
      using True len0 unfrag.publishes [OF inv tc ap _ tid, of "(buf, offset, len, Some s)"] src
      by (auto simp: message_len_def message_frames_def reserved_from_def)
  next
    case False
    have "fragmented_len (maxPayloadLength pub) len \<le> 2 * len + 63" using mp len0 by (intro fragmented_len_bound)
    moreover have "len \<le> 134217728" using len mm pow2_bounds(2) [OF k] by simp
    ultimately have "fragmented_len (maxPayloadLength pub) len < 2147483648" by linarith
    then show ?thesis
      using False len0 mp frag.publishes [OF inv tc ap _ tid, of "(buf, offset, len, maxPayloadLength pub, s)"] src
      by (auto simp: message_len_def message_frames_def)
  qed
qed

subsection \<open>Properties\<close>

definition sample_hw :: headerWriter where "sample_hw = \<lparr>sessionID = 11, streamID = 22\<rparr>"

definition sample_pub :: Publication where
  "sample_pub =
     \<lparr>pub_channel = [], pub_regID = 1, pub_originalRegID = 1, maxPossiblePosition = 2 ^ 10 * 2147483648,
      pub_streamID = 22, pub_sessionID = 11, pub_initialTermID = 7, maxPayloadLength = 64,
      maxMessageLength = 128, pub_positionBitsToShift = 10,
      pubLimit = \<lparr>pos_buffer = Wrap 20000 128, pos_id = 0, pos_offset = 0\<rparr>,
      pub_channelStatusIndicatorID = 0, pub_isClosed = False, metaData = meta_at 10000,
      appenders = map (part_appender 10000 0 10 sample_hw) [0, 1, 2]\<rparr>"

definition sample_pub_mem :: mem where
  "sample_pub_mem =
     store 8 (store 4 (store 8 (store 8 (store 8 (\<lambda>_. 0) 10000 (7 * 4294967296)) 10008 (5 * 4294967296))
       10016 (6 * 4294967296)) 10264 7) 20000 5000"

lemma sample_pub_inv: "pub_inv sample_pub_mem sample_pub 10000 0 10 sample_hw 0 0 []"
  by code_simp

text \<open>
  (C2) Offering a message of admissible length to an open publication below its limit always
  returns, and keeps the publication's invariant. Either the message is committed to the
  active term as one frame or as the fragments of the payload limit, and the result is the
  stream position behind it; or the term has no room, is closed by padding, the next term
  becomes active and empty, and the result is AdminAction. A closed publication and one at its
  limit leave memory as it was.
\<close>

theorem Offer_outcome:
  assumes "pub_inv m pub p base k hw tc off fs" and "tc < 2147483647"
    and "ap = part_appender p base k hw (tc mod 3)" and "source_ok ap buf offset len"
    and "len \<le> maxMessageLength pub" and "tid = wrap32 (pub_initialTermID pub + tc)"
    and "req = message_len (maxPayloadLength pub) len"
  shows "\<exists>r m'. Offer m pub buf offset len supplier = Some (Inr (r, m')) \<and>
    (if pub_isClosed pub then r = PublicationClosed \<and> m' = m
     else if limit_value m pub \<le> tc * 2 ^ k + off then
       r \<in> {MaxPositionExceeded, BackPressured, NotConnected} \<and> m' = m
     else
       (\<exists>gs. accepted m m' pub p base k hw tc off fs req gs r \<and>
          message_frames ap (given_supplier supplier) (maxPayloadLength pub) tid off
            (source_bytes m buf offset len) gs) \<or>
       rotated m' pub p base k hw tc off fs req r)"
  using offer_append [OF assms(1-6), of "given_supplier supplier"] assms(7)
  by (auto simp: Offer_unfold [OF assms(1,3,5)] backPressureStatus_def)

theorem Offer_outcome_witness:
  "\<exists>r m'. Offer sample_pub_mem sample_pub (Wrap 30000 100) 0 100 None = Some (Inr (r, m')) \<and>
    (if pub_isClosed sample_pub then r = PublicationClosed \<and> m' = sample_pub_mem
     else if limit_value sample_pub_mem sample_pub \<le> 0 * 2 ^ 10 + 0 then
       r \<in> {MaxPositionExceeded, BackPressured, NotConnected} \<and> m' = sample_pub_mem
     else
       (\<exists>gs. accepted sample_pub_mem m' sample_pub 10000 0 10 sample_hw 0 0 [] (message_len 64 100) gs r \<and>
          message_frames (part_appender 10000 0 10 sample_hw (0 mod 3)) (given_supplier None)
            (maxPayloadLength sample_pub) 7 0 (source_bytes sample_pub_mem (Wrap 30000 100) 0 100) gs) \<or>
       rotated m' sample_pub 10000 0 10 sample_hw 0 0 [] (message_len 64 100) r)"
  by (rule Offer_outcome [OF sample_pub_inv])
     (simp_all add: sample_pub_def source_ok_def wrap32_def)

text \<open>
  The position a publication reports is the number of completed terms times the term length
  plus the offset up to which the active term is filled.
\<close>

theorem Publication_Position_value:
  assumes "pub_inv m pub p base k hw tc off fs" and "\<not> pub_isClosed pub"
  shows "Publication_Position m pub = Inr (tc * 2 ^ k + off)"
  using assms pub_tail [OF assms(1) refl refl] active_appender_ok [OF assms(1)]
  by (simp add: Publication_Position_def Let_def)

theorem Publication_Position_value_witness:
  "Publication_Position sample_pub_mem sample_pub = Inr (0 * 2 ^ 10 + 0)"
  by (rule Publication_Position_value [OF sample_pub_inv]) (simp add: sample_pub_def)

text \<open>
  A message longer than the maximum message length makes Offer panic once the publication is
  open and below its limit, before any byte of memory or the tail is touched.
\<close>

theorem Offer_too_long:
  assumes "pub_inv m pub p base k hw tc off fs" and "\<not> pub_isClosed pub"
    and "tc * 2 ^ k + off < limit_value m pub"
    and "maxMessageLength pub < len" and "maxPayloadLength pub < len"
  shows "Offer m pub buf offset len supplier =
           Some (Inl (Panic ''Encoded message exceeds maxMessageLength''))"
proof -
  note tailD = pub_tail [OF assms(1) refl refl]
  note invD = pub_invD [OF assms(1)]
  have "InitTermID (metaData pub) = p + 264" using invD(1) by (simp add: pub_wf_def meta_at_def)
  then show ?thesis
    using assms(2-5)
    by (simp add: Offer_def Position_get_ok [OF invD(1)] active_appender_ok [OF assms(1)] Let_def
        Int32Field_Get_def tailD(1-5) checkForMaxMessageLength_def)
qed

theorem Offer_too_long_witness:
  "Offer sample_pub_mem sample_pub (Wrap 30000 1000) 0 500 None =
     Some (Inl (Panic ''Encoded message exceeds maxMessageLength''))"
  by (rule Offer_too_long [OF sample_pub_inv]) code_simp+

end
