(* ===== verification/Term_Reader.thy ===== *)
theory Term_Reader
  imports Frame_Log
begin

text \<open>
  \<open>aeron/logbuffer/term/reader.go\<close>: the scan over the committed frames of a term. A fragment
  handler is a function of its own state, the memory and the fragment's location and header,
  and may fail; it does not write the term. The scan is a \<open>partial_function\<close>, as the loop of
  the code ends only if the lengths it reads move it forward.
\<close>

type_synonym 's FragmentHandler = "'s \<Rightarrow> mem \<Rightarrow> buffer \<Rightarrow> int \<Rightarrow> int \<Rightarrow> Header \<Rightarrow> 's res"

partial_function (option) Read_loop ::
  "'s FragmentHandler \<Rightarrow> mem \<Rightarrow> buffer \<Rightarrow> int \<Rightarrow> int \<Rightarrow> int \<Rightarrow> int \<Rightarrow> Header \<Rightarrow> 's \<Rightarrow>
   (int \<times> int \<times> Header \<times> 's) res option" where
  "Read_loop handler m termBuffer limitOffset fragmentLimit termOffset fragmentsRead header s =
     (if fragmentsRead < fragmentLimit \<and> termOffset < limitOffset then
        (case GetFrameLength m termBuffer termOffset of
           Inl e \<Rightarrow> Some (Inl e)
         | Inr frameLength \<Rightarrow>
             if frameLength \<le> 0 then Some (Inr (termOffset, fragmentsRead, header, s))
             else
               (let fragmentOffset = termOffset;
                    termOffset = wrap32 (termOffset + AlignInt32 frameLength FrameAlignment)
                in case IsPaddingFrame m termBuffer fragmentOffset of
                     Inl e \<Rightarrow> Some (Inl e)
                   | Inr padding \<Rightarrow>
                       if padding then
                         Read_loop handler m termBuffer limitOffset fragmentLimit termOffset
                           fragmentsRead header s
                       else
                         (let header = SetOffset (Header_Wrap header (Ptr termBuffer)
                                         (Capacity termBuffer)) fragmentOffset
                          in case handler s m termBuffer
                                    (wrap32 (fragmentOffset + DataFrameHeader_Length))
                                    (wrap32 (frameLength - DataFrameHeader_Length)) header of
                               Inl e \<Rightarrow> Some (Inl e)
                             | Inr s \<Rightarrow>
                                 Read_loop handler m termBuffer limitOffset fragmentLimit
                                   termOffset (fragmentsRead + 1) header s)))
      else Some (Inr (termOffset, fragmentsRead, header, s)))"

definition Read :: "mem \<Rightarrow> buffer \<Rightarrow> int \<Rightarrow> 's FragmentHandler \<Rightarrow> int \<Rightarrow> Header \<Rightarrow> 's \<Rightarrow>
    (int \<times> int \<times> Header \<times> 's) res option" where
  "Read m termBuffer termOffset handler fragmentLimit header s =
     Read_loop handler m termBuffer (Capacity termBuffer) fragmentLimit termOffset 0 header s"

definition BoundedRead :: "mem \<Rightarrow> buffer \<Rightarrow> int \<Rightarrow> int \<Rightarrow> 's FragmentHandler \<Rightarrow> int \<Rightarrow> Header \<Rightarrow> 's \<Rightarrow>
    (int \<times> int \<times> Header \<times> 's) res option" where
  "BoundedRead m termBuffer termOffset offsetLimit handler fragmentLimit header s =
     Read_loop handler m termBuffer offsetLimit fragmentLimit termOffset 0 header s"

subsection \<open>The specification of a scan\<close>

text \<open>
  Along a list of frames: padding is passed over, data frames are handed over in order until
  the fragment limit or the offset limit is reached.
\<close>

definition frame_header :: "Header \<Rightarrow> buffer \<Rightarrow> int \<Rightarrow> Header" where
  "frame_header header buf off = SetOffset (Header_Wrap header (Ptr buf) (Capacity buf)) off"

fun scan :: "'s FragmentHandler \<Rightarrow> mem \<Rightarrow> buffer \<Rightarrow> int \<Rightarrow> int \<Rightarrow> int \<Rightarrow> int \<Rightarrow> Header \<Rightarrow> 's \<Rightarrow>
    frame list \<Rightarrow> (int \<times> int \<times> Header \<times> 's) res" where
  "scan handler m buf lim limit off n header s [] = Inr (off, n, header, s)"
| "scan handler m buf lim limit off n header s (f # fs) =
     (if n < limit \<and> off < lim then
        if is_padding f then
          scan handler m buf lim limit (off + aligned_len (fr_length f)) n header s fs
        else
          bindR (handler s m buf (off + 32) (fr_length f - 32) (frame_header header buf off)) (\<lambda>s'.
          scan handler m buf lim limit (off + aligned_len (fr_length f)) (n + 1)
            (frame_header header buf off) s' fs)
      else Inr (off, n, header, s))"

text \<open>
  Where the frames end, the term is at its end or the next length field is not positive: no
  frame was claimed there, or the claimed one is not committed.
\<close>

definition log_stops :: "mem \<Rightarrow> buffer \<Rightarrow> int \<Rightarrow> int \<Rightarrow> bool" where
  "log_stops m buf lim e \<longleftrightarrow> lim \<le> e \<or> get_i32 m (Ptr buf + e) \<le> 0"

lemma GetFrameLength_ok:
  "0 \<le> off \<Longrightarrow> off + 4 \<le> Capacity buf \<Longrightarrow> Capacity buf < 2147483648 \<Longrightarrow>
   GetFrameLength m buf off = Inr (get_i32 m (Ptr buf + off))"
  by (simp add: GetFrameLength_def lengthOffset_def buffer_ok wrap32_id)

lemma IsPaddingFrame_ok:
  assumes "0 \<le> off" and "off + 8 \<le> Capacity buf" and "Capacity buf < 2147483648"
  shows "IsPaddingFrame m buf off = Inr (is_padding (frame_at m (Ptr buf + off)))"
  using assms by (simp add: IsPaddingFrame_def typeOffset_def buffer_ok wrap32_id frame_at_def add.assoc)

lemma Read_loop_stop:
  assumes "0 \<le> off" and "lim \<le> off \<or> off + 4 \<le> Capacity buf" and "Capacity buf < 2147483648"
    and "log_stops m buf lim off"
  shows "Read_loop h m buf lim limit off n header s = Some (Inr (off, n, header, s))"
  using assms by (subst Read_loop.simps) (auto simp: log_stops_def GetFrameLength_ok)

lemma Read_loop_frame:
  assumes "0 \<le> off" and "off + aligned_len (fr_length f) \<le> Capacity buf"
    and "Capacity buf \<le> 1073741824" and f: "frame_at m (Ptr buf + off) = f" and "32 \<le> fr_length f"
    and "n < limit" and "off < lim" and e: "e = off + aligned_len (fr_length f)"
  shows "Read_loop h m buf lim limit off n header s =
     (if is_padding f then Read_loop h m buf lim limit e n header s
      else case h s m buf (off + 32) (fr_length f - 32) (frame_header header buf off) of
             Inl err \<Rightarrow> Some (Inl err)
           | Inr s' \<Rightarrow> Read_loop h m buf lim limit e (n + 1) (frame_header header buf off) s')"
proof -
  have al: "fr_length f \<le> aligned_len (fr_length f)" by (rule aligned_len_bounds)
  have len: "get_i32 m (Ptr buf + off) = fr_length f" using f by auto
  have "wrap32 (off + aligned_len (fr_length f)) = e" "wrap32 (off + 32) = off + 32"
    "wrap32 (fr_length f - 32) = fr_length f - 32"
    unfolding e using assms al by (intro wrap32_id; linarith)+
  moreover have "AlignInt32 (fr_length f) 32 = aligned_len (fr_length f)"
    using assms al by (intro AlignInt32_aligned_len) linarith+
  moreover have "GetFrameLength m buf off = Inr (fr_length f)"
    using assms al by (simp add: GetFrameLength_ok len)
  moreover have "IsPaddingFrame m buf off = Inr (is_padding f)"
    using assms al by (simp add: IsPaddingFrame_ok)
  ultimately show ?thesis
    using assms(5-7) by (subst Read_loop.simps) (simp add: Let_def flip: frame_header_def)
qed

text \<open>On a term that holds a log, the loop ends and does what the specification says.\<close>

lemma Read_loop_scan:
  assumes "log_at m (Ptr buf) off fs e" and "0 \<le> off" and "e \<le> Capacity buf"
    and "Capacity buf \<le> 1073741824" and "log_stops m buf lim e" and "lim \<le> e \<or> e + 4 \<le> Capacity buf"
  shows "Read_loop h m buf lim limit off n header s = Some (scan h m buf lim limit off n header s fs)"
  using assms
proof (induction fs arbitrary: off n header s)
  case Nil
  then show ?case using Read_loop_stop [of off lim buf] by simp
next
  case (Cons f fs)
  have f: "frame_at m (Ptr buf + off) = f" "32 \<le> fr_length f"
    and rest: "log_at m (Ptr buf) (off + aligned_len (fr_length f)) fs e"
    using Cons.prems(1) by auto
  have fit: "off + aligned_len (fr_length f) \<le> Capacity buf"
    using log_at_le [OF rest] Cons.prems(3) by linarith
  have pos: "0 \<le> off + aligned_len (fr_length f)"
    using f(2) aligned_len_bounds(1) [of "fr_length f"] Cons.prems(2) by linarith
  note IH = Cons.IH [OF rest pos Cons.prems(3-6)]
  show ?case
  proof (cases "n < limit \<and> off < lim")
    case True
    then show ?thesis
      using Read_loop_frame [OF Cons.prems(2) fit Cons.prems(4) f, of n limit lim _ h header s]
      by (simp add: IH split: sum.split)
  next
    case False
    then show ?thesis by (subst Read_loop.simps) auto
  qed
qed

subsection \<open>Consumers\<close>

abbreviation data_frames :: "frame list \<Rightarrow> frame list" where
  "data_frames fs \<equiv> filter (\<lambda>f. \<not> is_padding f) fs"

text \<open>
  The interface of a fragment handler that a reader relies on: handed a committed data frame it
  returns, keeps its invariant, and its view changes by consuming the frame.
\<close>

locale fragment_consumer =
  fixes handler :: "'s FragmentHandler"
    and invariant :: "'s \<Rightarrow> bool"
    and view :: "'s \<Rightarrow> 'a"
    and consume :: "'a \<Rightarrow> frame \<Rightarrow> 'a"
  assumes handles:
    "\<lbrakk>invariant s; frame_at m (Ptr buf + off) = f; \<not> is_padding f; 32 \<le> fr_length f; 0 \<le> off;
      off + fr_length f \<le> Capacity buf; Capacity buf \<le> 1073741824\<rbrakk> \<Longrightarrow>
     \<exists>s'. handler s m buf (off + 32) (fr_length f - 32) (frame_header header buf off) = Inr s' \<and>
          invariant s' \<and> view s' = consume (view s) f"
begin

lemma scan_consumes:
  assumes "log_at m (Ptr buf) off fs e" and "0 \<le> off" and "e \<le> Capacity buf"
    and "Capacity buf \<le> 1073741824" and "invariant s"
  shows "\<exists>k off' header' s'. scan handler m buf lim limit off n header s fs =
             Inr (off', n + int (length (data_frames (take k fs))), header', s') \<and>
           invariant s' \<and> view s' = foldl consume (view s) (data_frames (take k fs)) \<and>
           log_at m (Ptr buf) off (take k fs) off' \<and>
           (e \<le> lim \<longrightarrow> data_frames (take k fs) = take (nat (limit - n)) (data_frames fs))"
  using assms
proof (induction fs arbitrary: off n header s)
  case Nil
  then show ?case by auto
next
  case (Cons f fs)
  have f: "frame_at m (Ptr buf + off) = f" "32 \<le> fr_length f"
    and rest: "log_at m (Ptr buf) (off + aligned_len (fr_length f)) fs e"
    using Cons.prems(1) by auto
  have al: "fr_length f \<le> aligned_len (fr_length f)" by (rule aligned_len_bounds)
  have fit: "off + aligned_len (fr_length f) \<le> e" using log_at_le [OF rest] .
  have pos: "0 \<le> off + aligned_len (fr_length f)" using f(2) al Cons.prems(2) by linarith
  note IH = Cons.IH [OF rest pos Cons.prems(3,4)]
  show ?case
  proof (cases "n < limit \<and> off < lim")
    case False
    then show ?thesis
      using fit al f(2) Cons.prems(5)
      by (intro exI [of _ "0::nat"] exI [of _ off] exI [of _ header] exI [of _ s]) auto
  next
    case run: True
    show ?thesis
    proof (cases "is_padding f")
      case True
      obtain k off' header' s' where
        "scan handler m buf lim limit (off + aligned_len (fr_length f)) n header s fs =
           Inr (off', n + int (length (data_frames (take k fs))), header', s')"
        "invariant s'" "view s' = foldl consume (view s) (data_frames (take k fs))"
        "log_at m (Ptr buf) (off + aligned_len (fr_length f)) (take k fs) off'"
        "e \<le> lim \<longrightarrow> data_frames (take k fs) = take (nat (limit - n)) (data_frames fs)"
        using IH [OF Cons.prems(5), of n header] by blast
      then show ?thesis
        using run True f by (intro exI [of _ "Suc k"] exI [of _ off'] exI [of _ header'] exI [of _ s']) auto
    next
      case False
      obtain s1 where h: "handler s m buf (off + 32) (fr_length f - 32) (frame_header header buf off) = Inr s1"
        and s1: "invariant s1" "view s1 = consume (view s) f"
        using handles [OF Cons.prems(5) f(1) False f(2) Cons.prems(2) _ Cons.prems(4), of header]
          fit al Cons.prems(3) by auto
      obtain k off' header' s' where
        "scan handler m buf lim limit (off + aligned_len (fr_length f)) (n + 1) (frame_header header buf off) s1 fs =
           Inr (off', n + 1 + int (length (data_frames (take k fs))), header', s')"
        "invariant s'" "view s' = foldl consume (view s1) (data_frames (take k fs))"
        "log_at m (Ptr buf) (off + aligned_len (fr_length f)) (take k fs) off'"
        "e \<le> lim \<longrightarrow> data_frames (take k fs) = take (nat (limit - (n + 1))) (data_frames fs)"
        using IH [OF s1(1), of "n + 1" "frame_header header buf off"] by blast
      moreover have "nat (limit - n) = Suc (nat (limit - (n + 1)))" using run by linarith
      ultimately show ?thesis
        using run False f h s1
        by (intro exI [of _ "Suc k"] exI [of _ off'] exI [of _ header'] exI [of _ s']) auto
    qed
  qed
qed

end

text \<open>A handler that records the payloads it is given.\<close>

definition record_fragment :: "byte list list FragmentHandler" where
  "record_fragment s m buf offset len header = Inr (s @ [read_bytes m (Ptr buf + offset) (nat len)])"

interpretation recorder: fragment_consumer record_fragment "\<lambda>_. True" "\<lambda>s. s" "\<lambda>s f. s @ [fr_payload f]"
  by unfold_locales (auto simp: record_fragment_def frame_at_def add.assoc)

lemma foldl_snoc: "foldl (\<lambda>s f. s @ [g f]) s fs = s @ map g fs"
  by (induction fs arbitrary: s) auto

subsection \<open>Properties\<close>

definition sample_frame_mem :: mem where
  "sample_frame_mem =
     store 1 (store 2 (store 4 (\<lambda>_. 0) 4096 40) 4102 TypeData) 4101 0xC0"

lemma sample_frame_log:
  "log_at sample_frame_mem 4096 0 [frame_at sample_frame_mem 4096] 64"
  "get_i32 sample_frame_mem 4160 = 0" "fr_type (frame_at sample_frame_mem 4096) = TypeData"
  by code_simp+

text \<open>
  (C11) Reading a term that holds a log of committed frames ends, for every handler, and is the
  specified scan: padding is skipped, data frames are handed over in order until the fragment
  limit, a failing handler ends the read with its failure, and the returned offset is behind
  the last frame consumed.
\<close>

theorem Read_refines_scan:
  assumes "log_at m (Ptr buf) off fs e" and "0 \<le> off" and "off mod 32 = 0"
    and "e \<le> Capacity buf" and "Capacity buf \<le> 1073741824" and "Capacity buf mod 32 = 0"
    and "log_stops m buf (Capacity buf) e"
  shows "Read m buf off handler limit header s =
           Some (scan handler m buf (Capacity buf) limit off 0 header s fs)"
proof -
  have "e mod 32 = 0" using log_at_aligned [OF assms(1,3)] .
  then have "Capacity buf \<le> e \<or> e + 4 \<le> Capacity buf" using assms(6) by presburger
  then show ?thesis
    unfolding Read_def by (rule Read_loop_scan [OF assms(1,2,4,5,7)])
qed

theorem Read_refines_scan_witness:
  "Read sample_frame_mem (Wrap 4096 128) 0 record_fragment 10 \<lparr>hdr_buffer = Wrap 0 0, hdr_offset = 0,
      hdr_initialTermID = 0, hdr_positionBitsToShift = 7\<rparr> [] =
   Some (scan record_fragment sample_frame_mem (Wrap 4096 128) (Capacity (Wrap 4096 128)) 10 0 0 \<lparr>hdr_buffer = Wrap 0 0,
      hdr_offset = 0, hdr_initialTermID = 0, hdr_positionBitsToShift = 7\<rparr> []
      [frame_at sample_frame_mem 4096])"
  by (rule Read_refines_scan [where e = 64])
     (use sample_frame_log in \<open>simp_all add: Wrap_def log_stops_def del: log_at.simps\<close>)

text \<open>
  What a reader gets: from a term whose log ends at an uncommitted or unclaimed frame or at
  the end of the term, Read hands over the payloads of the first \<open>limit\<close> data frames, each once
  and in log order, counts them, and returns the offset behind the frames it passed.
\<close>

theorem Read_delivers_in_order:
  assumes "log_at m (Ptr buf) off fs e" and "0 \<le> off" and "off mod 32 = 0"
    and "e \<le> Capacity buf" and "Capacity buf \<le> 1073741824" and "Capacity buf mod 32 = 0"
    and "log_stops m buf (Capacity buf) e"
    and ds: "ds = take (nat limit) (data_frames fs)"
  shows "\<exists>k off' header'. Read m buf off record_fragment limit header s =
           Some (Inr (off', int (length ds), header', s @ map fr_payload ds)) \<and>
         log_at m (Ptr buf) off (take k fs) off' \<and> data_frames (take k fs) = ds"
proof -
  have "e mod 32 = 0" using log_at_aligned [OF assms(1,3)] .
  then have "Capacity buf \<le> e \<or> e + 4 \<le> Capacity buf" using assms(6) by presburger
  then show ?thesis
    unfolding Read_def
    using Read_loop_scan [OF assms(1,2,4,5,7), of record_fragment limit 0 header s]
      recorder.scan_consumes [OF assms(1,2,4,5) TrueI, of "Capacity buf" limit 0 header s] assms(4)
    by (fastforce simp: foldl_snoc ds)
qed

theorem Read_delivers_in_order_witness:
  "\<exists>k off' header'. Read sample_frame_mem (Wrap 4096 128) 0 record_fragment 10
      \<lparr>hdr_buffer = Wrap 0 0, hdr_offset = 0, hdr_initialTermID = 0, hdr_positionBitsToShift = 7\<rparr> [] =
        Some (Inr (off', int (length [frame_at sample_frame_mem 4096]), header',
          [] @ map fr_payload [frame_at sample_frame_mem 4096])) \<and>
      log_at sample_frame_mem (Ptr (Wrap 4096 128)) 0 (take k [frame_at sample_frame_mem 4096]) off' \<and>
      data_frames (take k [frame_at sample_frame_mem 4096]) = [frame_at sample_frame_mem 4096]"
  by (rule Read_delivers_in_order [where e = 64])
     (use sample_frame_log in \<open>simp_all add: Wrap_def log_stops_def del: log_at.simps\<close>)

end
