(* ===== verification/Image.thy ===== *)
theory Image
  imports Publication Term_Reader
begin

text \<open>
  \<open>aeron/image_impl.go\<close>: the subscriber's view of one publication. Polling reads the term the
  subscriber position points into and moves the position counter on. Controlled polling lets
  the handler abort, break or commit; the handler's state is threaded through, memory changes
  only where the code stores a position.
\<close>

record image =
  sourceIdentity :: "byte list"
  img_logBuffers :: LogBuffers
  termBuffers :: "buffer list"
  subscriberPosition :: Position
  img_header :: Header
  img_isClosed :: bool
  img_isEos :: bool
  termLengthMask :: int
  img_positionBitsToShift :: int
  img_sessionID :: int
  joinPosition :: int
  finalPosition :: int
  subscriptionRegistrationID :: int
  img_correlationID :: int

definition zero_header :: Header where
  "zero_header = \<lparr>hdr_buffer = Wrap 0 0, hdr_offset = 0, hdr_initialTermID = 0,
     hdr_positionBitsToShift = 0\<rparr>"

definition NewImage :: "mem \<Rightarrow> int \<Rightarrow> int \<Rightarrow> LogBuffers \<Rightarrow> image res" where
  "NewImage m sessID correlationID logBuffers =
     bindR (Buffer logBuffers 0) (\<lambda>term0.
     bindR (Buffer logBuffers 1) (\<lambda>term1.
     bindR (Buffer logBuffers 2) (\<lambda>term2.
     let capacity = Capacity term0;
         bits = trailing_zeroes capacity
     in Inr \<lparr>sourceIdentity = [], img_logBuffers = logBuffers,
             termBuffers = [term0, term1, term2],
             subscriberPosition = \<lparr>pos_buffer = Wrap 0 0, pos_id = 0, pos_offset = 0\<rparr>,
             img_header = SetPositionBitsToShift (SetInitialTermID zero_header
               (Int32Field_Get m (InitTermID (lb_meta logBuffers)))) bits,
             img_isClosed = False, img_isEos = False, termLengthMask = wrap32 (capacity - 1),
             img_positionBitsToShift = bits, img_sessionID = sessID, joinPosition = 0,
             finalPosition = 0, subscriptionRegistrationID = 0,
             img_correlationID = correlationID\<rparr>)))"

definition indexByPosition :: "int \<Rightarrow> int \<Rightarrow> int res" where
  "indexByPosition position positionBitsToShift =
     FastMod3 (drop_bit (nat positionBitsToShift) (word_of_int position :: 64 word))"

text \<open>Where the subscriber position points: the position, the term offset and the term buffer.\<close>

definition poll_start :: "mem \<Rightarrow> image \<Rightarrow> (int \<times> int \<times> buffer) res" where
  "poll_start m img =
     bindR (Position_get m (subscriberPosition img)) (\<lambda>position.
     let termOffset = wrap32 position AND termLengthMask img
     in bindR (indexByPosition position (img_positionBitsToShift img)) (\<lambda>index.
        bindR (index_slice (termBuffers img) index) (\<lambda>tbuf.
        Inr (position, termOffset, tbuf))))"

text \<open>The position counter moves forward only.\<close>

definition advance_position :: "mem \<Rightarrow> image \<Rightarrow> int \<Rightarrow> int \<Rightarrow> mem res" where
  "advance_position m img position resultingPosition =
     (if resultingPosition > position then Position_set m (subscriberPosition img) resultingPosition
      else Inr m)"

definition Image_Poll :: "mem \<Rightarrow> image \<Rightarrow> 's FragmentHandler \<Rightarrow> int \<Rightarrow> 's \<Rightarrow>
    (int \<times> image \<times> mem \<times> 's) res option" where
  "Image_Poll m img handler fragmentLimit s =
     (if img_isClosed img then Some (Inr (0, img, m, s))
      else
        (case poll_start m img of
           Inl e \<Rightarrow> Some (Inl e)
         | Inr (position, termOffset, tbuf) \<Rightarrow>
             map_option (\<lambda>r. bindR r (\<lambda>(offset, result, header, s).
                 let newPosition = wrap64 (position + wrap32 (offset - termOffset))
                 in bindR (advance_position m img position newPosition) (\<lambda>m.
                    Inr (result, img\<lparr>img_header := header\<rparr>, m, s))))
               (Read m tbuf termOffset handler fragmentLimit (img_header img) s)))"

subsection \<open>Bounded polling\<close>

partial_function (option) BoundedPoll_loop ::
  "'s FragmentHandler \<Rightarrow> mem \<Rightarrow> buffer \<Rightarrow> int \<Rightarrow> int \<Rightarrow> int \<Rightarrow> int \<Rightarrow> Header \<Rightarrow> 's \<Rightarrow>
   (int \<times> int \<times> Header \<times> 's) res option" where
  "BoundedPoll_loop handler m tbuf limitOffset fragmentLimit offset fragmentsRead header s =
     (if fragmentsRead < fragmentLimit \<and> offset < limitOffset then
        (case GetFrameLength m tbuf offset of
           Inl e \<Rightarrow> Some (Inl e)
         | Inr len \<Rightarrow>
             if len \<le> 0 then Some (Inr (offset, fragmentsRead, header, s))
             else
               (let frameOffset = offset;
                    alignedLength = AlignInt32 len FrameAlignment;
                    offset = wrap32 (offset + alignedLength)
                in case IsPaddingFrame m tbuf frameOffset of
                     Inl e \<Rightarrow> Some (Inl e)
                   | Inr padding \<Rightarrow>
                       if padding then
                         BoundedPoll_loop handler m tbuf limitOffset fragmentLimit offset
                           fragmentsRead header s
                       else
                         (let header = SetOffset header frameOffset
                          in case handler s m tbuf
                                    (wrap32 (frameOffset + DataFrameHeader_Length))
                                    (wrap32 (len - DataFrameHeader_Length)) header of
                               Inl e \<Rightarrow> Some (Inl e)
                             | Inr s \<Rightarrow>
                                 BoundedPoll_loop handler m tbuf limitOffset fragmentLimit
                                   offset (fragmentsRead + 1) header s)))
      else Some (Inr (offset, fragmentsRead, header, s)))"

definition Image_BoundedPoll :: "mem \<Rightarrow> image \<Rightarrow> 's FragmentHandler \<Rightarrow> int \<Rightarrow> int \<Rightarrow> 's \<Rightarrow>
    (int \<times> image \<times> mem \<times> 's) res option" where
  "Image_BoundedPoll m img handler limitPosition fragmentLimit s =
     (if img_isClosed img then Some (Inr (0, img, m, s))
      else
        (case poll_start m img of
           Inl e \<Rightarrow> Some (Inl e)
         | Inr (initialPosition, initialOffset, tbuf) \<Rightarrow>
             (let capacity = Capacity tbuf;
                  limitOffset = wrap32 (wrap32 (limitPosition - initialPosition) + initialOffset);
                  limitOffset = (if limitOffset > capacity then capacity else limitOffset);
                  header = Header_Wrap (img_header img) (Ptr tbuf) (Capacity tbuf)
              in map_option (\<lambda>r. bindR r (\<lambda>(offset, fragmentsRead, header, s).
                     let resultingPosition = wrap64 (initialPosition + wrap32 (offset - initialOffset))
                     in bindR (advance_position m img initialPosition resultingPosition) (\<lambda>m.
                        Inr (fragmentsRead, img\<lparr>img_header := header\<rparr>, m, s))))
                   (BoundedPoll_loop handler m tbuf limitOffset fragmentLimit initialOffset 0
                      header s))))"

subsection \<open>Controlled polling\<close>

type_synonym ControlledPollAction = int

definition ControlledPollActionAbort :: ControlledPollAction where [simp]: "ControlledPollActionAbort = 1"
definition ControlledPollActionBreak :: ControlledPollAction where [simp]: "ControlledPollActionBreak = 2"
definition ControlledPollActionCommit :: ControlledPollAction where [simp]: "ControlledPollActionCommit = 3"
definition ControlledPollActionContinue :: ControlledPollAction where [simp]: "ControlledPollActionContinue = 4"

type_synonym 's ControlledFragmentHandler =
  "'s \<Rightarrow> mem \<Rightarrow> buffer \<Rightarrow> int \<Rightarrow> int \<Rightarrow> Header \<Rightarrow> (ControlledPollAction \<times> 's) res"

text \<open>
  One round of the loop: whether to go on, and the new (memory, offset, fragments read, initial
  position, initial offset, header, handler state).
\<close>

type_synonym 's cpoll = "mem \<times> int \<times> int \<times> int \<times> int \<times> Header \<times> 's"

definition ControlledPoll_step ::
  "'s ControlledFragmentHandler \<Rightarrow> Position \<Rightarrow> buffer \<Rightarrow> int \<Rightarrow> 's cpoll \<Rightarrow> (bool \<times> 's cpoll) res" where
  "ControlledPoll_step handler pos tbuf fragmentLimit st =
     (case st of (m, offset, fragmentsRead, initialPosition, initialOffset, header, s) \<Rightarrow>
      if fragmentsRead < fragmentLimit \<and> offset < Capacity tbuf then
        bindR (GetFrameLength m tbuf offset) (\<lambda>len.
        if len \<le> 0 then Inr (False, st)
        else
          (let frameOffset = offset;
               alignedLength = AlignInt32 len FrameAlignment;
               offset = wrap32 (offset + alignedLength)
           in bindR (IsPaddingFrame m tbuf frameOffset) (\<lambda>padding.
              if padding then
                Inr (True, m, offset, fragmentsRead, initialPosition, initialOffset, header, s)
              else
                (let fragmentsRead = fragmentsRead + 1;
                     header = SetOffset header frameOffset
                 in bindR (handler s m tbuf (wrap32 (frameOffset + DataFrameHeader_Length))
                             (wrap32 (len - DataFrameHeader_Length)) header) (\<lambda>(action, s).
                    if action = ControlledPollActionAbort then
                      Inr (False, m, wrap32 (offset - alignedLength), fragmentsRead - 1,
                        initialPosition, initialOffset, header, s)
                    else if action = ControlledPollActionBreak then
                      Inr (False, m, offset, fragmentsRead, initialPosition, initialOffset, header, s)
                    else if action = ControlledPollActionCommit then
                      (let initialPosition = wrap64 (initialPosition + wrap32 (offset - initialOffset))
                       in bindR (Position_set m pos initialPosition) (\<lambda>m.
                          Inr (True, m, offset, fragmentsRead, initialPosition, offset, header, s)))
                    else
                      Inr (True, m, offset, fragmentsRead, initialPosition, initialOffset, header, s))))))
      else Inr (False, st))"

partial_function (option) ControlledPoll_loop ::
  "'s ControlledFragmentHandler \<Rightarrow> Position \<Rightarrow> buffer \<Rightarrow> int \<Rightarrow> 's cpoll \<Rightarrow> 's cpoll res option" where
  "ControlledPoll_loop handler pos tbuf fragmentLimit st =
     (case ControlledPoll_step handler pos tbuf fragmentLimit st of
        Inl e \<Rightarrow> Some (Inl e)
      | Inr (continue, st') \<Rightarrow>
          if continue then ControlledPoll_loop handler pos tbuf fragmentLimit st' else Some (Inr st'))"

definition Image_ControlledPoll :: "mem \<Rightarrow> image \<Rightarrow> 's ControlledFragmentHandler \<Rightarrow> int \<Rightarrow> 's \<Rightarrow>
    (int \<times> image \<times> mem \<times> 's) res option" where
  "Image_ControlledPoll m img handler fragmentLimit s =
     (if img_isClosed img then Some (Inr (0, img, m, s))
      else
        (case poll_start m img of
           Inl e \<Rightarrow> Some (Inl e)
         | Inr (initialPosition, initialOffset, tbuf) \<Rightarrow>
             (let header = Header_Wrap (img_header img) (Ptr tbuf) (Capacity tbuf)
              in map_option (\<lambda>r. bindR r
                     (\<lambda>(m, offset, fragmentsRead, initialPosition, initialOffset, header, s).
                     let resultingPosition = wrap64 (initialPosition + wrap32 (offset - initialOffset))
                     in bindR (advance_position m img initialPosition resultingPosition) (\<lambda>m.
                        Inr (fragmentsRead, img\<lparr>img_header := header\<rparr>, m, s))))
                   (ControlledPoll_loop handler (subscriberPosition img) tbuf fragmentLimit
                      (m, initialOffset, 0, initialPosition, initialOffset, header, s)))))"

subsection \<open>State of an image\<close>

definition Image_Position :: "mem \<Rightarrow> image \<Rightarrow> int res" where
  "Image_Position m img =
     (if img_isClosed img then Inr (finalPosition img) else Position_get m (subscriberPosition img))"

definition IsEndOfStream :: "mem \<Rightarrow> image \<Rightarrow> bool res" where
  "IsEndOfStream m img =
     (if img_isClosed img then Inr (img_isEos img)
      else
        bindR (Position_get m (subscriberPosition img)) (\<lambda>position.
        Inr (position \<ge> Int64Field_Get m (EndOfStreamPosOff (lb_meta (img_logBuffers img))))))"

definition TermBufferLength :: "image \<Rightarrow> int" where
  "TermBufferLength img = wrap32 (termLengthMask img + 1)"

definition Image_ActiveTransportCount :: "mem \<Rightarrow> image \<Rightarrow> int" where
  "Image_ActiveTransportCount m img = ActiveTransportCount m (lb_meta (img_logBuffers img))"

definition Image_Close :: "(int \<Rightarrow> string option) \<Rightarrow> mem \<Rightarrow> image \<Rightarrow> (string option \<times> image) res" where
  "Image_Close close m img =
     (if \<not> img_isClosed img then
        bindR (Position_get m (subscriberPosition img)) (\<lambda>final.
        let img1 = img\<lparr>img_isClosed := True, finalPosition := final,
                       img_isEos := final \<ge> Int64Field_Get m (EndOfStreamPosOff
                                      (lb_meta (img_logBuffers img)))\<rparr>
        in bindR (LogBuffers_Close close (img_logBuffers img)) (\<lambda>(err, logBuffers).
           Inr (err, img1\<lparr>img_logBuffers := logBuffers\<rparr>)))
      else Inr (None, img))"

subsection \<open>Well-formed images\<close>

definition counter_addr :: "Position \<Rightarrow> int" where
  "counter_addr pos = Ptr (pos_buffer pos) + pos_offset pos"

definition counter_ok :: "Position \<Rightarrow> bool" where
  "counter_ok pos \<longleftrightarrow>
     0 \<le> pos_offset pos \<and> pos_offset pos + 8 \<le> Capacity (pos_buffer pos) \<and>
     Capacity (pos_buffer pos) < 2147483648"

definition apart :: "Position \<Rightarrow> buffer \<Rightarrow> bool" where
  "apart pos buf \<longleftrightarrow> counter_addr pos + 8 \<le> Ptr buf \<or> Ptr buf + Capacity buf \<le> counter_addr pos"

definition img_wf :: "image \<Rightarrow> nat \<Rightarrow> bool" where
  "img_wf img k \<longleftrightarrow>
     5 \<le> k \<and> k \<le> 30 \<and> length (termBuffers img) = 3 \<and>
     list_all (\<lambda>b. Capacity b = 2 ^ k \<and> apart (subscriberPosition img) b) (termBuffers img) \<and>
     termLengthMask img = 2 ^ k - 1 \<and> img_positionBitsToShift img = int k \<and>
     counter_ok (subscriberPosition img)"

lemma counter_get: "counter_ok pos \<Longrightarrow> Position_get m pos = Inr (get_i64 m (counter_addr pos))"
  by (simp add: counter_ok_def Position_get_def counter_addr_def buffer_ok)

lemma counter_set: "counter_ok pos \<Longrightarrow> Position_set m pos v = Inr (store 8 m (counter_addr pos) v)"
  by (simp add: counter_ok_def Position_set_def counter_addr_def buffer_ok)

lemma and_mask_mod:
  assumes "k \<le> 30"
  shows "wrap32 x AND (2 ^ k - 1) = x mod 2 ^ k"
proof -
  have "(2::int) ^ k dvd 2 ^ 32" using assms by (intro le_imp_power_dvd) simp
  then have dvd: "(2::int) ^ k dvd 4294967296" by simp
  have "wrap32 x mod 2 ^ k = wrap32 x mod 4294967296 mod 2 ^ k" by (rule mod_mod_cancel [OF dvd, symmetric])
  also have "\<dots> = x mod 4294967296 mod 2 ^ k" by (simp only: wrap32_congruent)
  also have "\<dots> = x mod 2 ^ k" by (rule mod_mod_cancel [OF dvd])
  finally show ?thesis by (simp flip: mask_eq_exp_minus_1 take_bit_eq_mask take_bit_eq_mod)
qed

lemma indexByPosition_ok:
  assumes "0 \<le> tc" and "tc < 2147483648" and "0 \<le> off" and "off < 2 ^ k" and "k \<le> 30"
  shows "indexByPosition (tc * 2 ^ k + off) (int k) = Inr (tc mod 3)"
proof -
  define p where "p = tc * 2 ^ k + off"
  have "(2::int) ^ k \<le> 2 ^ 30" using assms(5) by (rule power_increasing) simp
  then have k: "(2::int) ^ k \<le> 1073741824" by simp
  have p: "0 \<le> p" "p < 18446744073709551616"
    unfolding p_def using shl64_pow(2,3) [OF assms(1,2,5)] assms(3,4) k by linarith+
  have "p div 2 ^ k = tc" using assms(3,4) by (simp add: p_def div_pos_pos_trivial)
  moreover have "uint (word_of_int p :: 64 word) = p" using p by (simp add: uint_word_of_int)
  then have "unat (word_of_int p :: 64 word) = nat p" by (simp only: unat_eq_nat_uint)
  moreover have "nat p div 2 ^ k = nat (p div 2 ^ k)" using p by (simp add: nat_div_distrib nat_power_eq)
  ultimately have u: "unat (drop_bit k (word_of_int p :: 64 word)) = nat tc"
    by (simp only: unat_drop_bit_eq) (simp add: drop_bit_eq_div)
  then have "indexByPosition p (int k) = Inr (int (nat tc mod 3))"
    unfolding indexByPosition_def nat_int using assms(2) by (subst FastMod3_32bit) auto
  then show ?thesis using assms(1) by (simp add: zmod_int p_def)
qed

lemma poll_start_ok:
  assumes wf: "img_wf img k" and tc: "0 \<le> tc" "tc < 2147483648" and off: "0 \<le> off" "off < 2 ^ k"
    and pos: "get_i64 m (counter_addr (subscriberPosition img)) = tc * 2 ^ k + off"
    and tb: "tb = termBuffers img ! nat (tc mod 3)"
  shows "poll_start m img = Inr (tc * 2 ^ k + off, off, tb)" and "Capacity tb = 2 ^ k"
    and "apart (subscriberPosition img) tb"
proof -
  have k: "k \<le> 30" and len: "length (termBuffers img) = 3" using wf by (simp_all add: img_wf_def)
  have i: "nat (tc mod 3) < 3" by simp
  then have "index_slice (termBuffers img) (tc mod 3) = Inr tb"
    using len by (simp add: index_slice_def tb)
  moreover have "(tc * 2 ^ k + off) mod 2 ^ k = off" using off by simp
  ultimately show "poll_start m img = Inr (tc * 2 ^ k + off, off, tb)"
    using wf indexByPosition_ok [OF tc off k] and_mask_mod [OF k, of "tc * 2 ^ k + off"]
    by (simp add: poll_start_def img_wf_def counter_get pos Let_def)
  show "Capacity tb = 2 ^ k" "apart (subscriberPosition img) tb"
    using wf i by (auto simp: img_wf_def list_all_length tb)
qed

text \<open>Moving the counter from one position to a later one of the same term.\<close>

lemma advance_position_ok:
  assumes wf: "img_wf img k" and tc: "0 \<le> tc" "tc < 2147483648"
    and off: "0 \<le> off" "off \<le> off'" "off' \<le> 2 ^ k"
    and pos: "get_i64 m (counter_addr (subscriberPosition img)) = tc * 2 ^ k + off"
  shows "wrap64 (tc * 2 ^ k + off + wrap32 (off' - off)) = tc * 2 ^ k + off'"
    and "\<exists>m'. advance_position m img (tc * 2 ^ k + off) (tc * 2 ^ k + off') = Inr m' \<and>
           get_i64 m' (counter_addr (subscriberPosition img)) = tc * 2 ^ k + off' \<and>
           (\<forall>x. x < counter_addr (subscriberPosition img) \<or>
                counter_addr (subscriberPosition img) + 8 \<le> x \<longrightarrow> m' x = m x)"
proof -
  have k: "k \<le> 30" "5 \<le> k" using wf by (simp_all add: img_wf_def)
  have c: "(2::int) ^ k \<le> 1073741824" using pow2_bounds(2) k by blast
  have "wrap32 (off' - off) = off' - off" using off c by (intro wrap32_id) linarith+
  moreover have w: "wrap64 (tc * 2 ^ k + off') = tc * 2 ^ k + off'"
    using shl64_pow(2,3) [OF tc k(1)] off c by (intro wrap64_id) linarith+
  ultimately show "wrap64 (tc * 2 ^ k + off + wrap32 (off' - off)) = tc * 2 ^ k + off'" by simp
  show "\<exists>m'. advance_position m img (tc * 2 ^ k + off) (tc * 2 ^ k + off') = Inr m' \<and>
           get_i64 m' (counter_addr (subscriberPosition img)) = tc * 2 ^ k + off' \<and>
           (\<forall>x. x < counter_addr (subscriberPosition img) \<or>
                counter_addr (subscriberPosition img) + 8 \<le> x \<longrightarrow> m' x = m x)"
  proof (cases "off = off'")
    case True
    then show ?thesis using pos by (simp add: advance_position_def)
  next
    case False
    then show ?thesis
      using wf off w by (simp add: advance_position_def img_wf_def counter_set i64.get_put store_outside)
  qed
qed

subsection \<open>Polling\<close>

text \<open>The subscriber stands at offset \<open>off\<close> of term \<open>tc\<close>, and the term holds the frames \<open>fs\<close> from there on.\<close>

definition image_at :: "mem \<Rightarrow> image \<Rightarrow> nat \<Rightarrow> int \<Rightarrow> int \<Rightarrow> frame list \<Rightarrow> bool" where
  "image_at m img k tc off fs \<longleftrightarrow>
     img_wf img k \<and> \<not> img_isClosed img \<and> 0 \<le> tc \<and> tc < 2147483648 \<and> 0 \<le> off \<and> off < 2 ^ k \<and> off mod 32 = 0 \<and>
     get_i64 m (counter_addr (subscriberPosition img)) = tc * 2 ^ k + off \<and>
     (\<exists>e. log_at m (Ptr (termBuffers img ! nat (tc mod 3))) off fs e \<and> e \<le> 2 ^ k \<and>
          log_stops m (termBuffers img ! nat (tc mod 3)) (2 ^ k) e)"

definition moved_to :: "mem \<Rightarrow> mem \<Rightarrow> image \<Rightarrow> int \<Rightarrow> bool" where
  "moved_to m m' img position \<longleftrightarrow>
     get_i64 m' (counter_addr (subscriberPosition img)) = position \<and>
     (\<forall>x. x < counter_addr (subscriberPosition img) \<or> counter_addr (subscriberPosition img) + 8 \<le> x \<longrightarrow>
          m' x = m x)"

lemma log_end_aligned:
  assumes "log_at m base off fs e" and "off mod 32 = 0" and "e \<le> 2 ^ k" and "5 \<le> k" and "k \<le> 30"
  shows "2 ^ k \<le> e \<or> e + 4 \<le> 2 ^ k"
proof -
  have "e mod 32 = 0" "(2::int) ^ k mod 32 = 0"
    using log_at_aligned [OF assms(1,2)] pow2_bounds(3) [OF assms(4,5)] by simp_all
  then show ?thesis using assms(3) by presburger
qed

context fragment_consumer
begin

lemma image_poll:
  assumes at: "image_at m img k tc off fs" and inv: "invariant s"
    and ds: "ds = take (nat limit) (data_frames fs)"
  shows "\<exists>j off' img' m' s'. Image_Poll m img handler limit s = Some (Inr (int (length ds), img', m', s')) \<and>
           invariant s' \<and> view s' = foldl consume (view s) ds \<and>
           log_at m (Ptr (termBuffers img ! nat (tc mod 3))) off (take j fs) off' \<and>
           data_frames (take j fs) = ds \<and> moved_to m m' img (tc * 2 ^ k + off')"
proof -
  define tb where "tb = termBuffers img ! nat (tc mod 3)"
  have wf: "img_wf img k" and tc: "0 \<le> tc" "tc < 2147483648" and off: "0 \<le> off" "off < 2 ^ k" "off mod 32 = 0"
    and pos: "get_i64 m (counter_addr (subscriberPosition img)) = tc * 2 ^ k + off"
    and closed: "\<not> img_isClosed img" using at by (auto simp: image_at_def)
  obtain e where log: "log_at m (Ptr tb) off fs e" and e: "e \<le> 2 ^ k" and stops: "log_stops m tb (2 ^ k) e"
    using at by (auto simp: image_at_def tb_def)
  have k: "5 \<le> k" "k \<le> 30" using wf by (auto simp: img_wf_def)
  note start = poll_start_ok [OF wf tc off(1,2) pos tb_def]
  have cap: "Capacity tb \<le> 1073741824" using start(2) pow2_bounds(2) [OF k] by simp
  have endc: "Capacity tb \<le> e \<or> e + 4 \<le> Capacity tb" and stops': "log_stops m tb (Capacity tb) e"
    using log_end_aligned [OF log off(3) e k] stops start(2) by simp_all
  obtain j off' header' s' where scan: "scan handler m tb (Capacity tb) limit off 0 (img_header img) s fs =
        Inr (off', 0 + int (length (data_frames (take j fs))), header', s')"
    and s': "invariant s'" "view s' = foldl consume (view s) (data_frames (take j fs))"
    and logj: "log_at m (Ptr tb) off (take j fs) off'"
    and dsj: "e \<le> Capacity tb \<longrightarrow> data_frames (take j fs) = take (nat (limit - 0)) (data_frames fs)"
    using scan_consumes [OF log off(1) _ cap inv, of "Capacity tb" limit 0 "img_header img"] e start(2) by auto
  have dsj: "data_frames (take j fs) = ds" using dsj e start(2) by (simp add: ds)
  have "Read m tb off handler limit (img_header img) s = Some (Inr (off', int (length ds), header', s'))"
    unfolding Read_def
    using Read_loop_scan [OF log off(1) _ cap stops' endc, of handler limit 0 "img_header img" s] scan e start(2) dsj
    by simp
  moreover have bounds: "off \<le> off'" "off' \<le> 2 ^ k"
  proof -
    show "off \<le> off'" using log_at_le [OF logj] .
    have "log_at m (Ptr tb) off (take j fs @ drop j fs) e" using log by simp
    then obtain mid where mid: "log_at m (Ptr tb) off (take j fs) mid" "log_at m (Ptr tb) mid (drop j fs) e"
      unfolding log_at_append by blast
    then have "mid = off'" using log_at_end_unique logj by blast
    then show "off' \<le> 2 ^ k" using log_at_le [OF mid(2)] e by simp
  qed
  note adv = advance_position_ok [OF wf tc off(1) bounds pos]
  obtain m' where "advance_position m img (tc * 2 ^ k + off) (tc * 2 ^ k + off') = Inr m'"
    "moved_to m m' img (tc * 2 ^ k + off')"
    using adv(2) by (auto simp: moved_to_def)
  ultimately have "Image_Poll m img handler limit s =
      Some (Inr (int (length ds), img\<lparr>img_header := header'\<rparr>, m', s'))"
    using closed start(1) adv(1) by (simp add: Image_Poll_def Let_def)
  then show ?thesis
    using s' logj dsj \<open>moved_to m m' img (tc * 2 ^ k + off')\<close> unfolding tb_def by blast
qed

end

end
