(* ===== verification/Image_Polling.thy ===== *)
theory Image_Polling
  imports Image
begin

text \<open>
  What polling an image does to the log behind it. Plain polling delivers the frames in order
  and moves the position over them. Bounded polling is the library's bounded read on a wrapped
  header, and is plain polling when the limit lies behind the term. Controlled polling follows
  the answers of the handler: the specification \<open>cscan\<close> walks over the list of frames.
\<close>

subsection \<open>Bounded polling\<close>

definition wrapped :: "buffer \<Rightarrow> Header \<Rightarrow> bool" where
  "wrapped tb header \<longleftrightarrow> Header_Wrap header (Ptr tb) (Capacity tb) = header"

lemma wrapped_Header_Wrap [simp]: "wrapped tb (Header_Wrap header (Ptr tb) (Capacity tb))"
  by (simp add: wrapped_def Header_Wrap_def)

lemma wrapped_SetOffset [simp]: "wrapped tb header \<Longrightarrow> wrapped tb (SetOffset header off)"
  by (cases header) (auto simp: wrapped_def SetOffset_def Header_Wrap_def)

lemma BoundedPoll_loop_Read_loop:
  "BoundedPoll_loop handler m tb lim limit off n header s = Some r \<Longrightarrow> wrapped tb header \<Longrightarrow>
   Read_loop handler m tb lim limit off n header s = Some r"
proof (induction handler m tb lim limit off n header s r rule: BoundedPoll_loop.raw_induct [rotated, consumes 1, case_names 1])
  case (1 loop handler m tb lim limit off n header s r)
  have w: "SetOffset (Header_Wrap header (Ptr tb) (Capacity tb)) off = SetOffset header off"
    using 1(3) by (simp add: wrapped_def)
  show ?case
    by (subst Read_loop.simps)
       (use 1 in \<open>auto simp: Let_def w split: sum.splits if_splits\<close>)
qed

lemma Read_loop_BoundedPoll_loop:
  "Read_loop handler m tb lim limit off n header s = Some r \<Longrightarrow> wrapped tb header \<Longrightarrow>
   BoundedPoll_loop handler m tb lim limit off n header s = Some r"
proof (induction handler m tb lim limit off n header s r rule: Read_loop.raw_induct [rotated, consumes 1, case_names 1])
  case (1 loop handler m tb lim limit off n header s r)
  have w: "SetOffset (Header_Wrap header (Ptr tb) (Capacity tb)) off = SetOffset header off"
    using 1(3) by (simp add: wrapped_def)
  show ?case
    by (subst BoundedPoll_loop.simps)
       (use 1 in \<open>auto simp: Let_def w split: sum.splits if_splits\<close>)
qed

lemma BoundedPoll_loop_eq:
  assumes "wrapped tb header"
  shows "BoundedPoll_loop handler m tb lim limit off n header s =
         Read_loop handler m tb lim limit off n header s"
  using BoundedPoll_loop_Read_loop [OF _ assms] Read_loop_BoundedPoll_loop [OF _ assms]
  by (metis not_Some_eq)




lemma log_at_take_le: "log_at m base off fs e \<Longrightarrow> log_at m base off (take j fs) mid \<Longrightarrow> mid \<le> e"
  using log_at_append [of m base off "take j fs" "drop j fs" e]
  by (auto dest: log_at_end_unique log_at_le)

text \<open>Every frame a scan passes starts below the offset limit.\<close>

lemma scan_below_limit:
  assumes "log_at m (Ptr tb) off fs e"
    and "scan handler m tb lim limit off n header s fs = Inr (off', n', header', s')"
  shows "\<exists>j. log_at m (Ptr tb) off (take j fs) off' \<and>
           (\<forall>i<j. \<exists>mid < lim. log_at m (Ptr tb) off (take i fs) mid)"
  using assms
proof (induction fs arbitrary: off n header s)
  case Nil
  then show ?case by (intro exI [of _ 0]) auto
next
  case (Cons f fs)
  have f: "frame_at m (Ptr tb + off) = f" "32 \<le> fr_length f" using Cons.prems(1) by auto
  show ?case
  proof (cases "n < limit \<and> off < lim")
    case False
    then show ?thesis using Cons.prems(2) by (intro exI [of _ 0]) auto
  next
    case run: True
    have "\<exists>j. log_at m (Ptr tb) (off + aligned_len (fr_length f)) (take j fs) off' \<and>
           (\<forall>i<j. \<exists>mid < lim. log_at m (Ptr tb) (off + aligned_len (fr_length f)) (take i fs) mid)"
      using Cons run by (auto simp: bindR_def split: if_splits sum.splits)
    then obtain j where j: "log_at m (Ptr tb) (off + aligned_len (fr_length f)) (take j fs) off'"
      "\<forall>i<j. \<exists>mid < lim. log_at m (Ptr tb) (off + aligned_len (fr_length f)) (take i fs) mid" by blast
    have "\<exists>mid < lim. log_at m (Ptr tb) off (take i (f # fs)) mid" if "i < Suc j" for i
      using that j(2) f run by (cases i) auto
    then show ?thesis using j(1) f by (intro exI [of _ "Suc j"]) auto
  qed
qed

lemma BoundedPoll_start:
  assumes at: "image_at m img k tc off fs" and tb: "tb = termBuffers img ! nat (tc mod 3)"
    and lim: "tc * 2 ^ k \<le> limitPosition" "limitPosition - tc * 2 ^ k < 2147483648"
    and l: "l = min (2 ^ k) (limitPosition - tc * 2 ^ k)"
  shows "Image_BoundedPoll m img handler limitPosition limit s =
    Some (bindR (scan handler m tb l limit off 0 (Header_Wrap (img_header img) (Ptr tb) (Capacity tb)) s fs)
      (\<lambda>(off', n, header, s).
         bindR (advance_position m img (tc * 2 ^ k + off) (wrap64 (tc * 2 ^ k + off + wrap32 (off' - off))))
           (\<lambda>m. Inr (n, img\<lparr>img_header := header\<rparr>, m, s))))"
proof -
  have wf: "img_wf img k" and tc: "0 \<le> tc" "tc < 2147483648" and off: "0 \<le> off" "off < 2 ^ k" "off mod 32 = 0"
    and pos: "get_i64 m (counter_addr (subscriberPosition img)) = tc * 2 ^ k + off"
    and closed: "\<not> img_isClosed img" using at by (auto simp: image_at_def)
  obtain e where log: "log_at m (Ptr tb) off fs e" and e: "e \<le> 2 ^ k" and stops: "log_stops m tb (2 ^ k) e"
    using at by (auto simp: image_at_def tb)
  have k: "5 \<le> k" "k \<le> 30" using wf by (auto simp: img_wf_def)
  note start = poll_start_ok [OF wf tc off(1,2) pos tb]
  have c: "(2::int) ^ k \<le> 1073741824" using pow2_bounds(2) [OF k] .
  have "wrap32 (limitPosition - (tc * 2 ^ k + off)) = limitPosition - (tc * 2 ^ k + off)"
    using lim off c by (intro wrap32_id) linarith+
  moreover have "wrap32 (limitPosition - tc * 2 ^ k) = limitPosition - tc * 2 ^ k"
    using lim by (intro wrap32_id) linarith+
  ultimately have limo: "wrap32 (wrap32 (limitPosition - (tc * 2 ^ k + off)) + off) = limitPosition - tc * 2 ^ k"
    by simp
  have l': "(if Capacity tb < wrap32 (wrap32 (limitPosition - (tc * 2 ^ k + off)) + off) then Capacity tb
      else wrap32 (wrap32 (limitPosition - (tc * 2 ^ k + off)) + off)) = l"
    using start(2) by (auto simp: l limo)
  have "l \<le> e \<or> e + 4 \<le> Capacity tb" "log_stops m tb l e"
    using log_end_aligned [OF log off(3) e k] stops start(2) by (auto simp: l log_stops_def)
  then have "Read_loop handler m tb l limit off 0 (Header_Wrap (img_header img) (Ptr tb) (Capacity tb)) s =
      Some (scan handler m tb l limit off 0 (Header_Wrap (img_header img) (Ptr tb) (Capacity tb)) s fs)"
    using e start(2) c by (intro Read_loop_scan [OF log off(1)]) simp_all
  then show ?thesis
    using closed by (simp add: Image_BoundedPoll_def start(1) Let_def l' BoundedPoll_loop_eq split del: if_split)
qed

subsection \<open>Controlled polling\<close>

text \<open>
  The specification along the frames of the term that starts at position \<open>base\<close>: an aborted
  fragment is not consumed, a break ends the poll behind its fragment, a commit publishes the
  position behind its fragment at once.
\<close>

fun cscan :: "'s ControlledFragmentHandler \<Rightarrow> Position \<Rightarrow> buffer \<Rightarrow> int \<Rightarrow> int \<Rightarrow> mem \<Rightarrow> int \<Rightarrow> int \<Rightarrow> Header \<Rightarrow>
    's \<Rightarrow> frame list \<Rightarrow> (mem \<times> int \<times> int \<times> Header \<times> 's) res" where
  "cscan handler pos tb base limit m off n header s [] = Inr (m, off, n, header, s)"
| "cscan handler pos tb base limit m off n header s (f # fs) =
     (let next = off + aligned_len (fr_length f); header' = SetOffset header off
      in if \<not> n < limit then Inr (m, off, n, header, s)
         else if is_padding f then cscan handler pos tb base limit m next n header s fs
         else
           bindR (handler s m tb (off + 32) (fr_length f - 32) header') (\<lambda>(action, s').
           if action = ControlledPollActionAbort then Inr (m, off, n, header', s')
           else if action = ControlledPollActionBreak then Inr (m, next, n + 1, header', s')
           else if action = ControlledPollActionCommit then
             cscan handler pos tb base limit (store 8 m (counter_addr pos) (base + next)) next (n + 1) header' s' fs
           else cscan handler pos tb base limit m next (n + 1) header' s' fs))"

lemma ControlledPoll_step_frame:
  assumes "0 \<le> off" and "off + aligned_len (fr_length f) \<le> Capacity tb"
    and "Capacity tb \<le> 1073741824" and f: "frame_at m (Ptr tb + off) = f" and "32 \<le> fr_length f"
    and "n < limit" and next_def: "next = off + aligned_len (fr_length f)"
  shows "ControlledPoll_step handler pos tb limit (m, off, n, ip, io, header, s) =
     (if is_padding f then Inr (True, m, next, n, ip, io, header, s)
      else bindR (handler s m tb (off + 32) (fr_length f - 32) (SetOffset header off)) (\<lambda>(action, s').
           if action = ControlledPollActionAbort then
             Inr (False, m, off, n, ip, io, SetOffset header off, s')
           else if action = ControlledPollActionBreak then
             Inr (False, m, next, n + 1, ip, io, SetOffset header off, s')
           else if action = ControlledPollActionCommit then
             bindR (Position_set m pos (wrap64 (ip + wrap32 (next - io)))) (\<lambda>m'.
             Inr (True, m', next, n + 1, wrap64 (ip + wrap32 (next - io)), next, SetOffset header off, s'))
           else Inr (True, m, next, n + 1, ip, io, SetOffset header off, s')))"
proof -
  have al: "fr_length f \<le> aligned_len (fr_length f)" by (rule aligned_len_bounds)
  have len: "get_i32 m (Ptr tb + off) = fr_length f" using f by auto
  have "wrap32 (off + aligned_len (fr_length f)) = next" "wrap32 (off + 32) = off + 32"
    "wrap32 (fr_length f - 32) = fr_length f - 32" "wrap32 (next - aligned_len (fr_length f)) = off"
    unfolding next_def using assms al by (simp_all add: wrap32_id)
  moreover have "AlignInt32 (fr_length f) 32 = aligned_len (fr_length f)"
    using assms al by (intro AlignInt32_aligned_len) linarith+
  moreover have "GetFrameLength m tb off = Inr (fr_length f)"
    using assms al by (simp add: GetFrameLength_ok len)
  moreover have "IsPaddingFrame m tb off = Inr (is_padding f)"
    using assms al by (simp add: IsPaddingFrame_ok)
  moreover have "off < Capacity tb" using assms al by linarith
  ultimately show ?thesis
    using assms(5,6) by (simp add: ControlledPoll_step_def Let_def split del: if_split cong: if_cong)
qed

lemma ControlledPoll_step_stop:
  assumes "0 \<le> off" and "Capacity tb \<le> off \<or> off + 4 \<le> Capacity tb" and "Capacity tb < 2147483648"
    and "log_stops m tb (Capacity tb) off \<or> \<not> n < limit"
  shows "ControlledPoll_step handler pos tb limit (m, off, n, ip, io, header, s) =
         Inr (False, m, off, n, ip, io, header, s)"
  using assms by (auto simp: ControlledPoll_step_def log_stops_def GetFrameLength_ok)

text \<open>
  Between rounds of the loop the counter holds the last committed position \<open>base + io\<close>, and
  the rest of the memory is the one the poll started with.
\<close>

definition committed :: "mem \<Rightarrow> mem \<Rightarrow> Position \<Rightarrow> int \<Rightarrow> bool" where
  "committed m0 m pos ip \<longleftrightarrow>
     get_i64 m (counter_addr pos) = ip \<and>
     (\<forall>x. x < counter_addr pos \<or> counter_addr pos + 8 \<le> x \<longrightarrow> m x = m0 x)"

definition cpoll_result ::
  "mem \<Rightarrow> Position \<Rightarrow> buffer \<Rightarrow> int \<Rightarrow> int \<Rightarrow> int \<Rightarrow> int \<Rightarrow> frame list \<Rightarrow> (mem \<times> int \<times> int \<times> Header \<times> 's) res \<Rightarrow>
   's cpoll res option \<Rightarrow> bool" where
  "cpoll_result m0 pos tb base limit off n fs spec r \<longleftrightarrow>
     (case spec of
        Inl e \<Rightarrow> r = Some (Inl e)
      | Inr (m', off', n', header', s') \<Rightarrow>
          \<exists>io j. r = Some (Inr (m', off', n', base + io, io, header', s')) \<and> 0 \<le> io \<and> io \<le> off' \<and>
            committed m0 m' pos (base + io) \<and> n \<le> n' \<and> n' \<le> max n limit \<and>
            log_at m0 (Ptr tb) off (take j fs) off' \<and> n' - n \<le> int (length (data_frames (take j fs))))"

lemma committed_store:
  assumes "committed m0 m pos ip" and "- 9223372036854775808 \<le> v" and "v < 9223372036854775808"
  shows "committed m0 (store 8 m (counter_addr pos) v) pos v"
  using assms by (simp add: committed_def i64.get_put store_outside wrap64_id)

lemma committed_log:
  assumes "committed m0 m pos ip" and "apart pos tb" and "0 \<le> off" and "e \<le> Capacity tb"
  shows "log_at m (Ptr tb) off fs e \<longleftrightarrow> log_at m0 (Ptr tb) off fs e"
proof
  have same: "m x = m0 x" if "Ptr tb + off \<le> x" "x < Ptr tb + e" for x
    using assms that by (auto simp: committed_def apart_def)
  show "log_at m (Ptr tb) off fs e" if "log_at m0 (Ptr tb) off fs e"
    using that by (rule log_at_cong) (rule same)
  show "log_at m0 (Ptr tb) off fs e" if "log_at m (Ptr tb) off fs e"
    using that by (rule log_at_cong) (rule same [symmetric])
qed

lemma committed_stops:
  assumes "committed m0 m pos ip" and "apart pos tb" and "0 \<le> e" and "lim \<le> e \<or> e + 4 \<le> Capacity tb"
  shows "log_stops m tb lim e \<longleftrightarrow> log_stops m0 tb lim e"
proof (cases "lim \<le> e")
  case False
  then have "get_i32 m (Ptr tb + e) = get_i32 m0 (Ptr tb + e)"
    using assms by (intro i32.get_local) (auto simp: committed_def apart_def)
  then show ?thesis by (simp add: log_stops_def)
qed (simp add: log_stops_def)

lemma cpoll_result_Cons:
  assumes r: "cpoll_result m0 pos tb base limit (off + aligned_len (fr_length f)) n1 fs spec r"
    and f: "frame_at m0 (Ptr tb + off) = f" "32 \<le> fr_length f"
    and n: "n1 = n \<and> is_padding f \<or> n1 = n + 1 \<and> n < limit \<and> \<not> is_padding f"
  shows "cpoll_result m0 pos tb base limit off n (f # fs) spec r"
proof (cases spec)
  case (Inr y)
  obtain m' off' n' header' s' where y: "y = (m', off', n', header', s')" by (cases y)
  obtain io j where "r = Some (Inr (m', off', n', base + io, io, header', s'))" "0 \<le> io" "io \<le> off'"
    "committed m0 m' pos (base + io)" "n1 \<le> n'" "n' \<le> max n1 limit"
    "log_at m0 (Ptr tb) (off + aligned_len (fr_length f)) (take j fs) off'"
    "n' - n1 \<le> int (length (data_frames (take j fs)))"
    using r unfolding cpoll_result_def Inr y by auto
  then show ?thesis
    unfolding cpoll_result_def Inr y using f n by (auto intro!: exI [of _ "Suc j"])
qed (use r in \<open>simp add: cpoll_result_def\<close>)

lemma cpoll_result_end:
  assumes "committed m0 m pos (base + io)" and "0 \<le> io" and "io \<le> off"
  shows "cpoll_result m0 pos tb base limit off n fs (Inr (m, off, n, header, s))
           (Some (Inr (m, off, n, base + io, io, header, s)))"
  using assms by (auto simp: cpoll_result_def intro!: exI [of _ io] exI [of _ "0::nat"])

text \<open>One data frame: whatever the handler answers, the loop goes on as the specification does.\<close>

lemma ControlledPoll_loop_data:
  assumes pos: "counter_ok pos" and cap: "Capacity tb \<le> 1073741824"
    and base: "0 \<le> base" "base + Capacity tb < 9223372036854775808"
    and nxt_def: "nxt = off + aligned_len (fr_length f)" and nxt: "nxt \<le> Capacity tb"
    and io: "0 \<le> io" "io \<le> off" and c: "committed m0 m pos (base + io)"
    and f: "frame_at m0 (Ptr tb + off) = f" "frame_at m (Ptr tb + off) = f" "32 \<le> fr_length f"
    and run: "n < limit" and data: "\<not> is_padding f"
    and IH: "\<And>m io header s. \<lbrakk>0 \<le> io; io \<le> nxt; committed m0 m pos (base + io)\<rbrakk> \<Longrightarrow>
      cpoll_result m0 pos tb base limit nxt (n + 1) fs (cscan handler pos tb base limit m nxt (n + 1) header s fs)
        (ControlledPoll_loop handler pos tb limit (m, nxt, n + 1, base + io, io, header, s))"
  shows "cpoll_result m0 pos tb base limit off n (f # fs) (cscan handler pos tb base limit m off n header s (f # fs))
           (ControlledPoll_loop handler pos tb limit (m, off, n, base + io, io, header, s))"
proof -
  have off: "0 \<le> off" and n: "io \<le> nxt" "0 \<le> nxt"
    using io f(3) aligned_len_bounds(1) [of "fr_length f"] unfolding nxt_def by linarith+
  note step = ControlledPoll_step_frame [OF off _ cap f(2,3) run nxt_def, folded nxt_def, OF nxt]
  note more = cpoll_result_Cons [OF _ f(1,3), folded nxt_def]
  have w: "wrap32 (nxt - io) = nxt - io" "wrap64 (base + nxt) = base + nxt"
    using n nxt base cap io by (simp_all add: wrap32_id wrap64_id)
  have st: "committed m0 (store 8 m (counter_addr pos) (base + nxt)) pos (base + nxt)"
    using committed_store [OF c] base nxt n by simp
  show ?thesis
  proof (cases "handler s m tb (off + 32) (fr_length f - 32) (SetOffset header off)")
    case (Inl err)
    then show ?thesis using data run
      by (subst ControlledPoll_loop.simps) (simp add: step Let_def cpoll_result_def)
  next
    case (Inr y)
    then obtain action s' where
      h: "handler s m tb (off + 32) (fr_length f - 32) (SetOffset header off) = Inr (action, s')" by (cases y) auto
    note go = data run h more [OF cpoll_result_end [OF c io(1) n(1)], of "n + 1" n limit fs "SetOffset header off" s']
      more [OF IH [OF n(2) order_refl st, of "SetOffset header off" s']]
      more [OF IH [OF io(1) n(1) c, of "SetOffset header off" s']]
      cpoll_result_end [OF c io, of tb limit n "f # fs" "SetOffset header off" s']
    show ?thesis
      by (subst ControlledPoll_loop.simps)
         (use go in \<open>simp add: step Let_def counter_set [OF pos] w flip: nxt_def\<close>)
  qed
qed

lemma ControlledPoll_loop_cscan:
  assumes pos: "counter_ok pos" "apart pos tb" and cap: "Capacity tb \<le> 1073741824"
    and base: "0 \<le> base" "base + Capacity tb < 9223372036854775808"
    and e: "e \<le> Capacity tb" "Capacity tb \<le> e \<or> e + 4 \<le> Capacity tb" "log_stops m0 tb (Capacity tb) e"
    and "log_at m0 (Ptr tb) off fs e" and "0 \<le> io" and "io \<le> off" and "committed m0 m pos (base + io)"
  shows "cpoll_result m0 pos tb base limit off n fs (cscan handler pos tb base limit m off n header s fs)
           (ControlledPoll_loop handler pos tb limit (m, off, n, base + io, io, header, s))"
  using assms(9-)
proof (induction fs arbitrary: m off n io header s)
  case Nil
  then have off: "off = e" "0 \<le> off" by auto
  have "ControlledPoll_loop handler pos tb limit (m, off, n, base + io, io, header, s) =
      Some (Inr (m, off, n, base + io, io, header, s))"
    using ControlledPoll_step_stop [OF off(2), of tb m n limit handler pos "base + io" io header s]
      committed_stops [OF Nil.prems(4) pos(2) off(2), of "Capacity tb"] e cap off(1)
    by (subst ControlledPoll_loop.simps) simp
  then show ?case using cpoll_result_end [OF Nil.prems(4,2,3)] by simp
next
  case (Cons f fs)
  define nxt where "nxt = off + aligned_len (fr_length f)"
  have f: "frame_at m0 (Ptr tb + off) = f" "32 \<le> fr_length f" and rest: "log_at m0 (Ptr tb) nxt fs e"
    using Cons.prems(1) by (auto simp: nxt_def)
  have off: "0 \<le> off" using Cons.prems(2,3) by linarith
  have nxt: "off \<le> nxt" "nxt \<le> Capacity tb" "io \<le> nxt"
    using f(2) aligned_len_bounds(1) [of "fr_length f"] log_at_le [OF rest] e(1) off Cons.prems(3)
    unfolding nxt_def by linarith+
  have "log_at m0 (Ptr tb) off [f] nxt" using f by (simp add: nxt_def)
  then have fm: "frame_at m (Ptr tb + off) = f"
    using committed_log [OF Cons.prems(4) pos(2) off nxt(2), of "[f]"] by simp
  note IH = Cons.IH [OF rest]
  consider "\<not> n < limit" | "n < limit" "is_padding f" | "n < limit" "\<not> is_padding f" by blast
  then show ?case
  proof cases
    case 1
    then show ?thesis
      using cpoll_result_end [OF Cons.prems(4,2,3)]
      by (subst ControlledPoll_loop.simps) (simp add: ControlledPoll_step_def Let_def)
  next
    case 2
    note step = ControlledPoll_step_frame [OF off _ cap fm f(2) 2(1) nxt_def, folded nxt_def, OF nxt(2)]
    show ?thesis
      using 2 cpoll_result_Cons [OF _ f, folded nxt_def, OF IH [OF Cons.prems(2) nxt(3) Cons.prems(4), of n header s]]
      by (subst ControlledPoll_loop.simps) (simp add: step Let_def flip: nxt_def)
  next
    case 3
    show ?thesis
      by (rule ControlledPoll_loop_data [OF pos(1) cap base nxt_def nxt(2) Cons.prems(2-4) f(1) fm f(2) 3 IH])
  qed
qed

subsection \<open>Properties\<close>

definition sample_image :: image where
  "sample_image =
     \<lparr>sourceIdentity = [], img_logBuffers = \<lparr>mmapFiles = [], lb_buffers = [],
        lb_meta = meta_at 20480, refCount = 0\<rparr>,
      termBuffers = [Wrap 4096 128, Wrap 8192 128, Wrap 12288 128],
      subscriberPosition = \<lparr>pos_buffer = Wrap 65536 128, pos_id = 0, pos_offset = 0\<rparr>,
      img_header = zero_header, img_isClosed = False, img_isEos = False, termLengthMask = 127,
      img_positionBitsToShift = 7, img_sessionID = 11, joinPosition = 0, finalPosition = 0,
      subscriptionRegistrationID = 1, img_correlationID = 2\<rparr>"

lemma sample_image_at: "image_at sample_frame_mem sample_image 7 0 0 [frame_at sample_frame_mem 4096]"
proof -
  have "get_i64 sample_frame_mem 65536 = 0" by code_simp
  moreover have "img_wf sample_image 7"
    by (simp add: img_wf_def sample_image_def Wrap_def apart_def counter_addr_def counter_ok_def)
  ultimately show ?thesis
    using sample_frame_log
    by (auto simp: image_at_def sample_image_def Wrap_def counter_addr_def log_stops_def simp del: log_at.simps
        intro!: exI [of _ 64])
qed

text \<open>
  (C5) What a subscriber gets: polling an open image hands the payloads of the next data frames
  of the log to the handler, in order, each once and at most \<open>limit\<close> of them, returns their number,
  and moves the position counter to just behind the frames it passed; nothing else in memory
  changes. So the next poll goes on where this one ended.
\<close>

theorem Image_Poll_delivers:
  assumes "image_at m img k tc off fs" and "ds = take (nat limit) (data_frames fs)"
  shows "\<exists>j off' img' m'. Image_Poll m img record_fragment limit s =
             Some (Inr (int (length ds), img', m', s @ map fr_payload ds)) \<and>
           log_at m (Ptr (termBuffers img ! nat (tc mod 3))) off (take j fs) off' \<and>
           data_frames (take j fs) = ds \<and> moved_to m m' img (tc * 2 ^ k + off')"
  using recorder.image_poll [OF assms(1) TrueI assms(2), of s] by (auto simp: foldl_snoc)

theorem Image_Poll_delivers_witness:
  "\<exists>j off' img' m'. Image_Poll sample_frame_mem sample_image record_fragment 10 [] =
             Some (Inr (int (length [frame_at sample_frame_mem 4096]), img', m',
               [] @ map fr_payload [frame_at sample_frame_mem 4096])) \<and>
           log_at sample_frame_mem (Ptr (termBuffers sample_image ! nat (0 mod 3))) 0
             (take j [frame_at sample_frame_mem 4096]) off' \<and>
           data_frames (take j [frame_at sample_frame_mem 4096]) = [frame_at sample_frame_mem 4096] \<and>
           moved_to sample_frame_mem m' sample_image (0 * 2 ^ 7 + off')"
  by (rule Image_Poll_delivers [OF sample_image_at]) (simp add: sample_frame_log)

text \<open>
  (C24) Bounded polling never goes past its limit: every frame it passes starts below the limit
  position, and the counter ends behind the last of them. The limit is any position from the
  start of the current term on, up to 2 GiB further.
\<close>

theorem BoundedPoll_stays_below_limit:
  assumes "image_at m img k tc off fs"
    and "tc * 2 ^ k \<le> limitPosition" and "limitPosition - tc * 2 ^ k < 2147483648"
    and "Image_BoundedPoll m img handler limitPosition limit s = Some (Inr (n, img', m', s'))"
  shows "\<exists>j off'. log_at m (Ptr (termBuffers img ! nat (tc mod 3))) off (take j fs) off' \<and>
           moved_to m m' img (tc * 2 ^ k + off') \<and>
           (\<forall>i<j. \<exists>start. log_at m (Ptr (termBuffers img ! nat (tc mod 3))) off (take i fs) start \<and>
                  tc * 2 ^ k + start < limitPosition)"
proof -
  define tb where "tb = termBuffers img ! nat (tc mod 3)"
  define l where "l = min (2 ^ k) (limitPosition - tc * 2 ^ k)"
  obtain off' header where scan: "scan handler m tb l limit off 0 (Header_Wrap (img_header img) (Ptr tb) (Capacity tb)) s fs =
      Inr (off', n, header, s')"
    and adv: "advance_position m img (tc * 2 ^ k + off) (wrap64 (tc * 2 ^ k + off + wrap32 (off' - off))) = Inr m'"
    using assms(4) unfolding BoundedPoll_start [OF assms(1) tb_def assms(2,3) l_def]
    by (auto simp: bindR_def split: sum.splits)
  have wf: "img_wf img k" and tc: "0 \<le> tc" "tc < 2147483648" and off: "0 \<le> off"
    and pos: "get_i64 m (counter_addr (subscriberPosition img)) = tc * 2 ^ k + off"
    using assms(1) by (auto simp: image_at_def)
  obtain e where log: "log_at m (Ptr tb) off fs e" "e \<le> 2 ^ k"
    using assms(1) by (auto simp: image_at_def tb_def)
  obtain j where j: "log_at m (Ptr tb) off (take j fs) off'"
    "\<forall>i<j. \<exists>mid < l. log_at m (Ptr tb) off (take i fs) mid"
    using scan_below_limit [OF log(1) scan] by blast
  have "off' \<le> 2 ^ k" using log_at_take_le [OF log(1) j(1)] log(2) by linarith
  then have "moved_to m m' img (tc * 2 ^ k + off')"
    using advance_position_ok [OF wf tc off log_at_le [OF j(1)] _ pos] adv by (auto simp: moved_to_def)
  moreover have "tc * 2 ^ k + mid < limitPosition" if "mid < l" for mid using that by (simp add: l_def)
  ultimately show ?thesis using j unfolding tb_def by blast
qed

theorem BoundedPoll_stays_below_limit_witness:
  "\<exists>n img' m' s'. Image_BoundedPoll sample_frame_mem sample_image record_fragment 32 10 [] = Some (Inr (n, img', m', s')) \<and>
     (\<exists>j off'. log_at sample_frame_mem (Ptr (termBuffers sample_image ! nat (0 mod 3))) 0
               (take j [frame_at sample_frame_mem 4096]) off' \<and>
           moved_to sample_frame_mem m' sample_image (0 * 2 ^ 7 + off') \<and>
           (\<forall>i<j. \<exists>start. log_at sample_frame_mem (Ptr (termBuffers sample_image ! nat (0 mod 3))) 0
                (take i [frame_at sample_frame_mem 4096]) start \<and> 0 * 2 ^ 7 + start < 32))"
proof -
  obtain n img' m' s' where
    r: "Image_BoundedPoll sample_frame_mem sample_image record_fragment 32 10 [] = Some (Inr (n, img', m', s'))"
  proof -
    have "advance_position sample_frame_mem sample_image 0 64 = Inr (store 8 sample_frame_mem 65536 64)"
      by (simp add: advance_position_def counter_set counter_ok_def sample_image_def Wrap_def counter_addr_def)
    then show thesis
      using that BoundedPoll_start [OF sample_image_at refl, of 32 32 record_fragment 10 "[]"] sample_frame_log
      by (simp add: record_fragment_def aligned_len_def wrap32_id wrap64_id)
  qed
  have "0 * 2 ^ 7 \<le> (32::int)" "32 - 0 * 2 ^ 7 < (2147483648::int)" by simp_all
  then show ?thesis using BoundedPoll_stays_below_limit [OF sample_image_at _ _ r] r by blast
qed





text \<open>
  (C12) Controlled polling does what its handler answers. Poll and specification fail alike; when
  the handler does not fail, the poll returns the state, the count and the frames consumed by
  the specification: an aborted fragment stays unconsumed and is delivered again by the next
  poll, a break ends the poll behind its fragment, commits publish the position on the way, and
  in the end the counter stands behind the last consumed frame. The count is at most the limit,
  and nothing but the counter changes.
\<close>

theorem ControlledPoll_refines_cscan:
  assumes at: "image_at m img k tc off fs" and tb: "tb = termBuffers img ! nat (tc mod 3)"
    and spec: "spec = cscan handler (subscriberPosition img) tb (tc * 2 ^ k) limit m off 0
       (Header_Wrap (img_header img) (Ptr tb) (Capacity tb)) s fs"
  shows "case spec of
      Inl e \<Rightarrow> Image_ControlledPoll m img handler limit s = Some (Inl e)
    | Inr (_, off', n, _, s') \<Rightarrow>
        \<exists>j img' m'. Image_ControlledPoll m img handler limit s = Some (Inr (n, img', m', s')) \<and>
          0 \<le> n \<and> n \<le> max 0 limit \<and> log_at m (Ptr tb) off (take j fs) off' \<and>
          moved_to m m' img (tc * 2 ^ k + off')"
proof -
  have wf: "img_wf img k" and tc: "0 \<le> tc" "tc < 2147483648" and off: "0 \<le> off" "off < 2 ^ k" "off mod 32 = 0"
    and pos: "get_i64 m (counter_addr (subscriberPosition img)) = tc * 2 ^ k + off"
    and closed: "\<not> img_isClosed img" using at by (auto simp: image_at_def)
  obtain e where log: "log_at m (Ptr tb) off fs e" and e: "e \<le> 2 ^ k" and stops: "log_stops m tb (2 ^ k) e"
    using at by (auto simp: image_at_def tb)
  have k: "5 \<le> k" "k \<le> 30" and cok: "counter_ok (subscriberPosition img)" using wf by (auto simp: img_wf_def)
  note start = poll_start_ok [OF wf tc off(1,2) pos tb]
  have c: "(2::int) ^ k \<le> 1073741824" using pow2_bounds(2) [OF k] .
  have base: "0 \<le> tc * 2 ^ k" "tc * 2 ^ k + Capacity tb < 9223372036854775808"
    using shl64_pow(2,3) [OF tc k(2)] c start(2) by linarith+
  define r where "r = ControlledPoll_loop handler (subscriberPosition img) tb limit
    (m, off, 0, tc * 2 ^ k + off, off, Header_Wrap (img_header img) (Ptr tb) (Capacity tb), s)"
  have "cpoll_result m (subscriberPosition img) tb (tc * 2 ^ k) limit off 0 fs spec r"
    unfolding spec r_def
    using log_end_aligned [OF log off(3) e k] stops e c off(1) pos
    by (intro ControlledPoll_loop_cscan [OF cok start(3) _ base _ _ _ log])
       (simp_all add: start(2) committed_def)
  note res = this [unfolded cpoll_result_def]
  have poll: "Image_ControlledPoll m img handler limit s = map_option (\<lambda>r. bindR r
      (\<lambda>(m, offset, n, ip, io, header, s).
         bindR (advance_position m img ip (wrap64 (ip + wrap32 (offset - io)))) (\<lambda>m.
         Inr (n, img\<lparr>img_header := header\<rparr>, m, s)))) r"
    by (simp add: Image_ControlledPoll_def closed start(1) Let_def r_def)
  show ?thesis
  proof (cases spec)
    case (Inr y)
    obtain m1 off' n header' s' where y: "y = (m1, off', n, header', s')" by (cases y)
    obtain io j where r: "r = Some (Inr (m1, off', n, tc * 2 ^ k + io, io, header', s'))"
      and io: "0 \<le> io" "io \<le> off'" and com: "committed m m1 (subscriberPosition img) (tc * 2 ^ k + io)"
      and n: "0 \<le> n" "n \<le> max 0 limit" and j: "log_at m (Ptr tb) off (take j fs) off'"
      using res unfolding Inr y by auto
    have "off' \<le> 2 ^ k" using log_at_take_le [OF log j] e by linarith
    note adv = advance_position_ok [OF wf tc io this, of m1]
    obtain m' where "advance_position m1 img (tc * 2 ^ k + io) (tc * 2 ^ k + off') = Inr m'"
      and "moved_to m m' img (tc * 2 ^ k + off')"
      using adv(2) com by (auto simp: committed_def moved_to_def)
    then show ?thesis
      using com adv(1) n j by (auto simp: Inr y poll r committed_def)
  qed (use res poll in simp)
qed

definition abort_all :: "nat ControlledFragmentHandler" where
  "abort_all s m buf off len header = Inr (ControlledPollActionAbort, s + 1)"

theorem ControlledPoll_refines_cscan_witness:
  "\<exists>j img' m'. Image_ControlledPoll sample_frame_mem sample_image abort_all 10 0 = Some (Inr (0, img', m', 1)) \<and>
     log_at sample_frame_mem 4096 0 (take j [frame_at sample_frame_mem 4096]) 0 \<and>
     moved_to sample_frame_mem m' sample_image 0"
  using ControlledPoll_refines_cscan [OF sample_image_at refl refl, of abort_all 10 0] sample_frame_log
  by (auto simp: Let_def abort_all_def sample_image_def Wrap_def)

end
