(* ===== verification/Fragment_Assembler.thy ===== *)
theory Fragment_Assembler
  imports Image_Polling
begin

text \<open>
  \<open>aeron/fragmentassembler.go\<close> and \<open>aeron/controlledfragmentassembler.go\<close>: handlers that put the
  fragments of a message together, one builder per session, and hand whole messages to a
  delegate. The bytes of a finished builder are at the address \<open>alloc\<close> the Go runtime chose for
  them; the delegate sees memory with the message written there.
\<close>

definition DefaultFragmentAssemblyBufferLength :: int where
  "DefaultFragmentAssemblyBufferLength = 4096"

record 's FragmentAssembler =
  fa_delegate :: "'s FragmentHandler"
  fa_initialBufferLength :: int
  builderBySessionIdMap :: "int \<Rightarrow> byte list option"

definition NewFragmentAssembler :: "'s FragmentHandler \<Rightarrow> int \<Rightarrow> 's FragmentAssembler" where
  "NewFragmentAssembler delegate initialBufferLength =
     \<lparr>fa_delegate = delegate, fa_initialBufferLength = initialBufferLength,
      builderBySessionIdMap = (\<lambda>_. None)\<rparr>"

definition FragmentAssembler_Clear :: "'s FragmentAssembler \<Rightarrow> 's FragmentAssembler" where
  "FragmentAssembler_Clear f = f\<lparr>builderBySessionIdMap := (\<lambda>_. None)\<rparr>"

text \<open>The call of the delegate on the assembled bytes of a builder.\<close>

definition message_args :: "int \<Rightarrow> mem \<Rightarrow> byte list \<Rightarrow> (mem \<times> buffer \<times> int \<times> int) res" where
  "message_args alloc m builder =
     (let msgLength = int (length builder)
      in bindR (MakeBuffer [BytesArg \<lparr>slice_ptr = alloc, slice_len = msgLength\<rparr>, IntegerArg msgLength])
           (\<lambda>buf. Inr (write_bytes m alloc builder, buf, 0, wrap32 msgLength)))"

definition FragmentAssembler_OnFragment :: "int \<Rightarrow> ('s FragmentAssembler \<times> 's) FragmentHandler" where
  "FragmentAssembler_OnFragment alloc st m buf offset len header =
     (case st of (f, s) \<Rightarrow>
      bindR (Header_Flags m header) (\<lambda>flags.
      if flags AND unfragmented = unfragmented then
        bindR (fa_delegate f s m buf offset len header) (\<lambda>s. Inr (f, s))
      else if flags AND beginFrag = beginFrag then
        bindR (Header_SessionId m header) (\<lambda>session.
        bindR (WriteBytes m buf [] offset len) (\<lambda>builder.
        Inr (f\<lparr>builderBySessionIdMap := (builderBySessionIdMap f)(session \<mapsto> builder)\<rparr>, s)))
      else
        bindR (Header_SessionId m header) (\<lambda>session.
        case builderBySessionIdMap f session of
          None \<Rightarrow> Inr (f, s)
        | Some builder \<Rightarrow>
            if length builder \<noteq> 0 then
              bindR (WriteBytes m buf builder offset len) (\<lambda>builder.
              let f = f\<lparr>builderBySessionIdMap := (builderBySessionIdMap f)(session \<mapsto> builder)\<rparr>
              in if flags AND endFrag = endFrag then
                   bindR (message_args alloc m builder) (\<lambda>(m, buf, offset, len).
                   bindR (fa_delegate f s m buf offset len header) (\<lambda>s.
                   Inr (f\<lparr>builderBySessionIdMap := (builderBySessionIdMap f)(session \<mapsto> [])\<rparr>, s)))
                 else Inr (f, s))
            else Inr (f, s))))"

subsection \<open>Controlled assembly\<close>

record 's ControlledFragmentAssembler =
  cfa_delegate :: "'s ControlledFragmentHandler"
  cfa_initialBufferLength :: int
  cfa_builderBySessionIdMap :: "int \<Rightarrow> byte list option"

definition NewControlledFragmentAssembler ::
  "'s ControlledFragmentHandler \<Rightarrow> int \<Rightarrow> 's ControlledFragmentAssembler" where
  "NewControlledFragmentAssembler delegate initialBufferLength =
     \<lparr>cfa_delegate = delegate, cfa_initialBufferLength = initialBufferLength,
      cfa_builderBySessionIdMap = (\<lambda>_. None)\<rparr>"

definition ControlledFragmentAssembler_OnFragment ::
  "int \<Rightarrow> ('s ControlledFragmentAssembler \<times> 's) ControlledFragmentHandler" where
  "ControlledFragmentAssembler_OnFragment alloc st m buf offset len header =
     (case st of (f, s) \<Rightarrow>
      bindR (Header_Flags m header) (\<lambda>flags.
      if flags AND unfragmented = unfragmented then
        bindR (cfa_delegate f s m buf offset len header) (\<lambda>(action, s). Inr (action, f, s))
      else if flags AND beginFrag = beginFrag then
        bindR (Header_SessionId m header) (\<lambda>session.
        bindR (WriteBytes m buf [] offset len) (\<lambda>builder.
        Inr (ControlledPollActionContinue,
          f\<lparr>cfa_builderBySessionIdMap := (cfa_builderBySessionIdMap f)(session \<mapsto> builder)\<rparr>, s)))
      else
        bindR (Header_SessionId m header) (\<lambda>session.
        case cfa_builderBySessionIdMap f session of
          None \<Rightarrow> Inr (ControlledPollActionContinue, f, s)
        | Some builder \<Rightarrow>
            let limit = length builder
            in if limit > 0 then
              bindR (WriteBytes m buf builder offset len) (\<lambda>builder.
              let f = f\<lparr>cfa_builderBySessionIdMap := (cfa_builderBySessionIdMap f)(session \<mapsto> builder)\<rparr>
              in if flags AND endFrag = endFrag then
                   bindR (message_args alloc m builder) (\<lambda>(m, buf, offset, len).
                   bindR (cfa_delegate f s m buf offset len header) (\<lambda>(action, s).
                   let builder = (if action = ControlledPollActionAbort then take limit builder else [])
                   in Inr (action,
                        f\<lparr>cfa_builderBySessionIdMap := (cfa_builderBySessionIdMap f)(session \<mapsto> builder)\<rparr>, s)))
                 else Inr (ControlledPollActionContinue, f, s))
            else Inr (ControlledPollActionContinue, f, s))))"

subsection \<open>The specification of assembly\<close>

text \<open>
  Along the frames of a log: the builders of the sessions and the messages delivered. (A
  message of 2 GiB or more would be delivered with its length reduced to 32 bits.)
\<close>

type_synonym 'a assembly = "(int \<Rightarrow> byte list option) \<times> 'a"

definition assemble :: "('a \<Rightarrow> byte list \<Rightarrow> 'a) \<Rightarrow> 'a assembly \<Rightarrow> frame \<Rightarrow> 'a assembly" where
  "assemble deliver st f =
     (case st of (b, v) \<Rightarrow>
      if fr_flags f AND unfragmented = unfragmented then (b, deliver v (fr_payload f))
      else if fr_flags f AND beginFrag = beginFrag then (b(fr_session f \<mapsto> fr_payload f), v)
      else
        case b (fr_session f) of
          None \<Rightarrow> st
        | Some p \<Rightarrow>
            if p = [] then st
            else
              let q = p @ fr_payload f
              in if fr_flags f AND endFrag = endFrag then
                   (b(fr_session f \<mapsto> []), deliver v (take (nat (wrap32 (int (length q)))) q))
                 else (b(fr_session f \<mapsto> q), v))"

lemma frame_header_reads:
  assumes "frame_at m (Ptr buf + off) = f" and "32 \<le> fr_length f" and "0 \<le> off"
    and "off + fr_length f \<le> Capacity buf" and "Capacity buf \<le> 1073741824"
  shows "Header_Flags m (frame_header header buf off) = Inr (fr_flags f)"
    and "Header_SessionId m (frame_header header buf off) = Inr (fr_session f)"
  using assms
  by (auto simp: frame_header_def SetOffset_def Header_Wrap_def Header_Flags_def Header_SessionId_def
      GetFlags_def flagsOffset_def GetSessionId_def sessionIdOffset_def buffer_ok wrap32_id frame_at_def add.assoc)

text \<open>The interface of a delegate: it reads the message it is given and nothing else.\<close>

locale message_consumer =
  fixes delegate :: "'s FragmentHandler"
    and invariant :: "'s \<Rightarrow> bool"
    and view :: "'s \<Rightarrow> 'a"
    and deliver :: "'a \<Rightarrow> byte list \<Rightarrow> 'a"
  assumes delivers:
    "invariant s \<Longrightarrow> \<exists>s'. delegate s m buf offset len header = Inr s' \<and> invariant s' \<and>
       view s' = deliver (view s) (read_bytes m (Ptr buf + offset) (nat len))"

lemma wrap32_le_nat: "nat (wrap32 (int n)) \<le> n"
proof -
  have "(int n + 2147483648) mod 4294967296 \<le> int n + 2147483648" by (rule zmod_le_nonneg_dividend) simp
  then show ?thesis by (simp add: wrap32_def)
qed

lemma read_write_bytes_take:
  assumes "n \<le> length bs"
  shows "read_bytes (write_bytes m a bs) a n = take n bs"
  using assms by (intro nth_equalityI) (auto simp: nth_read_bytes write_bytes_apply)

sublocale message_consumer \<subseteq> assembled: fragment_consumer "FragmentAssembler_OnFragment alloc"
  "\<lambda>(f, s). fa_delegate f = delegate \<and> invariant s"
  "\<lambda>(f, s). (builderBySessionIdMap f, view s)" "assemble deliver" for alloc
proof
  fix st :: "'s FragmentAssembler \<times> 's" and m buf off f header
  assume st: "case st of (f, s) \<Rightarrow> fa_delegate f = delegate \<and> invariant s"
    and f: "frame_at m (Ptr buf + off) = f" "\<not> is_padding f" "32 \<le> fr_length f" "0 \<le> off"
      "off + fr_length f \<le> Capacity buf" "Capacity buf \<le> 1073741824"
  obtain fa s where fs: "st = (fa, s)" "fa_delegate fa = delegate" "invariant s" using st by (cases st) auto
  let ?h = "frame_header header buf off"
  have flags: "Header_Flags m ?h = Inr (fr_flags f)" and session: "Header_SessionId m ?h = Inr (fr_session f)"
    using f by (auto simp: frame_header_reads)
  have payload: "fr_payload f = read_bytes m (Ptr buf + (off + 32)) (nat (fr_length f - 32))"
    using f by (auto simp: frame_at_def add.assoc)
  have wr: "WriteBytes m buf b (off + 32) (fr_length f - 32) = Inr (b @ fr_payload f)" for b
    unfolding payload using f by (intro WriteBytes_ok) auto
  have call: "\<exists>s'. delegate s m buf offset len ?h = Inr s' \<and> invariant s' \<and>
      view s' = deliver (view s) (read_bytes m (Ptr buf + offset) (nat len))" for m buf offset len
    by (rule delivers) fact
  show "\<exists>s'. FragmentAssembler_OnFragment alloc st m buf (off + 32) (fr_length f - 32) ?h = Inr s' \<and>
      (case s' of (f, s) \<Rightarrow> fa_delegate f = delegate \<and> invariant s) \<and>
      (case s' of (f, s) \<Rightarrow> (builderBySessionIdMap f, view s)) =
        assemble deliver (case st of (f, s) \<Rightarrow> (builderBySessionIdMap f, view s)) f"
  proof (cases "builderBySessionIdMap fa (fr_session f)")
    case None
    then show ?thesis
      using call [of m buf "off + 32" "fr_length f - 32"]
      by (auto simp: FragmentAssembler_OnFragment_def fs flags session wr assemble_def payload)
  next
    case (Some p)
    obtain s1 where s1: "delegate s (write_bytes m alloc (p @ fr_payload f))
        (Wrap alloc (wrap32 (int (length (p @ fr_payload f))))) 0 (wrap32 (int (length (p @ fr_payload f)))) ?h = Inr s1"
      "invariant s1" "view s1 = deliver (view s) (take (nat (wrap32 (int (length (p @ fr_payload f))))) (p @ fr_payload f))"
      using call [of "write_bytes m alloc (p @ fr_payload f)"
          "Wrap alloc (wrap32 (int (length (p @ fr_payload f))))" 0 "wrap32 (int (length (p @ fr_payload f)))"]
        read_write_bytes_take [OF wrap32_le_nat, of m alloc "p @ fr_payload f"] by auto
    show ?thesis
    proof (cases "p = []")
      case True
      then show ?thesis
        using call [of m buf "off + 32" "fr_length f - 32"] Some
        by (auto simp: FragmentAssembler_OnFragment_def fs flags session wr assemble_def payload)
    next
      case False
      then have "0 < int (length p) + int (length (fr_payload f))" by (cases p) simp_all
      then show ?thesis
        using False call [of m buf "off + 32" "fr_length f - 32"] Some s1
        by (auto simp: FragmentAssembler_OnFragment_def fs flags session wr assemble_def Let_def
            message_args_def MakeBuffer_def first_element_def simp flip: payload)
    qed
  qed
qed

interpretation recorded: message_consumer record_fragment "\<lambda>_. True" "\<lambda>s. s" "\<lambda>s p. s @ [p]"
  by unfold_locales (simp add: record_fragment_def)

subsection \<open>Messages\<close>

lemma assemble_rest:
  assumes "is_fragments ap supp tid mp False off payload gs" and "payload \<noteq> []" and "0 < mp"
    and "b (sessionID (header_writer ap)) = Some p" and "p \<noteq> []"
    and "int (length (p @ payload)) < 2147483648"
  shows "foldl (assemble deliver) (b, v) gs = (b(sessionID (header_writer ap) \<mapsto> []), deliver v (p @ payload))"
  using assms
proof (induction gs arbitrary: off payload b p)
  case (Cons f fs)
  let ?s = "sessionID (header_writer ap)" and ?q = "take (nat mp) payload"
  have f: "fr_flags f = frag_flags False (int (length payload) \<le> mp)" "fr_session f = ?s" "fr_payload f = ?q"
    using Cons.prems(1) by (auto simp: data_frame_def)
  have rest: "is_fragments ap supp tid mp False (off + aligned_len (fr_length f)) (drop (nat mp) payload) fs"
    using Cons.prems(1) by simp
  show ?case
  proof (cases "int (length payload) \<le> mp")
    case True
    then have "drop (nat mp) payload = []" "?q = payload" by simp_all
    moreover from this have "fs = []" using rest by (cases fs) simp_all
    ultimately show ?thesis
      using f True Cons.prems(4-6) by (auto simp: assemble_def frag_flags_def Let_def wrap32_id)
  next
    case False
    then have "drop (nat mp) payload \<noteq> []" using Cons.prems(3) by simp
    then have "foldl (assemble deliver) (b(?s \<mapsto> p @ ?q), v) fs =
        (b(?s \<mapsto> p @ ?q, ?s \<mapsto> []), deliver v ((p @ ?q) @ drop (nat mp) payload))"
      using Cons.prems(3,5,6) by (intro Cons.IH [OF rest]) simp_all
    moreover have "assemble deliver (b, v) f = (b(?s \<mapsto> p @ ?q), v)"
      using f False Cons.prems(4,5) by (simp add: assemble_def frag_flags_def Let_def)
    ultimately show ?thesis by auto
  qed
qed simp

text \<open>Whatever was left in the builder of the session, the frames of a message deliver it once.\<close>

lemma assemble_message:
  assumes "message_frames ap supp mp tid off payload gs" and "0 < mp" and "int (length payload) < 2147483648"
  shows "\<exists>b'. foldl (assemble deliver) (b, v) gs = (b', deliver v payload) \<and>
    (\<forall>session. session \<noteq> sessionID (header_writer ap) \<longrightarrow> b' session = b session)"
proof (cases "int (length payload) \<le> mp")
  case True
  then obtain rv where "gs = [data_frame (header_writer ap) tid off unfragmented rv payload]"
    using assms(1) by (auto simp: message_frames_def)
  then show ?thesis by (simp add: assemble_def data_frame_def)
next
  case False
  let ?s = "sessionID (header_writer ap)"
  have fr: "is_fragments ap supp tid mp True off payload gs" using assms(1) False by (simp add: message_frames_def)
  have "payload \<noteq> []" using False assms(2) by auto
  then obtain f fs where gs: "gs = f # fs" using fr by (cases gs) auto
  have f: "fr_flags f = 128" "fr_session f = ?s" "fr_payload f = take (nat mp) payload"
    and rest: "is_fragments ap supp tid mp False (off + aligned_len (fr_length f)) (drop (nat mp) payload) fs"
    using fr False by (auto simp: gs data_frame_def frag_flags_def)
  have "foldl (assemble deliver) (b(?s \<mapsto> take (nat mp) payload), v) fs =
      (b(?s \<mapsto> take (nat mp) payload, ?s \<mapsto> []), deliver v (take (nat mp) payload @ drop (nat mp) payload))"
    using False assms(2,3) \<open>payload \<noteq> []\<close> by (intro assemble_rest [OF rest]) simp_all
  moreover have "assemble deliver (b, v) f = (b(?s \<mapsto> take (nat mp) payload), v)"
    using f by (simp add: assemble_def)
  ultimately show ?thesis by (simp add: gs)
qed

subsection \<open>Properties\<close>

lemma WriteBytes_extends: "WriteBytes m buf dest offset len = Inr r \<Longrightarrow> \<exists>w. r = dest @ w"
  by (auto simp: WriteBytes_def bindR_def split: sum.splits if_splits)

text \<open>
  (C23) An aborted delivery can be repeated: when the controlled assembler answers Abort, whatever
  the fragment was, all its builders are as they were before the fragment, so that the
  redelivered fragment completes the same message again.
\<close>

theorem ControlledFragmentAssembler_abort_restores:
  assumes "ControlledFragmentAssembler_OnFragment alloc (f, s) m buf offset len header =
      Inr (ControlledPollActionAbort, f', s')"
  shows "f' = f"
proof -
  have keep: "f\<lparr>cfa_builderBySessionIdMap := (cfa_builderBySessionIdMap f)(x \<mapsto> p)\<rparr> = f"
    if "cfa_builderBySessionIdMap f x = Some p" for x p
    using that by (cases f) (simp add: fun_upd_idem)
  show ?thesis
    using assms
    by (auto simp: ControlledFragmentAssembler_OnFragment_def bindR_def Let_def keep
        split: sum.splits if_splits option.splits prod.splits dest!: WriteBytes_extends)
qed

definition sample_controlled :: "nat ControlledFragmentAssembler" where
  "sample_controlled = \<lparr>cfa_delegate = abort_all, cfa_initialBufferLength = 4096,
     cfa_builderBySessionIdMap = [0 \<mapsto> [1, 2, 3]]\<rparr>"

definition sample_end_frame :: mem where
  "sample_end_frame = store 1 (store 2 (store 4 (\<lambda>_. 0) 4096 40) 4102 TypeData) 4101 0x40"

theorem ControlledFragmentAssembler_abort_restores_witness:
  "\<exists>f' s'. ControlledFragmentAssembler_OnFragment 90000 (sample_controlled, 0) sample_end_frame (Wrap 4096 128) 32 8
       (frame_header zero_header (Wrap 4096 128) 0) = Inr (ControlledPollActionAbort, f', s') \<and> f' = sample_controlled"
proof -
  have "load 1 sample_end_frame 4101 = 0x40" "get_i32 sample_end_frame 4108 = 0" by code_simp+
  then have "Header_Flags sample_end_frame (frame_header zero_header (Wrap 4096 128) 0) = Inr 0x40"
    "Header_SessionId sample_end_frame (frame_header zero_header (Wrap 4096 128) 0) = Inr 0"
    by (simp_all add: frame_header_def SetOffset_def Header_Wrap_def Header_Flags_def Header_SessionId_def Wrap_def
      GetFlags_def flagsOffset_def GetSessionId_def sessionIdOffset_def buffer_ok wrap32_id zero_header_def
      del: One_nat_def)
  moreover have "WriteBytes sample_end_frame (Wrap 4096 128) [1, 2, 3] 32 8 =
      Inr ([1, 2, 3] @ read_bytes sample_end_frame 4128 8)" by (simp add: WriteBytes_ok Wrap_def)
  ultimately obtain f' s' where r: "ControlledFragmentAssembler_OnFragment 90000 (sample_controlled, 0) sample_end_frame
      (Wrap 4096 128) 32 8 (frame_header zero_header (Wrap 4096 128) 0) = Inr (ControlledPollActionAbort, f', s')"
    by (simp add: ControlledFragmentAssembler_OnFragment_def sample_controlled_def message_args_def
      MakeBuffer_def first_element_def abort_all_def Let_def)
  then show ?thesis using ControlledFragmentAssembler_abort_restores [OF r] by blast
qed

end
