(* ===== verification/Pub_Sub.thy ===== *)
theory Pub_Sub
  imports Fragment_Assembler
begin

text \<open>
  The two ends of a stream together: a publication and an image over the same log buffer. What
  an offer commits, a poll delivers, and the assembler makes the message of it again.
\<close>

text \<open>The image reads the terms the publication writes; its counter is apart from the tails.\<close>

definition subscribed :: "image \<Rightarrow> int \<Rightarrow> int \<Rightarrow> nat \<Rightarrow> bool" where
  "subscribed img p base k \<longleftrightarrow>
     img_wf img k \<and> \<not> img_isClosed img \<and>
     termBuffers img = map (\<lambda>i. Wrap (base + i * 2 ^ k) (2 ^ k)) [0, 1, 2] \<and>
     (counter_addr (subscriberPosition img) + 8 \<le> p \<or> p + 24 \<le> counter_addr (subscriberPosition img))"

text \<open>The term from \<open>off\<close> on is still as it was cleared.\<close>

definition clean_from :: "mem \<Rightarrow> int \<Rightarrow> int \<Rightarrow> int \<Rightarrow> bool" where
  "clean_from m base off len \<longleftrightarrow> (\<forall>x. base + off \<le> x \<and> x < base + len \<longrightarrow> m x = 0)"

lemma get_i32_clean:
  assumes "clean_from m base off len" and "off \<le> e" and "e + 4 \<le> len"
  shows "get_i32 m (base + e) = 0"
proof -
  have "get_i32 m (base + e) = get_i32 (\<lambda>_. 0) (base + e)"
    using assms by (intro i32.get_local) (auto simp: clean_from_def)
  also have "\<dots> = 0" by (simp add: get_i32_def load_def read_bytes_def wrap32_def)
  finally show ?thesis .
qed

lemma data_frames_is_fragments: "is_fragments ap s tid mp first off payload gs \<Longrightarrow> data_frames gs = gs"
  by (induction gs arbitrary: first off payload) (auto simp: data_frame_def)

lemma length_is_fragments:
  assumes "is_fragments ap s tid mp first off payload gs" and "0 < mp" and "int (length payload) \<le> n * mp" and "0 \<le> n"
  shows "int (length gs) \<le> n"
  using assms
proof (induction gs arbitrary: first off payload n)
  case (Cons f gs)
  have "payload \<noteq> []" using Cons.prems(1) by simp
  then have "0 < n * mp" using Cons.prems(3) by (cases payload) auto
  then have n: "1 \<le> n" using Cons.prems(2) by (simp add: zero_less_mult_iff)
  have "1 * mp \<le> n * mp" using n Cons.prems(2) by (intro mult_right_mono) auto
  moreover have "(n - 1) * mp = n * mp - mp" by (simp add: left_diff_distrib)
  ultimately have "int (length (drop (nat mp) payload)) \<le> (n - 1) * mp"
    using Cons.prems(2,3) unfolding length_drop by linarith
  then have "int (length gs) \<le> n - 1"
    using Cons.prems(1,2) n by (intro Cons.IH [of False "off + aligned_len (fr_length f)" "drop (nat mp) payload"]) auto
  then show ?case by simp
qed simp

lemma message_frames_count:
  assumes "message_frames ap s mp tid off payload gs" and "0 < mp" and "1 \<le> n" and "int (length payload) \<le> n * mp"
  shows "data_frames gs = gs" and "int (length gs) \<le> n"
  using assms data_frames_is_fragments [of ap s tid mp True off payload gs]
    length_is_fragments [of ap s tid mp True off payload gs n]
  by (auto simp: message_frames_def data_frame_def split: if_splits)

lemma accepted_image_at:
  assumes acc: "accepted m m' pub p base k hw tc off fs req gs r" and inv: "pub_inv m pub p base k hw tc off fs"
    and sub: "subscribed img p base k" and req: "0 < req"
    and pos: "get_i64 m (counter_addr (subscriberPosition img)) = tc * 2 ^ k + off"
    and clean: "clean_from m (base + tc mod 3 * 2 ^ k) off (2 ^ k)"
  shows "image_at m' img k tc off gs" and "log_at m' (base + tc mod 3 * 2 ^ k) off gs (off + req)"
proof -
  define tb where "tb = base + tc mod 3 * 2 ^ k"
  have inv': "pub_inv m' pub p base k hw tc (off + req) (fs @ gs)" and r: "off + req \<le> 2 ^ k"
    and touch: "only_touches m m' (part_appender p base k hw (tc mod 3)) off (off + req)"
    using acc by (simp_all add: accepted_def)
  note invD = pub_invD [OF inv] and invD' = pub_invD [OF inv']
  have wf: "img_wf img k" and k: "5 \<le> k" "k \<le> 30" and p: "base + 3 * 2 ^ k \<le> p"
    using sub invD(1) by (auto simp: subscribed_def pub_wf_def)
  have i: "0 \<le> tc mod 3" "tc mod 3 < 3" by simp_all
  define j where "j = tc mod 3"
  have j: "j = 0 \<or> j = 1 \<or> j = 2" using i unfolding j_def by linarith
  have tbuf: "termBuffers img ! nat (tc mod 3) = Wrap tb (2 ^ k)"
    using sub j unfolding subscribed_def tb_def j_def [symmetric] by auto
  have off: "0 \<le> off" "off mod 32 = 0" using term_state_offset [OF invD(6)] by simp_all
  have "log_at m (Ptr (Wrap tb (2 ^ k))) 0 fs off" "log_at m' (Ptr (Wrap tb (2 ^ k))) 0 (fs @ gs) (off + req)"
    using invD(6) invD'(6) by (simp_all add: term_state_def part_appender_def tb_def)
  then have log: "log_at m' tb off gs (off + req)"
    by (auto simp: log_at_append dest: log_at_end_unique)
  then show "log_at m' (base + tc mod 3 * 2 ^ k) off gs (off + req)" by (simp add: tb_def)
  define a where "a = counter_addr (subscriberPosition img)"
  have far: "a + 8 \<le> tb \<or> tb + 2 ^ k \<le> a"
    using wf i tbuf by (auto simp: img_wf_def list_all_length apart_def a_def dest!: spec [of _ "nat (tc mod 3)"])
  have tails: "a + 8 \<le> p + 8 * j \<or> p + 8 * j + 8 \<le> a"
    using sub j by (auto simp: subscribed_def a_def)
  have "j * 2 ^ k \<le> 2 * 2 ^ k" using j by (intro mult_right_mono) auto
  then have tp: "tb + 2 ^ k \<le> p" using p unfolding tb_def j_def [symmetric] by linarith
  have same: "m' x = m x" if "x < p + 8 * j \<or> p + 8 * j + 8 \<le> x" "x < tb + off \<or> tb + (off + req) \<le> x" for x
    using touch that by (simp add: only_touches_def part_appender_def tb_def j_def)
  have "get_i64 m' a = get_i64 m a"
    using far tails off r by (intro i64.get_local same) auto
  moreover have "2 ^ k \<le> off + req \<or> get_i32 m' (tb + (off + req)) \<le> 0"
  proof (cases "2 ^ k \<le> off + req")
    case False
    then have "off + req + 4 \<le> 2 ^ k" using log_end_aligned [OF log off(2) r k] by simp
    then have "get_i32 m' (tb + (off + req)) = get_i32 m (tb + (off + req))"
      using tp j off req by (intro i32.get_local same) auto
    then show ?thesis
      using get_i32_clean [OF clean, of "off + req"] \<open>off + req + 4 \<le> 2 ^ k\<close> req by (simp add: tb_def)
  qed simp
  ultimately show "image_at m' img k tc off gs"
    unfolding image_at_def tbuf using wf sub invD(2,3) off r req pos log
    by (auto simp: a_def subscribed_def log_stops_def intro!: exI [of _ "off + req"])
qed

subsection \<open>Properties\<close>

text \<open>
  (C1) A message sent is a message received. A publication offers a message to a stream whose
  subscriber has read everything before it; the active term is clean behind its tail. If the
  offer returns a position, then one poll with a fragment assembler and a fragment limit large
  enough for the message hands exactly this message to the delegate, once, whether it was
  fragmented or not and whatever the assembler's builders held before, and the subscriber's
  position becomes the position that the offer returned.
\<close>

theorem Offer_then_Poll_delivers:
  assumes inv: "pub_inv m pub p base k hw tc off fs" and tc: "tc < 2147483647"
    and ok: "source_ok (part_appender p base k hw (tc mod 3)) buf offset len" and len: "len \<le> maxMessageLength pub"
    and sub: "subscribed img p base k"
    and pos: "get_i64 m (counter_addr (subscriberPosition img)) = tc * 2 ^ k + off"
    and clean: "clean_from m (base + tc mod 3 * 2 ^ k) off (2 ^ k)"
    and limit: "1 \<le> limit" "len \<le> limit * maxPayloadLength pub"
    and delegate: "fa_delegate fa = record_fragment"
    and sent: "Offer m pub buf offset len supplier = Some (Inr (r, m'))" and "0 < r"
  shows "\<exists>n img' m'' fa'. Image_Poll m' img (FragmentAssembler_OnFragment alloc) limit (fa, s) =
      Some (Inr (n, img', m'', fa', s @ [source_bytes m buf offset len])) \<and> moved_to m' m'' img r"
proof -
  define payload where "payload = source_bytes m buf offset len"
  define req where "req = message_len (maxPayloadLength pub) len"
  have mp: "0 < maxPayloadLength pub" and cap: "len < 2147483648" and len0: "0 \<le> len"
    using pub_invD(1) [OF inv] ok by (auto simp: pub_wf_def source_ok_def)
  obtain gs where acc: "accepted m m' pub p base k hw tc off fs req gs r"
    and fr: "message_frames (part_appender p base k hw (tc mod 3)) (given_supplier supplier) (maxPayloadLength pub)
        (wrap32 (pub_initialTermID pub + tc)) off payload gs"
    using offer_append [OF inv tc refl ok len refl, of "given_supplier supplier"] sent \<open>0 < r\<close>
    by (auto simp: Offer_unfold [OF inv refl len] backPressureStatus_def rotated_def payload_def req_def
        split: if_splits)
  have plen: "int (length payload) = len" using len0 by (simp add: payload_def source_bytes_def)
  have req0: "0 < req"
    using fragmented_len_pos [of "maxPayloadLength pub" len] aligned_len_bounds(1) [of "len + 32"] len0 mp
      pub_invD(1) [OF inv] by (auto simp: req_def message_len_def pub_wf_def)
  note im = accepted_image_at [OF acc inv sub req0 pos clean]
  have count: "data_frames gs = gs" "int (length gs) \<le> limit"
    using message_frames_count [OF fr mp limit(1)] limit(2) plen by simp_all
  then have "gs = take (nat limit) (data_frames gs)" by simp
  from recorded.assembled.image_poll [OF im(1) _ this, of "(fa, s)" alloc] delegate
  obtain j off' img' m'' fa' s' where poll: "Image_Poll m' img (FragmentAssembler_OnFragment alloc) limit (fa, s) =
      Some (Inr (int (length gs), img', m'', fa', s'))"
    and view: "(builderBySessionIdMap fa', s') = foldl (assemble (\<lambda>s p. s @ [p])) (builderBySessionIdMap fa, s) gs"
    and log: "log_at m' (Ptr (termBuffers img ! nat (tc mod 3))) off (take j gs) off'"
    and j: "data_frames (take j gs) = gs" and moved: "moved_to m' m'' img (tc * 2 ^ k + off')"
    by auto
  have "length gs \<le> j"
    using length_filter_le [of "\<lambda>f. \<not> is_padding f" "take j gs"] unfolding j by simp
  then have "off' = off + req" using log im(2) log_at_end_unique by fastforce
  moreover have "r = tc * 2 ^ k + off + req" using acc by (simp add: accepted_def)
  moreover have "s' = s @ [payload]"
    using assemble_message [OF fr mp, of "\<lambda>s p. s @ [p]" "builderBySessionIdMap fa" s] cap plen view by auto
  ultimately show ?thesis using poll moved by (auto simp: payload_def add.assoc)
qed

definition sample_subscriber :: image where
  "sample_subscriber = sample_image\<lparr>termBuffers := [Wrap 0 1024, Wrap 1024 1024, Wrap 2048 1024],
     termLengthMask := 1023, img_positionBitsToShift := 10\<rparr>"

lemma sample_subscribed: "subscribed sample_subscriber 10000 0 10"
  by (simp add: subscribed_def sample_subscriber_def sample_image_def img_wf_def apart_def counter_ok_def
      counter_addr_def)

lemma sample_offer:
  "\<exists>m'. Offer sample_pub_mem sample_pub (Wrap 30000 100) 0 100 None = Some (Inr (192, m'))"
proof -
  have "limit_value sample_pub_mem sample_pub = 5000" by code_simp
  moreover have "source_ok (part_appender 10000 0 10 sample_hw (0 mod 3)) (Wrap 30000 100) 0 100"
    by (simp add: source_ok_def part_appender_def)
  moreover have "100 \<le> maxMessageLength sample_pub" "maxPayloadLength sample_pub = 64" "\<not> pub_isClosed sample_pub"
    by (simp_all add: sample_pub_def)
  moreover have "message_len 64 100 = 192" by (simp add: message_len_def fragmented_len_def aligned_len_def)
  ultimately show ?thesis
    using offer_append [OF sample_pub_inv _ refl _ _ refl, of "Wrap 30000 100" 0 100 "given_supplier None"]
    by (auto simp: Offer_unfold [OF sample_pub_inv refl] accepted_def rotated_def)
qed

theorem Offer_then_Poll_delivers_witness:
  "\<exists>m'. Offer sample_pub_mem sample_pub (Wrap 30000 100) 0 100 None = Some (Inr (192, m')) \<and>
    (\<exists>n img' m'' fa'. Image_Poll m' sample_subscriber (FragmentAssembler_OnFragment 90000) 10
        (NewFragmentAssembler record_fragment 4096, []) =
      Some (Inr (n, img', m'', fa', [] @ [source_bytes sample_pub_mem (Wrap 30000 100) 0 100])) \<and>
      moved_to m' m'' sample_subscriber 192)"
proof -
  obtain m' where sent: "Offer sample_pub_mem sample_pub (Wrap 30000 100) 0 100 None = Some (Inr (192, m'))"
    using sample_offer by blast
  have "get_i64 sample_pub_mem 65536 = 0" by code_simp
  then have pos: "get_i64 sample_pub_mem (counter_addr (subscriberPosition sample_subscriber)) = 0 * 2 ^ 10 + 0"
    by (simp add: sample_subscriber_def sample_image_def counter_addr_def)
  have clean: "clean_from sample_pub_mem (0 + 0 mod 3 * 2 ^ 10) 0 (2 ^ 10)"
    by (simp add: clean_from_def sample_pub_mem_def store_outside)
  have "\<exists>n img' m'' fa'. Image_Poll m' sample_subscriber (FragmentAssembler_OnFragment 90000) 10
        (NewFragmentAssembler record_fragment 4096, []) =
      Some (Inr (n, img', m'', fa', [] @ [source_bytes sample_pub_mem (Wrap 30000 100) 0 100])) \<and>
      moved_to m' m'' sample_subscriber 192"
    by (rule Offer_then_Poll_delivers [OF sample_pub_inv _ _ _ sample_subscribed pos clean _ _ _ sent])
       (simp_all add: source_ok_def part_appender_def sample_pub_def NewFragmentAssembler_def)
  with sent show ?thesis by blast
qed

end
