(* ===== verification/Ring_Buffer.thy ===== *)
theory Ring_Buffer
  imports Log_Descriptor
begin

text \<open>
  \<open>aeron/ringbuffer\<close>: the many-to-one ring buffer that carries commands to the driver. Producers
  claim space by moving the tail with a compare-and-set, then write their record and commit it
  by storing its positive length. What the other producers and the consumer do to memory
  between the reads of a round and its compare-and-set is the parameter \<open>env\<close> of the claim
  loop; the consumer is the driver's and not part of the client (\<open>read\<close> panics).
\<close>

subsection \<open>Records\<close>

definition HeaderLength :: int where [simp]: "HeaderLength = 8"
definition RecordAlignment :: int where [simp]: "RecordAlignment = 8"
definition PaddingMsgTypeID :: int where [simp]: "PaddingMsgTypeID = - 1"

definition LengthOffset :: "int \<Rightarrow> int" where
  "LengthOffset recordOffset = recordOffset"

definition TypeOffset :: "int \<Rightarrow> int" where
  "TypeOffset recordOffset = wrap32 (recordOffset + SizeOfInt32)"

definition EncodedMsgOffset :: "int \<Rightarrow> int" where
  "EncodedMsgOffset recordOffset = wrap32 (recordOffset + HeaderLength)"

definition makeHeader :: "int \<Rightarrow> int \<Rightarrow> int" where
  "makeHeader len msgTypeID = shl64 (msgTypeID AND 0xFFFFFFFF) 32 OR (len AND 0xFFFFFFFF)"

definition checkMsgTypeID :: "int \<Rightarrow> unit res" where
  "checkMsgTypeID msgTypeID =
     (if msgTypeID < 1 then Inl (Panic ''Message type id must be greater than zero'') else Inr ())"

subsection \<open>The buffer\<close>

definition insufficientCapacity :: int where [simp]: "insufficientCapacity = - 2"
definition rb_tailPositionOffset :: int where "rb_tailPositionOffset = CacheLineLength * 2"
definition rb_headCachePositionOffset :: int where "rb_headCachePositionOffset = CacheLineLength * 4"
definition rb_headPositionOffset :: int where "rb_headPositionOffset = CacheLineLength * 6"
definition rb_correlationCounterOffset :: int where "rb_correlationCounterOffset = CacheLineLength * 8"
definition rb_consumerHeartbeatOffset :: int where "rb_consumerHeartbeatOffset = CacheLineLength * 10"
definition rb_trailerLength :: int where "rb_trailerLength = CacheLineLength * 12"

record ManyToOne =
  rb_buffer :: buffer
  rb_capacity :: int
  maxMsgLength :: int
  headPositionIndex :: int
  headCachePositionIndex :: int
  tailPositionIndex :: int
  correlationIDCounterIndex :: int
  consumerHeartbeatIndex :: int

definition ManyToOne_Init :: "buffer \<Rightarrow> ManyToOne res" where
  "ManyToOne_Init buf =
     (let capacity = wrap32 (Capacity buf - rb_trailerLength)
      in if capacity \<le> 0 then Inl (Panic ''Undelying buffer capacity is infufficient'')
         else Inr \<lparr>rb_buffer = buf, rb_capacity = capacity, maxMsgLength = capacity sdiv 8,
                   headPositionIndex = wrap32 (capacity + rb_headPositionOffset),
                   headCachePositionIndex = wrap32 (capacity + rb_headCachePositionOffset),
                   tailPositionIndex = wrap32 (capacity + rb_tailPositionOffset),
                   correlationIDCounterIndex = wrap32 (capacity + rb_correlationCounterOffset),
                   consumerHeartbeatIndex = wrap32 (capacity + rb_consumerHeartbeatOffset)\<rparr>)"

definition NextCorrelationID :: "mem \<Rightarrow> ManyToOne \<Rightarrow> (int \<times> mem) res" where
  "NextCorrelationID m rb = GetAndAddInt64 m (rb_buffer rb) (correlationIDCounterIndex rb) 1"

definition ConsumerHeartbeatTime :: "mem \<Rightarrow> ManyToOne \<Rightarrow> int res" where
  "ConsumerHeartbeatTime m rb = GetInt64Volatile m (rb_buffer rb) (consumerHeartbeatIndex rb)"

definition setConsumerHeartbeatTime :: "mem \<Rightarrow> ManyToOne \<Rightarrow> int \<Rightarrow> mem res" where
  "setConsumerHeartbeatTime m rb time = PutInt64Ordered m (rb_buffer rb) (consumerHeartbeatIndex rb) time"

definition producerPosition :: "mem \<Rightarrow> ManyToOne \<Rightarrow> int res" where
  "producerPosition m rb = GetInt64Volatile m (rb_buffer rb) (tailPositionIndex rb)"

definition consumerPosition :: "mem \<Rightarrow> ManyToOne \<Rightarrow> int res" where
  "consumerPosition m rb = GetInt64Volatile m (rb_buffer rb) (headPositionIndex rb)"

subsection \<open>Claiming\<close>

text \<open>
  The body of the claim loop up to the compare-and-set, with the memory after it: \<open>None\<close> when
  there is not enough room, otherwise the tail it saw, its index, the padding, and the head it
  used. First the room in the buffer, then the room in front of the end of the buffer.
\<close>

definition claim_room :: "ManyToOne \<Rightarrow> int \<Rightarrow> int \<Rightarrow> int \<Rightarrow> mem \<Rightarrow> (int option \<times> mem) res" where
  "claim_room rb requiredCapacity head tail m =
     (let availableCapacity = wrap32 (rb_capacity rb - wrap32 (tail - head))
      in if requiredCapacity > availableCapacity then
           bindR (GetInt64Volatile m (rb_buffer rb) (headPositionIndex rb)) (\<lambda>head.
           if requiredCapacity > wrap32 (rb_capacity rb - wrap32 (tail - head)) then Inr (None, m)
           else bindR (PutInt64Ordered m (rb_buffer rb) (headCachePositionIndex rb) head) (\<lambda>m. Inr (Some head, m)))
         else Inr (Some head, m))"

definition claim_padding :: "ManyToOne \<Rightarrow> int \<Rightarrow> int \<Rightarrow> int \<Rightarrow> mem \<Rightarrow> ((int \<times> int) option \<times> mem) res" where
  "claim_padding rb requiredCapacity head tailIndex m =
     (let mask = wrap32 (rb_capacity rb - 1);
          toBufferEndLength = wrap32 (rb_capacity rb - tailIndex)
      in if requiredCapacity > toBufferEndLength then
           (let headIndex = wrap32 (head AND mask)
            in if requiredCapacity > headIndex then
                 bindR (GetInt64Volatile m (rb_buffer rb) (headPositionIndex rb)) (\<lambda>head.
                 let headIndex = wrap32 (head AND mask)
                 in if requiredCapacity > headIndex then Inr (None, m)
                    else bindR (PutInt64Ordered m (rb_buffer rb) (headCachePositionIndex rb) head) (\<lambda>m.
                         Inr (Some (toBufferEndLength, head), m)))
               else Inr (Some (toBufferEndLength, head), m))
         else Inr (Some (0, head), m))"

definition claim_round :: "ManyToOne \<Rightarrow> int \<Rightarrow> int \<Rightarrow> mem \<Rightarrow> ((int \<times> int \<times> int \<times> int) option \<times> mem) res" where
  "claim_round rb requiredCapacity head m =
     bindR (GetInt64Volatile m (rb_buffer rb) (tailPositionIndex rb)) (\<lambda>tail.
     bindR (claim_room rb requiredCapacity head tail m) (\<lambda>(room, m).
     case room of
       None \<Rightarrow> Inr (None, m)
     | Some head \<Rightarrow>
         let tailIndex = wrap32 (tail AND wrap32 (rb_capacity rb - 1))
         in bindR (claim_padding rb requiredCapacity head tailIndex m) (\<lambda>(pad, m).
            case pad of
              None \<Rightarrow> Inr (None, m)
            | Some (padding, head) \<Rightarrow> Inr (Some (tail, tailIndex, padding, head), m))))"

definition finish_claim :: "ManyToOne \<Rightarrow> int \<Rightarrow> int \<Rightarrow> mem \<Rightarrow> (int \<times> mem) res" where
  "finish_claim rb tailIndex padding m =
     (if 0 \<noteq> padding then
        bindR (PutInt64Ordered m (rb_buffer rb) tailIndex (makeHeader padding PaddingMsgTypeID)) (\<lambda>m. Inr (0, m))
      else Inr (tailIndex, m))"

partial_function (option) claim_loop :: "(nat \<Rightarrow> mem \<Rightarrow> mem) \<Rightarrow> ManyToOne \<Rightarrow> int \<Rightarrow> int \<Rightarrow> nat \<Rightarrow> mem \<Rightarrow>
    (int \<times> mem) res option" where
  "claim_loop env rb requiredCapacity head n m =
     (case claim_round rb requiredCapacity head m of
        Inl e \<Rightarrow> Some (Inl e)
      | Inr (None, m) \<Rightarrow> Some (Inr (insufficientCapacity, m))
      | Inr (Some (tail, tailIndex, padding, head), m) \<Rightarrow>
          (case CompareAndSetInt64 (env n m) (rb_buffer rb) (tailPositionIndex rb) tail
                  (wrap64 (tail + requiredCapacity + padding)) of
             Inl e \<Rightarrow> Some (Inl e)
           | Inr (swapped, m) \<Rightarrow>
               if swapped then Some (finish_claim rb tailIndex padding m)
               else claim_loop env rb requiredCapacity head (Suc n) m))"

definition claimCapacity :: "(nat \<Rightarrow> mem \<Rightarrow> mem) \<Rightarrow> ManyToOne \<Rightarrow> int \<Rightarrow> mem \<Rightarrow> (int \<times> mem) res option" where
  "claimCapacity env rb requiredCapacity m =
     (case GetInt64Volatile m (rb_buffer rb) (headCachePositionIndex rb) of
        Inl e \<Rightarrow> Some (Inl e)
      | Inr head \<Rightarrow> claim_loop env rb requiredCapacity head 0 m)"

definition checkMsgLength :: "ManyToOne \<Rightarrow> int \<Rightarrow> unit res" where
  "checkMsgLength rb len =
     (if len > maxMsgLength rb then Inl (Panic ''encoded message exceeds maxMsgLength'') else Inr ())"

subsection \<open>Writing\<close>

definition write_record :: "ManyToOne \<Rightarrow> int \<Rightarrow> int \<Rightarrow> int \<Rightarrow> buffer \<Rightarrow> int \<Rightarrow> int \<Rightarrow> mem \<Rightarrow> mem res" where
  "write_record rb recordIndex recordLength msgTypeID srcBuffer srcIndex len m =
     bindR (PutInt64Ordered m (rb_buffer rb) recordIndex (makeHeader (wrap32 (- recordLength)) msgTypeID)) (\<lambda>m.
     bindR (PutBytes m (rb_buffer rb) (EncodedMsgOffset recordIndex) srcBuffer srcIndex len) (\<lambda>m.
     PutInt32Ordered m (rb_buffer rb) (LengthOffset recordIndex) recordLength))"

definition ManyToOne_Write :: "(nat \<Rightarrow> mem \<Rightarrow> mem) \<Rightarrow> ManyToOne \<Rightarrow> int \<Rightarrow> buffer \<Rightarrow> int \<Rightarrow> int \<Rightarrow> mem \<Rightarrow>
    (bool \<times> mem) res option" where
  "ManyToOne_Write env rb msgTypeID srcBuffer srcIndex len m =
     (case bindR (checkMsgTypeID msgTypeID) (\<lambda>_. checkMsgLength rb len) of
        Inl e \<Rightarrow> Some (Inl e)
      | Inr _ \<Rightarrow>
          let recordLength = wrap32 (len + HeaderLength);
              requiredCapacity = AlignInt32 recordLength RecordAlignment
          in map_option (\<lambda>r. bindR r (\<lambda>(recordIndex, m).
               if recordIndex \<noteq> insufficientCapacity then
                 bindR (write_record rb recordIndex recordLength msgTypeID srcBuffer srcIndex len m) (\<lambda>m. Inr (True, m))
               else Inr (False, m)))
             (claimCapacity env rb requiredCapacity m))"

definition ManyToOne_read :: "ManyToOne \<Rightarrow> int res" where
  "ManyToOne_read rb = Inl (Panic ''Not implemented yet'')"

end
