(* ===== verification/Ring_Log.thy ===== *)
theory Ring_Log
  imports Ring_Buffer
begin

text \<open>
  The ring buffer as a queue. Positions grow without bound; the byte at position \<open>p\<close> is at index
  \<open>p mod c\<close> of the buffer of \<open>c\<close> bytes. Between the head and the tail lie records, padding among
  them. A write appends one record, after padding if it would cross the end of the buffer, and
  touches no byte of the records before.
\<close>

subsection \<open>Records in memory\<close>

definition aligned8 :: "int \<Rightarrow> int" where
  "aligned8 n = (n + 7) div 8 * 8"

lemma aligned8_bounds: "n \<le> aligned8 n" "aligned8 n < n + 8" "aligned8 n mod 8 = 0"
  unfolding aligned8_def by linarith+ simp

lemma aligned8_id: "8 dvd n \<Longrightarrow> aligned8 n = n"
  by (auto simp: aligned8_def elim!: dvdE)

record ring_record =
  rr_length :: int
  rr_type :: int
  rr_payload :: "byte list"

definition record_at :: "mem \<Rightarrow> int \<Rightarrow> ring_record" where
  "record_at m a =
     \<lparr>rr_length = get_i32 m a, rr_type = get_i32 m (a + 4),
      rr_payload = (if get_i32 m (a + 4) = PaddingMsgTypeID then []
                    else read_bytes m (a + 8) (nat (get_i32 m a - 8)))\<rparr>"

fun ring_at :: "mem \<Rightarrow> int \<Rightarrow> int \<Rightarrow> int \<Rightarrow> ring_record list \<Rightarrow> int \<Rightarrow> bool" where
  "ring_at m base c pos [] e \<longleftrightarrow> pos = e"
| "ring_at m base c pos (r # rs) e \<longleftrightarrow>
     record_at m (base + pos mod c) = r \<and> 8 \<le> rr_length r \<and> pos mod c + aligned8 (rr_length r) \<le> c \<and>
     ring_at m base c (pos + aligned8 (rr_length r)) rs e"

lemma ring_at_le: "ring_at m base c pos rs e \<Longrightarrow> pos \<le> e"
proof (induction rs arbitrary: pos)
  case (Cons r rs)
  then show ?case using aligned8_bounds(1) [of "rr_length r"] by fastforce
qed simp

lemma ring_at_append:
  "ring_at m base c pos (rs @ qs) e \<longleftrightarrow> (\<exists>mid. ring_at m base c pos rs mid \<and> ring_at m base c mid qs e)"
  by (induction rs arbitrary: pos) auto

lemma record_at_cong:
  assumes "\<And>x. a \<le> x \<Longrightarrow> x < a + max 8 (get_i32 m a) \<Longrightarrow> m' x = m x"
  shows "record_at m' a = record_at m a"
proof -
  have near: "m' x = m x" if "a \<le> x" "x < a + 8" for x using assms that by auto
  have "get_i32 m' a = get_i32 m a" "get_i32 m' (a + 4) = get_i32 m (a + 4)"
    by (rule i32.get_local; auto intro: near)+
  moreover have "read_bytes m' (a + 8) (nat (get_i32 m a - 8)) = read_bytes m (a + 8) (nat (get_i32 m a - 8))"
    by (rule read_bytes_cong) (auto intro!: assms split: if_splits)
  ultimately show ?thesis by (simp add: record_at_def)
qed

text \<open>
  Two chunks of bytes, one behind the other and ending at most \<open>c\<close> behind the start of the first,
  occupy disjoint ranges of indices.
\<close>

lemma chunks_disjoint:
  fixes c :: int
  assumes "0 < c" and "0 \<le> a" and "0 \<le> n" and "p + a \<le> q" and "q + n \<le> p + c"
  shows "p mod c + a \<le> q mod c \<or> q mod c + n \<le> p mod c"
proof -
  define u where "u = c * (p div c)"
  have p: "p = u + p mod c" and q: "q = c * (q div c) + q mod c" by (simp_all add: u_def)
  have "p div c \<le> q div c" using assms by (intro zdiv_mono1) auto
  moreover have "q div c \<le> (p + c) div c" using assms by (intro zdiv_mono1) auto
  moreover have "(p + c) div c = p div c + 1" by (rule div_add_self2) (use assms(1) in simp)
  ultimately have "q div c = p div c \<or> q div c = p div c + 1" by linarith
  then have "c * (q div c) = u \<or> c * (q div c) = u + c" by (auto simp: u_def distrib_left)
  then show ?thesis using p q assms(4,5) by linarith
qed

text \<open>Writing a chunk behind the records keeps them.\<close>

lemma ring_at_chunk:
  assumes "ring_at m base c pos rs e" and "0 < c" and "0 \<le> n" and "e \<le> q" and "q + n \<le> pos + c"
    and kept: "\<And>x. base \<le> x \<Longrightarrow> x < base + c \<Longrightarrow> x < base + q mod c \<or> base + q mod c + n \<le> x \<Longrightarrow> m' x = m x"
  shows "ring_at m' base c pos rs e"
  using assms(1,5)
proof (induction rs arbitrary: pos)
  case (Cons r rs)
  let ?n = "aligned8 (rr_length r)" and ?a = "base + pos mod c"
  have r: "record_at m ?a = r" "8 \<le> rr_length r" "pos mod c + ?n \<le> c"
    and rest: "ring_at m base c (pos + ?n) rs e" using Cons.prems(1) by auto
  have n: "rr_length r \<le> ?n" by (rule aligned8_bounds)
  have "pos mod c + ?n \<le> q mod c \<or> q mod c + n \<le> pos mod c"
    using ring_at_le [OF rest] assms(2-4) Cons.prems(2) r(2) n by (intro chunks_disjoint) linarith+
  moreover have "0 \<le> pos mod c" using assms(2) by simp
  moreover have "get_i32 m ?a = rr_length r" using r(1) by (auto simp: record_at_def)
  ultimately have "m' x = m x" if "?a \<le> x" "x < ?a + max 8 (get_i32 m ?a)" for x
    using that r(2,3) n by (intro kept) auto
  then have "record_at m' ?a = r" using record_at_cong r(1) by metis
  moreover have "ring_at m' base c (pos + ?n) rs e"
    using rest by (rule Cons.IH) (use Cons.prems(2) n r(2) in linarith)
  ultimately show ?case using r by simp
qed simp

subsection \<open>The header word\<close>

lemma le_bytes_add: "le_bytes (n + k) v = le_bytes n v @ le_bytes k (v div 256 ^ n)"
  by (induction n arbitrary: v) (auto simp: zdiv_zmult2_eq)

lemma store_8_split: "store 8 m a v = store 4 (store 4 m a v) (a + 4) (v div 4294967296)"
proof -
  have "le_bytes 8 v = le_bytes 4 v @ le_bytes 4 (v div 4294967296)"
    using le_bytes_add [of 4 4 v] by simp
  moreover have "length (le_bytes 4 v) = 4" by simp
  ultimately show ?thesis by (simp only: store_def write_bytes_append of_nat_numeral)
qed

lemma wrap64_eq: "x mod 18446744073709551616 = y mod 18446744073709551616 \<Longrightarrow> wrap64 x = wrap64 y"
  by (metis wrap64_mod)

lemma or_low_high:
  fixes a b :: int
  assumes "0 \<le> b" and "b < 4294967296"
  shows "a * 4294967296 OR b = a * 4294967296 + b"
proof -
  have "b = take_bit 32 b" using assms by (simp add: take_bit_eq_mod)
  moreover have "a * 4294967296 = push_bit 32 a" by (simp add: push_bit_eq_mult)
  moreover have "push_bit 32 a AND take_bit 32 b = 0" by (rule bit_eqI) (auto simp: bit_simps)
  ultimately show ?thesis by (metis disjunctive_add_eq_or)
qed

lemma makeHeader_mod:
  "makeHeader len t mod 18446744073709551616 = (t mod 4294967296) * 4294967296 + len mod 4294967296"
proof -
  define l where "l = len mod 4294967296"
  define h where "h = t mod 4294967296"
  have b: "0 \<le> l" "l < 4294967296" "0 \<le> h" "h < 4294967296" by (simp_all add: l_def h_def)
  have "wrap64 (h * 4294967296) = (if h < 2147483648 then h else h - 4294967296) * 4294967296"
  proof (cases "h < 2147483648")
    case False
    have "(h * 4294967296 + 9223372036854775808) mod 18446744073709551616 =
        (h * 4294967296 + 9223372036854775808 - 18446744073709551616) mod 18446744073709551616"
      by (rule minus_mod_self2 [symmetric])
    also have "\<dots> = h * 4294967296 + 9223372036854775808 - 18446744073709551616"
      using b False by (intro mod_pos_pos_trivial) linarith+
    finally show ?thesis using False by (simp add: wrap64_def)
  qed (use b in \<open>simp add: wrap64_def\<close>)
  then have "makeHeader len t = (if h < 2147483648 then h else h - 4294967296) * 4294967296 + l"
    using or_low_high [OF b(1,2)]
    by (simp add: makeHeader_def shl64_def low32_mod [unfolded low32_def] flip: l_def h_def)
  moreover have "(x - 18446744073709551616) mod 18446744073709551616 = x mod 18446744073709551616" for x :: int
    by (rule minus_mod_self2)
  from this [of "h * 4294967296 + l"]
  have "(h * 4294967296 - 18446744073709551616 + l) mod 18446744073709551616 = h * 4294967296 + l"
    using b by (simp add: algebra_simps)
  ultimately show ?thesis using b by (simp flip: l_def h_def add: left_diff_distrib)
qed

lemma header_reads:
  "get_i32 (store 8 m a (makeHeader len t)) a = wrap32 len"
  "get_i32 (store 8 m a (makeHeader len t)) (a + 4) = wrap32 t"
proof -
  define v where "v = makeHeader len t mod 18446744073709551616"
  have "store 8 m a (makeHeader len t) = store 8 m a v"
    by (rule store_cong) (simp add: v_def)
  then have st: "store 8 m a (makeHeader len t) = store 4 (store 4 m a v) (a + 4) (v div 4294967296)"
    by (simp add: store_8_split)
  have v: "v = (t mod 4294967296) * 4294967296 + len mod 4294967296" unfolding v_def by (rule makeHeader_mod)
  have "v div 4294967296 = t mod 4294967296" by (simp add: v)
  then show "get_i32 (store 8 m a (makeHeader len t)) (a + 4) = wrap32 t"
    by (simp add: st i32.get_put)
  have "v mod 4294967296 = len mod 4294967296" by (simp add: v)
  then have "wrap32 v = wrap32 len" by (metis wrap32_mod)
  then show "get_i32 (store 8 m a (makeHeader len t)) a = wrap32 len"
    by (simp add: st i32.get_put i32.get_put_other)
qed

subsection \<open>The state of the buffer\<close>

definition rb_wf :: "ManyToOne \<Rightarrow> nat \<Rightarrow> bool" where
  "rb_wf rb k \<longleftrightarrow>
     5 \<le> k \<and> k \<le> 30 \<and> Capacity (rb_buffer rb) = 2 ^ k + 768 \<and> rb_capacity rb = 2 ^ k \<and>
     maxMsgLength rb = 2 ^ k div 8 \<and> tailPositionIndex rb = 2 ^ k + 128 \<and>
     headCachePositionIndex rb = 2 ^ k + 256 \<and> headPositionIndex rb = 2 ^ k + 384 \<and>
     correlationIDCounterIndex rb = 2 ^ k + 512 \<and> consumerHeartbeatIndex rb = 2 ^ k + 640"

abbreviation rb_base :: "ManyToOne \<Rightarrow> int" where "rb_base rb \<equiv> Ptr (rb_buffer rb)"

definition rb_tail :: "mem \<Rightarrow> ManyToOne \<Rightarrow> int" where
  "rb_tail m rb = get_i64 m (rb_base rb + tailPositionIndex rb)"

definition rb_head :: "mem \<Rightarrow> ManyToOne \<Rightarrow> int" where
  "rb_head m rb = get_i64 m (rb_base rb + headPositionIndex rb)"

definition rb_cache :: "mem \<Rightarrow> ManyToOne \<Rightarrow> int" where
  "rb_cache m rb = get_i64 m (rb_base rb + headCachePositionIndex rb)"

text \<open>
  The cached head is behind the head but not by so much that the tail would be a whole buffer
  ahead of it; the records \<open>rs\<close> lie between the head and the tail.
\<close>

definition rb_inv :: "mem \<Rightarrow> ManyToOne \<Rightarrow> nat \<Rightarrow> ring_record list \<Rightarrow> bool" where
  "rb_inv m rb k rs \<longleftrightarrow>
     rb_wf rb k \<and> 0 \<le> rb_cache m rb \<and> rb_cache m rb \<le> rb_head m rb \<and> rb_head m rb \<le> rb_tail m rb \<and>
     rb_tail m rb - rb_cache m rb \<le> 2 ^ k \<and> rb_tail m rb < 4611686018427387904 \<and> rb_tail m rb mod 8 = 0 \<and>
     ring_at m (rb_base rb) (2 ^ k) (rb_head m rb) rs (rb_tail m rb)"

lemma pow2_range:
  assumes "5 \<le> k" and "k \<le> (30::nat)"
  shows "32 \<le> (2::int) ^ k" and "(2::int) ^ k \<le> 1073741824" and "(2::int) ^ k mod 8 = 0"
proof -
  have "(2::int) ^ 5 \<le> 2 ^ k" using assms(1) by (rule power_increasing) simp
  then show "32 \<le> (2::int) ^ k" by simp
  have "(2::int) ^ k \<le> 2 ^ 30" using assms(2) by (rule power_increasing) simp
  then show "(2::int) ^ k \<le> 1073741824" by simp
  have "(2::int) ^ 3 dvd 2 ^ k" using assms(1) by (intro le_imp_power_dvd) simp
  then show "(2::int) ^ k mod 8 = 0" by (simp add: mod_eq_0_iff_dvd)
qed

lemma mask_index:
  assumes "5 \<le> k" and "k \<le> 30"
  shows "wrap32 (x AND wrap32 (2 ^ k - 1)) = x mod 2 ^ k"
proof -
  note b = pow2_range [OF assms]
  have "wrap32 (2 ^ k - 1) = 2 ^ k - 1" using b by (intro wrap32_id) linarith+
  moreover have "x AND (2 ^ k - 1) = x mod 2 ^ k" by (simp flip: mask_eq_exp_minus_1 take_bit_eq_mask take_bit_eq_mod)
  moreover have "0 \<le> x mod 2 ^ k" "x mod 2 ^ k < 2 ^ k" by simp_all
  then have "wrap32 (x mod 2 ^ k) = x mod 2 ^ k" using b by (intro wrap32_id) linarith+
  ultimately show ?thesis by simp
qed

text \<open>With the padding the record still fits between the tail and the head one lap behind.\<close>

lemma padded_fits:
  fixes c :: int
  assumes "0 < c" and "0 \<le> h" and "h \<le> t" and room: "req \<le> c - (t - h)" and "0 < req"
    and pad: "c - t mod c < req" and idx: "req \<le> h mod c"
  shows "t + (c - t mod c) + req - h \<le> c"
proof -
  define q where "q = c * (h div c)"
  have h: "h = q + h mod c" and t: "t = c * (t div c) + t mod c" by (simp_all add: q_def)
  have "h div c \<le> t div c" using assms(1,3) by (intro zdiv_mono1) auto
  moreover have "t div c \<le> (h + c) div c" using assms(1) room \<open>0 < req\<close> by (intro zdiv_mono1) linarith+
  moreover have "(h + c) div c = h div c + 1" by (rule div_add_self2) (use assms(1) in simp)
  ultimately have "t div c = h div c \<or> t div c = h div c + 1" by linarith
  then have "c * (t div c) = q \<or> c * (t div c) = q + c" by (auto simp: q_def distrib_left)
  moreover have "h mod c < c" "0 \<le> t mod c" using assms(1) by simp_all
  ultimately show ?thesis using h t room pad idx by linarith
qed

subsection \<open>Claiming space\<close>

text \<open>The padding in front of a record of \<open>req\<close> bytes, and when there is no room for it.\<close>

definition pad_len :: "int \<Rightarrow> int \<Rightarrow> int \<Rightarrow> int" where
  "pad_len c t req = (if c < t mod c + req then c - t mod c else 0)"

definition no_room :: "int \<Rightarrow> int \<Rightarrow> int \<Rightarrow> int \<Rightarrow> bool" where
  "no_room c h t req \<longleftrightarrow> c < t - h + req \<or> c < t mod c + req \<and> h mod c < req"

text \<open>The round may refresh the cached head and changes nothing else.\<close>

definition cache_refreshed :: "mem \<Rightarrow> mem \<Rightarrow> ManyToOne \<Rightarrow> bool" where
  "cache_refreshed m m1 rb \<longleftrightarrow>
     m1 = m \<or> m1 = store 8 m (rb_base rb + headCachePositionIndex rb) (rb_head m rb)"

lemma rb_wf_reads:
  assumes "rb_wf rb k"
  shows "GetInt64Volatile m (rb_buffer rb) (tailPositionIndex rb) = Inr (rb_tail m rb)"
    and "GetInt64Volatile m (rb_buffer rb) (headPositionIndex rb) = Inr (rb_head m rb)"
    and "GetInt64Volatile m (rb_buffer rb) (headCachePositionIndex rb) = Inr (rb_cache m rb)"
    and "PutInt64Ordered m (rb_buffer rb) (headCachePositionIndex rb) v =
           Inr (store 8 m (rb_base rb + headCachePositionIndex rb) v)"
proof -
  have k: "5 \<le> k" "k \<le> 30" using assms by (auto simp: rb_wf_def)
  note b = pow2_range [OF k]
  show "GetInt64Volatile m (rb_buffer rb) (tailPositionIndex rb) = Inr (rb_tail m rb)"
    "GetInt64Volatile m (rb_buffer rb) (headPositionIndex rb) = Inr (rb_head m rb)"
    "GetInt64Volatile m (rb_buffer rb) (headCachePositionIndex rb) = Inr (rb_cache m rb)"
    using assms b unfolding rb_tail_def rb_head_def rb_cache_def
    by (auto simp: rb_wf_def intro!: GetInt64Volatile_ok)
  show "PutInt64Ordered m (rb_buffer rb) (headCachePositionIndex rb) v =
      Inr (store 8 m (rb_base rb + headCachePositionIndex rb) v)"
    using assms b by (auto simp: rb_wf_def intro!: PutInt64Ordered_ok)
qed

lemma cache_refreshed_reads:
  assumes "cache_refreshed m m1 rb" and "rb_wf rb k"
  shows "rb_tail m1 rb = rb_tail m rb" and "rb_head m1 rb = rb_head m rb"
    and "rb_cache m1 rb = rb_cache m rb \<or> rb_cache m1 rb = rb_head m rb"
  using assms
  by (auto simp: cache_refreshed_def rb_tail_def rb_head_def rb_cache_def rb_wf_def i64.get_put i64.get_put_other)

lemma wrap_room:
  assumes "rb_wf rb k" and "h \<le> t" and "t - h \<le> 2 ^ k"
  shows "wrap32 (rb_capacity rb - wrap32 (t - h)) = 2 ^ k - (t - h)"
proof -
  have k: "5 \<le> k" "k \<le> 30" and cap: "rb_capacity rb = 2 ^ k" using assms(1) by (auto simp: rb_wf_def)
  note b = pow2_range [OF k]
  have "wrap32 (t - h) = t - h" using assms(2,3) b by (intro wrap32_id) linarith+
  moreover have "wrap32 (2 ^ k - (t - h)) = 2 ^ k - (t - h)" using assms(2,3) b by (intro wrap32_id) linarith+
  ultimately show ?thesis by (simp add: cap)
qed

lemma claim_room_ok:
  assumes wf: "rb_wf rb k" and H: "H = rb_head m rb" and h: "h \<le> H" "H \<le> t" "t - h \<le> 2 ^ k"
  shows "claim_room rb req h t m =
    (if req \<le> 2 ^ k - (t - h) then Inr (Some h, m) else if req > 2 ^ k - (t - H) then Inr (None, m)
     else Inr (Some H, store 8 m (rb_base rb + headCachePositionIndex rb) H))"
  using wrap_room [OF wf, of h t] wrap_room [OF wf, of H t] h rb_wf_reads [OF wf]
  by (simp add: claim_room_def Let_def flip: H)

lemma claim_padding_ok:
  assumes wf: "rb_wf rb k" and H: "H = rb_head m rb"
  shows "claim_padding rb req h (t mod 2 ^ k) m =
    (if t mod 2 ^ k + req \<le> 2 ^ k then Inr (Some (0, h), m)
     else if req \<le> h mod 2 ^ k then Inr (Some (2 ^ k - t mod 2 ^ k, h), m)
     else if req > H mod 2 ^ k then Inr (None, m)
     else Inr (Some (2 ^ k - t mod 2 ^ k, H), store 8 m (rb_base rb + headCachePositionIndex rb) H))"
proof -
  have k: "5 \<le> k" "k \<le> 30" and cap: "rb_capacity rb = 2 ^ k" using wf by (auto simp: rb_wf_def)
  note b = pow2_range [OF k]
  have "0 \<le> t mod 2 ^ k" "t mod 2 ^ k < 2 ^ k" by simp_all
  then have "wrap32 (2 ^ k - t mod 2 ^ k) = 2 ^ k - t mod 2 ^ k" using b by (intro wrap32_id) linarith+
  then show ?thesis
    using rb_wf_reads [OF wf]
    by (auto simp: claim_padding_def Let_def cap mask_index [OF k] simp flip: H)
qed

text \<open>A stale head that passes the test at the end of the buffer is in the lap of the tail.\<close>

lemma stale_index:
  fixes c :: int
  assumes "0 < c" and "h \<le> H" and "H \<le> t" and room: "req \<le> c - (t - h)" and "0 < req"
    and pad: "c - t mod c < req" and idx: "req \<le> h mod c"
  shows "req \<le> H mod c"
proof -
  define q where "q = c * (h div c)"
  have h: "h = q + h mod c" and t: "t = c * (t div c) + t mod c" and H: "H = c * (H div c) + H mod c"
    by (simp_all add: q_def)
  have "h div c \<le> H div c" "H div c \<le> t div c" using assms(1-3) by (auto intro: zdiv_mono1)
  moreover have "t div c \<le> (h + c) div c" using assms(1) room \<open>0 < req\<close> by (intro zdiv_mono1) linarith+
  moreover have "(h + c) div c = h div c + 1" by (rule div_add_self2) (use assms(1) in simp)
  ultimately have "t div c = h div c + 1 \<or> t div c = h div c \<and> H div c = h div c" by linarith
  then have "c * (t div c) = q + c \<or> c * (t div c) = q \<and> c * (H div c) = q" by (auto simp: q_def distrib_left)
  moreover have "h mod c < c" "0 \<le> t mod c" using assms(1) by simp_all
  ultimately show ?thesis using h t H room pad idx assms(2) by linarith
qed

lemma claim_round_ok:
  assumes inv: "rb_inv m rb k rs" and t: "t = rb_tail m rb" and req: "0 < req"
  shows "\<exists>m1. cache_refreshed m m1 rb \<and>
    (if no_room (2 ^ k) (rb_head m rb) t req then claim_round rb req (rb_cache m rb) m = Inr (None, m1)
     else claim_round rb req (rb_cache m rb) m =
        Inr (Some (t, t mod 2 ^ k, pad_len (2 ^ k) t req, rb_cache m1 rb), m1) \<and>
        t + pad_len (2 ^ k) t req + req - rb_cache m1 rb \<le> 2 ^ k)" (is "\<exists>m1. ?goal m1")
proof -
  define H h c m2 where "H = rb_head m rb" and "h = rb_cache m rb" and "c = (2::int) ^ k"
    and "m2 = store 8 m (rb_base rb + headCachePositionIndex rb) H"
  have wf: "rb_wf rb k" and hs: "0 \<le> h" "h \<le> H" "H \<le> t" "t - h \<le> 2 ^ k"
    using inv by (auto simp: rb_inv_def H_def h_def t)
  have k: "5 \<le> k" "k \<le> 30" and cap: "rb_capacity rb = 2 ^ k" using wf by (auto simp: rb_wf_def)
  have c: "0 < c" by (simp add: c_def)
  note room = claim_room_ok [OF wf H_def hs(2-4), of req, folded c_def m2_def]
  have ref: "cache_refreshed m m rb" "cache_refreshed m m2 rb" by (simp_all add: cache_refreshed_def m2_def H_def)
  have m2: "rb_head m2 rb = H" using cache_refreshed_reads [OF ref(2) wf] by (simp add: H_def)
  have "in_i64 H" by (simp add: H_def rb_head_def)
  then have m2c: "rb_cache m2 rb = H" by (simp add: m2_def rb_cache_def i64.get_put)
  note pad = claim_padding_ok [OF wf H_def, of req h t, folded c_def m2_def]
  note pad2 = claim_padding_ok [OF wf m2 [symmetric], of req H t, folded c_def]
  have idx: "wrap32 (t AND wrap32 (c - 1)) = t mod c" unfolding c_def by (rule mask_index [OF k])
  note unfold = claim_round_def rb_wf_reads(1) [OF wf] bindR_Inr cap
    t [symmetric] H_def [symmetric] h_def [symmetric]
  consider "req \<le> c - (t - h)" "t mod c + req \<le> c" | "req \<le> c - (t - h)" "c < t mod c + req" "req \<le> h mod c"
    | "req \<le> c - (t - h)" "c < t mod c + req" "h mod c < req" | "c - (t - h) < req" by linarith
  then show ?thesis
  proof cases
    case 1
    then have "?goal m"
      using ref room pad hs unfolding unfold c_def [symmetric] by (auto simp: no_room_def pad_len_def Let_def idx h_def)
    then show ?thesis by blast
  next
    case 2
    then have "req \<le> H mod c" using stale_index [OF c hs(2,3) _ req] by auto
    moreover have "t + (c - t mod c) + req - h \<le> c" using padded_fits [OF c hs(1) _ _ req] 2 hs by auto
    ultimately have "?goal m"
      using 2 ref room pad hs unfolding unfold c_def [symmetric] by (auto simp: no_room_def pad_len_def Let_def idx h_def)
    then show ?thesis by blast
  next
    case 3
    have "t + (c - t mod c) + req - H \<le> c" if "req \<le> H mod c"
      using padded_fits [OF c _ hs(3) _ req _ that] 3 hs by auto
    then have "if H mod c < req then ?goal m else ?goal m2"
      using 3 ref m2c room pad hs unfolding unfold c_def [symmetric] by (auto simp: no_room_def pad_len_def Let_def idx)
    then show ?thesis by (auto split: if_splits)
  next
    case 4
    have "t + (c - t mod c) + req - H \<le> c" if "req \<le> H mod c" "req \<le> c - (t - H)" "c < t mod c + req"
      using padded_fits [OF c _ hs(3) _ req _ that(1)] that hs by auto
    then have "if c - (t - H) < req then ?goal m else ?goal m2"
      using 4 ref m2c room pad2 hs unfolding unfold c_def [symmetric] by (auto simp: no_room_def pad_len_def Let_def idx)
    then show ?thesis by (auto split: if_splits)
  qed
qed

lemma pad_len_cases:
  assumes k: "5 \<le> k" "k \<le> 30" and t8: "t mod 8 = 0" and c: "c = (2::int) ^ k" and pad: "pad = pad_len c t req"
  shows "pad = 0 \<or> pad = c - t mod c \<and> t mod c + 8 \<le> c" and "8 dvd pad" and "0 \<le> pad" and "pad \<le> c"
    and "(if pad \<noteq> 0 then 0 else t mod c) = (t + pad) mod c"
proof -
  note b = pow2_range [OF k, folded c]
  have ti: "0 \<le> t mod c" "t mod c < c" using b by simp_all
  have "8 dvd c" "8 dvd t" using b(3) t8 by (simp_all add: mod_eq_0_iff_dvd)
  then have d8: "8 dvd c - t mod c" by (simp add: dvd_mod dvd_diff)
  then have "8 \<le> c - t mod c" using ti by (intro zdvd_imp_le) auto
  then show pd: "pad = 0 \<or> pad = c - t mod c \<and> t mod c + 8 \<le> c" by (auto simp: pad pad_len_def)
  show "8 dvd pad" using pd d8 by auto
  show "0 \<le> pad" "pad \<le> c" using pd ti b by linarith+
  have "t + (c - t mod c) = c * (t div c + 1)" by (simp add: distrib_left minus_mod_eq_mult_div [symmetric])
  then show "(if pad \<noteq> 0 then 0 else t mod c) = (t + pad) mod c" using pd by auto
qed

subsection \<open>A claim without interference\<close>


text \<open>A write touches the data, the tail and the cached head of the ring only.\<close>

definition queue_frame :: "mem \<Rightarrow> mem \<Rightarrow> ManyToOne \<Rightarrow> bool" where
  "queue_frame m m' rb \<longleftrightarrow> (\<forall>x. x < rb_base rb \<or> rb_base rb + rb_capacity rb + 264 \<le> x \<longrightarrow> m' x = m x)"

definition claimed :: "mem \<Rightarrow> mem \<Rightarrow> ManyToOne \<Rightarrow> int \<Rightarrow> int \<Rightarrow> int \<Rightarrow> mem" where
  "claimed m m1 rb c t req =
     (let pad = pad_len c t req; m2 = store 8 m1 (rb_base rb + tailPositionIndex rb) (t + pad + req)
      in if pad \<noteq> 0 then store 8 m2 (rb_base rb + t mod c) (makeHeader pad PaddingMsgTypeID) else m2)"

lemma claimCapacity_alone:
  assumes inv: "rb_inv m rb k rs" and t: "t = rb_tail m rb" and req: "0 < req" "req \<le> 2 ^ k" and tm: "req mod 8 = 0"
  shows "\<exists>m1. cache_refreshed m m1 rb \<and>
    (if no_room (2 ^ k) (rb_head m rb) t req then
       claimCapacity alone rb req m = Some (Inr (insufficientCapacity, m1))
     else claimCapacity alone rb req m =
        Some (Inr ((t + pad_len (2 ^ k) t req) mod 2 ^ k, claimed m m1 rb (2 ^ k) t req)) \<and>
        t + pad_len (2 ^ k) t req + req - rb_cache m1 rb \<le> 2 ^ k)"
proof -
  define c pad where "c = (2::int) ^ k" and "pad = pad_len c t req"
  have wf: "rb_wf rb k" and t8: "t mod 8 = 0" and tb: "0 \<le> t" "t < 4611686018427387904"
    using inv by (auto simp: rb_inv_def t)
  have k: "5 \<le> k" "k \<le> 30" using wf by (auto simp: rb_wf_def)
  note b = pow2_range [OF k, folded c_def]
  have ti: "0 \<le> t mod c" "t mod c < c" using b by simp_all
  note pads = pad_len_cases [OF k t8 c_def pad_def]
  note pd = pads(1) and idx = pads(5)
  obtain m1 where m1: "cache_refreshed m m1 rb"
    and round: "if no_room c (rb_head m rb) t req then claim_round rb req (rb_cache m rb) m = Inr (None, m1)
      else claim_round rb req (rb_cache m rb) m = Inr (Some (t, t mod c, pad, rb_cache m1 rb), m1) \<and>
        t + pad + req - rb_cache m1 rb \<le> c"
    using claim_round_ok [OF inv t req(1)] unfolding c_def pad_def by blast
  have "wrap64 (load 8 m1 (rb_base rb + tailPositionIndex rb)) = t"
    using cache_refreshed_reads(1) [OF m1 wf] by (simp add: t rb_tail_def get_i64_def)
  moreover have "BoundsCheck (tailPositionIndex rb) 8 (buf_length (rb_buffer rb)) = Inr ()"
    using wf b by (auto simp: rb_wf_def c_def intro!: BoundsCheck_ok)
  moreover have "wrap64 (t + req + pad) = t + req + pad"
    using pads(3,4) tb req b unfolding c_def [symmetric] by (intro wrap64_id) linarith+
  then have "wrap64 (t + req + pad) = t + pad + req" by simp
  ultimately have cas: "CompareAndSetInt64 m1 (rb_buffer rb) (tailPositionIndex rb) t (wrap64 (t + req + pad)) =
      Inr (True, store 8 m1 (rb_base rb + tailPositionIndex rb) (t + pad + req))"
    by (simp add: CompareAndSetInt64_def)
  have put: "PutInt64Ordered m2 (rb_buffer rb) (t mod c) v = Inr (store 8 m2 (rb_base rb + t mod c) v)" if "t mod c + 8 \<le> c" for m2 v
    using wf ti b that by (intro PutInt64Ordered_ok) (auto simp: rb_wf_def c_def)
  have fin: "finish_claim rb (t mod c) pad (store 8 m1 (rb_base rb + tailPositionIndex rb) (t + pad + req)) =
      Inr ((t + pad) mod c, claimed m m1 rb c t req)"
    using pd put idx by (auto simp: finish_claim_def claimed_def Let_def pad_def [symmetric])
  show ?thesis
    unfolding c_def [symmetric] pad_def [symmetric]
    by (rule exI [of _ m1], subst (1 2) claimCapacity_def, unfold rb_wf_reads(3) [OF wf], subst (1 2) claim_loop.simps)
       (use m1 round in \<open>auto simp: cas fin\<close>)
qed

subsection \<open>Writing a record\<close>

definition rb_source_ok :: "ManyToOne \<Rightarrow> buffer \<Rightarrow> int \<Rightarrow> int \<Rightarrow> bool" where
  "rb_source_ok rb src srcIndex len \<longleftrightarrow>
     0 \<le> srcIndex \<and> 0 \<le> len \<and> srcIndex + len \<le> Capacity src \<and> Capacity src < 2147483648 \<and>
     (rb_base rb + Capacity (rb_buffer rb) \<le> Ptr src \<or> Ptr src + Capacity src \<le> rb_base rb)"

definition message_record :: "int \<Rightarrow> byte list \<Rightarrow> ring_record" where
  "message_record msgTypeID payload =
     \<lparr>rr_length = int (length payload) + 8, rr_type = msgTypeID, rr_payload = payload\<rparr>"

definition padding_records :: "int \<Rightarrow> ring_record list" where
  "padding_records pad = (if pad = 0 then [] else [\<lparr>rr_length = pad, rr_type = PaddingMsgTypeID, rr_payload = []\<rparr>])"

lemma write_record_ok:
  assumes wf: "rb_wf rb k" and i: "0 \<le> i" "i + 8 + len \<le> 2 ^ k" and src: "rb_source_ok rb src srcIndex len"
    and ty: "1 \<le> msgTypeID" "in_i32 msgTypeID" and payload: "payload = read_bytes m (Ptr src + srcIndex) (nat len)"
  shows "\<exists>m'. write_record rb i (len + 8) msgTypeID src srcIndex len m = Inr m' \<and>
     record_at m' (rb_base rb + i) = message_record msgTypeID payload \<and>
     (\<forall>x. x < rb_base rb + i \<or> rb_base rb + i + 8 + len \<le> x \<longrightarrow> m' x = m x)"
proof -
  define a where "a = rb_base rb + i"
  have k: "5 \<le> k" "k \<le> 30" and cap: "Capacity (rb_buffer rb) = 2 ^ k + 768" using wf by (auto simp: rb_wf_def)
  note b = pow2_range [OF k]
  have len: "0 \<le> len" "len < 2147483640" using src i b by (auto simp: rb_source_ok_def)
  have w: "wrap32 (- len - 8) = - len - 8" "wrap32 (i + 8) = i + 8" "wrap32 (len + 8) = len + 8"
    using len i b by (intro wrap32_id; linarith)+
  define m1 where "m1 = store 8 m a (makeHeader (- (len + 8)) msgTypeID)"
  define m2 where "m2 = write_bytes m1 (a + 8) payload"
  define m' where "m' = store 4 m2 a (len + 8)"
  have bytes: "read_bytes m1 (Ptr src + srcIndex) (nat len) = payload"
    unfolding payload m1_def a_def using src i b len
    by (intro read_store_disjoint) (auto simp: rb_source_ok_def cap)
  have "PutInt64Ordered m (rb_buffer rb) i v = Inr (store 8 m a v)" for v
    unfolding a_def using i b len by (intro PutInt64Ordered_ok) (auto simp: cap)
  moreover have "PutBytes m1 (rb_buffer rb) (i + 8) src srcIndex len = Inr m2"
    using PutBytes_ok [of "i + 8" len "rb_buffer rb" srcIndex src m1] src i b len
    by (simp add: rb_source_ok_def cap m2_def a_def bytes add.assoc)
  moreover have "PutInt32Ordered m2 (rb_buffer rb) i (len + 8) = Inr m'"
    unfolding m'_def a_def using i b len by (intro PutInt32Ordered_ok) (auto simp: cap)
  ultimately have "write_record rb i (len + 8) msgTypeID src srcIndex len m = Inr m'"
    by (simp add: write_record_def EncodedMsgOffset_def LengthOffset_def w m1_def)
  moreover have "record_at m' a = message_record msgTypeID payload"
  proof -
    have plen: "length payload = nat len" by (simp add: payload)
    have "get_i32 m' a = len + 8" by (simp add: m'_def i32.get_put w)
    moreover have "get_i32 m' (a + 4) = get_i32 m1 (a + 4)"
      by (simp add: m'_def m2_def i32.get_put_other i32.get_write_other)
    then have "get_i32 m' (a + 4) = msgTypeID" using ty(2) by (simp add: m1_def header_reads)
    moreover have "read_bytes m' (a + 8) (nat len) = payload"
      by (simp add: m'_def m2_def read_store_disjoint read_write_same plen)
    ultimately show ?thesis using ty len plen by (simp add: record_at_def message_record_def)
  qed
  moreover have "m' x = m x" if "x < a \<or> a + 8 + len \<le> x" for x
    using that len by (auto simp: m'_def m2_def m1_def store_outside write_bytes_apply payload)
  ultimately show ?thesis unfolding a_def by blast
qed

text \<open>After the claim: the padding is a record of the queue and the tail has moved.\<close>

lemma claimed_ring:
  assumes inv: "rb_inv m rb k rs" and t: "t = rb_tail m rb" and m1: "cache_refreshed m m1 rb"
    and pad: "pad = pad_len (2 ^ k) t req" and req: "0 < req" "req \<le> 2 ^ k" "req mod 8 = 0"
    and fits: "t + pad + req - rb_cache m1 rb \<le> 2 ^ k" and t': "t + pad + req < 4611686018427387904"
    and m3: "m3 = claimed m m1 rb (2 ^ k) t req"
  shows "ring_at m3 (rb_base rb) (2 ^ k) (rb_head m rb) (rs @ padding_records pad) (t + pad)"
    and "rb_tail m3 rb = t + pad + req" and "rb_head m3 rb = rb_head m rb" and "rb_cache m3 rb = rb_cache m1 rb"
    and "(t + pad) mod 8 = 0" and "queue_frame m m3 rb"
proof -
  define c where "c = (2::int) ^ k"
  define m2 where "m2 = store 8 m1 (rb_base rb + tailPositionIndex rb) (t + pad + req)"
  have wf: "rb_wf rb k" and t8: "t mod 8 = 0" and tb: "0 \<le> t" "t < 4611686018427387904"
    and ring: "ring_at m (rb_base rb) c (rb_head m rb) rs t" and H: "rb_head m rb \<le> t"
    using inv by (auto simp: rb_inv_def t c_def)
  have k: "5 \<le> k" "k \<le> 30" and idx: "tailPositionIndex rb = c + 128" "headCachePositionIndex rb = c + 256"
    "headPositionIndex rb = c + 384" "Capacity (rb_buffer rb) = c + 768" "rb_capacity rb = c" using wf by (auto simp: rb_wf_def c_def)
  note b = pow2_range [OF k, folded c_def]
  have ti: "0 \<le> t mod c" "t mod c < c" using b by simp_all
  note pads = pad_len_cases [OF k t8 c_def pad [folded c_def]]
  note pd = pads(1)
  show "(t + pad) mod 8 = 0" using pads(2) t8 by (simp add: mod_eq_0_iff_dvd)
  have m3': "m3 = (if pad \<noteq> 0 then store 8 m2 (rb_base rb + t mod c) (makeHeader pad PaddingMsgTypeID) else m2)"
    by (simp add: m3 claimed_def Let_def m2_def pad c_def)
  have cache: "rb_cache m1 rb \<le> rb_head m rb"
    using cache_refreshed_reads(3) [OF m1 wf] inv by (auto simp: rb_inv_def)
  have m2x: "m2 x = m x" if "x < rb_base rb + c" for x
    using m1 that by (auto simp: m2_def cache_refreshed_def store_outside idx)
  have reads: "rb_tail m2 rb = t + pad + req" "rb_head m2 rb = rb_head m rb" "rb_cache m2 rb = rb_cache m1 rb"
    using cache_refreshed_reads [OF m1 wf] tb pd ti req t' b
    by (auto simp: m2_def rb_tail_def rb_head_def rb_cache_def idx i64.get_put i64.get_put_other wrap64_id)
  show "rb_tail m3 rb = t + pad + req" "rb_head m3 rb = rb_head m rb" "rb_cache m3 rb = rb_cache m1 rb"
    using reads pd ti unfolding m3' rb_tail_def rb_head_def rb_cache_def idx by (auto simp: i64.get_put_other)
  have "m3 x = m x" if x: "x < rb_base rb \<or> rb_base rb + c + 264 \<le> x" for x
  proof -
    have "m2 x = m x" using x m1 b by (auto simp: m2_def cache_refreshed_def store_outside idx)
    moreover have "x < rb_base rb + t mod c \<or> rb_base rb + t mod c + 8 \<le> x" if "pad \<noteq> 0"
      using that x ti pd b by linarith
    ultimately show ?thesis by (simp add: m3' store_outside)
  qed
  then show "queue_frame m m3 rb" using idx(5) by (simp add: queue_frame_def)
  have ring3: "ring_at m3 (rb_base rb) c (rb_head m rb) rs t"
    using ring
  proof (rule ring_at_chunk [where n = "if pad = 0 then 0 else 8" and q = t])
    show "t + (if pad = 0 then 0 else 8) \<le> rb_head m rb + c" using fits cache pd req unfolding c_def [symmetric] by auto
    show "m3 x = m x" if "rb_base rb \<le> x" "x < rb_base rb + c"
      "x < rb_base rb + t mod c \<or> rb_base rb + t mod c + (if pad = 0 then 0 else 8) \<le> x" for x
      using that m2x unfolding m3' by (auto simp: store_outside)
  qed (use b in auto)
  moreover have "ring_at m3 (rb_base rb) c t (padding_records pad) (t + pad)"
  proof (cases "pad = 0")
    case False
    then have "pad = c - t mod c" using pd by simp
    moreover have "aligned8 pad = pad" using pads(2) by (rule aligned8_id)
    moreover have "8 \<le> pad" "pad < 2147483648" using pd b ti False by linarith+
    ultimately show ?thesis
      using False by (simp add: padding_records_def m3' record_at_def header_reads wrap32_id)
  qed (simp add: padding_records_def)
  ultimately show "ring_at m3 (rb_base rb) (2 ^ k) (rb_head m rb) (rs @ padding_records pad) (t + pad)"
    unfolding ring_at_append c_def by blast
qed

lemma rb_inv_refreshed:
  assumes "rb_inv m rb k rs" and "cache_refreshed m m1 rb"
  shows "rb_inv m1 rb k rs"
proof -
  have wf: "rb_wf rb k" using assms(1) by (simp add: rb_inv_def)
  have ring: "ring_at m (rb_base rb) (2 ^ k) (rb_head m rb) rs (rb_tail m rb)" using assms(1) by (simp add: rb_inv_def)
  have "ring_at m1 (rb_base rb) (2 ^ k) (rb_head m rb) rs (rb_tail m rb)"
    using ring
  proof (rule ring_at_chunk [where n = 0 and q = "rb_tail m rb"])
    show "m1 x = m x" if "x < rb_base rb + 2 ^ k" for x
      using assms(2) wf that by (auto simp: cache_refreshed_def rb_wf_def store_outside)
  qed (use assms(1) in \<open>auto simp: rb_inv_def\<close>)
  then show ?thesis
    using assms(1) cache_refreshed_reads [OF assms(2) wf] by (auto simp: rb_inv_def)
qed

lemma record_index_fits:
  assumes k: "5 \<le> k" "k \<le> 30" and t8: "t mod 8 = 0" and c: "c = (2::int) ^ k" and req: "0 < req" "req \<le> c"
  shows "(t + pad_len c t req) mod c + req \<le> c"
proof -
  have "0 < c" by (simp add: c)
  then have "t mod c < c" by simp
  note idx = pad_len_cases(5) [OF k t8 c refl, of req]
  show ?thesis
  proof (cases "c < t mod c + req")
    case True
    then have "pad_len c t req = c - t mod c" by (simp only: pad_len_def if_True)
    then have "pad_len c t req \<noteq> 0" using \<open>t mod c < c\<close> by linarith
    then have "(t + pad_len c t req) mod c = 0" using idx by (simp only: not_False_eq_True if_True)
    then show ?thesis using req(2) by linarith
  next
    case False
    then show ?thesis by (simp add: pad_len_def)
  qed
qed

text \<open>The record written into a claimed place becomes the last record of the queue.\<close>

lemma claimed_write:
  assumes inv: "rb_inv m rb k rs" and t: "t = rb_tail m rb" and m1: "cache_refreshed m m1 rb"
    and req: "req = aligned8 (len + 8)" "req \<le> 2 ^ k" and pad: "pad = pad_len (2 ^ k) t req"
    and fits: "t + pad + req - rb_cache m1 rb \<le> 2 ^ k" and t': "t + pad + req < 4611686018427387904"
    and src: "rb_source_ok rb src srcIndex len" and ty: "1 \<le> msgTypeID" "in_i32 msgTypeID"
    and payload: "payload = read_bytes m (Ptr src + srcIndex) (nat len)"
  shows "\<exists>m'. write_record rb ((t + pad) mod 2 ^ k) (len + 8) msgTypeID src srcIndex len (claimed m m1 rb (2 ^ k) t req) = Inr m' \<and>
     rb_inv m' rb k (rs @ padding_records pad @ [message_record msgTypeID payload]) \<and>
     queue_frame m m' rb \<and> rb_tail m' rb = t + pad + req"
proof -
  define c m3 i where "c = (2::int) ^ k" and "m3 = claimed m m1 rb (2 ^ k) t req" and "i = (t + pad) mod c"
  have wf: "rb_wf rb k" and t8: "t mod 8 = 0" using inv by (auto simp: rb_inv_def t)
  have k: "5 \<le> k" "k \<le> 30" and idx: "tailPositionIndex rb = c + 128" "headCachePositionIndex rb = c + 256"
    "headPositionIndex rb = c + 384" "Capacity (rb_buffer rb) = c + 768" "rb_capacity rb = c" using wf by (auto simp: rb_wf_def c_def)
  note b = pow2_range [OF k, folded c_def]
  have len: "0 \<le> len" using src by (simp add: rb_source_ok_def)
  have r: "0 < req" "req mod 8 = 0" "len + 8 \<le> req" using aligned8_bounds [of "len + 8"] len by (simp_all add: req)
  note cl = claimed_ring [OF inv t m1 pad r(1) req(2) r(2) fits t' m3_def, folded c_def]
  have i: "0 \<le> i" "i + req \<le> c"
    using record_index_fits [OF k t8 c_def r(1)] req(2) b by (simp_all add: i_def pad c_def)
  have p3: "payload = read_bytes m3 (Ptr src + srcIndex) (nat len)"
    unfolding payload by (rule read_bytes_cong) (use src cl(6) in \<open>auto simp: rb_source_ok_def queue_frame_def idx\<close>)
  have "i + 8 + len \<le> 2 ^ k" using i(2) r(3) by (simp add: c_def)
  from write_record_ok [OF wf i(1) this src ty p3]
  obtain m' where w: "write_record rb i (len + 8) msgTypeID src srcIndex len m3 = Inr m'"
    and rec: "record_at m' (rb_base rb + i) = message_record msgTypeID payload"
    and out: "\<And>x. x < rb_base rb + i \<or> rb_base rb + i + 8 + len \<le> x \<Longrightarrow> m' x = m3 x"
    by blast
  have trailer: "get_i64 m' (rb_base rb + j) = get_i64 m3 (rb_base rb + j)" if "c \<le> j" for j
    using i(2) r(3) that by (intro i64.get_local out) auto
  have reads: "rb_tail m' rb = t + pad + req" "rb_head m' rb = rb_head m rb" "rb_cache m' rb = rb_cache m1 rb"
    unfolding cl(2) [symmetric] cl(3) [symmetric] cl(4) [symmetric]
    by (simp_all add: rb_tail_def rb_head_def rb_cache_def idx trailer)
  have cache: "0 \<le> rb_cache m1 rb" "rb_cache m1 rb \<le> rb_head m rb" "rb_head m rb \<le> t"
    using cache_refreshed_reads(3) [OF m1 wf] inv by (auto simp: rb_inv_def t)
  have plen: "int (length payload) = len" using len by (simp add: payload)
  have "ring_at m' (rb_base rb) c (rb_head m rb) (rs @ padding_records pad) (t + pad)"
    using cl(1)
  proof (rule ring_at_chunk [where n = req and q = "t + pad"])
    show "t + pad + req \<le> rb_head m rb + c" using fits cache unfolding c_def by linarith
    show "m' x = m3 x" if "x < rb_base rb + (t + pad) mod c \<or> rb_base rb + (t + pad) mod c + req \<le> x" for x
      using that r(3) by (intro out) (auto simp: i_def)
  qed (use b r in auto)
  moreover have "ring_at m' (rb_base rb) c (t + pad) [message_record msgTypeID payload] (t + pad + req)"
    using rec i len by (simp add: i_def message_record_def plen req(1))
  ultimately have "ring_at m' (rb_base rb) c (rb_head m rb) (rs @ padding_records pad @ [message_record msgTypeID payload]) (t + pad + req)"
    unfolding append.assoc [symmetric] ring_at_append [of _ _ _ _ "rs @ padding_records pad"] by blast
  moreover have "(t + pad + req) mod 8 = 0" using cl(5) r(2) by presburger
  moreover have "0 \<le> pad" using pad_len_cases(3) [OF k t8 refl pad] .
  then have "rb_head m rb \<le> t + pad + req" using cache r(1) by linarith
  ultimately have "rb_inv m' rb k (rs @ padding_records pad @ [message_record msgTypeID payload])"
    unfolding rb_inv_def reads c_def using wf cache fits t' by blast
  moreover have "queue_frame m m' rb" using cl(6) i len r(3) by (auto simp: queue_frame_def idx out)
  ultimately show ?thesis using w reads(1) unfolding i_def c_def m3_def by blast
qed

subsection \<open>Properties\<close>

lemma ManyToOne_Init_wf:
  assumes "5 \<le> k" and "k \<le> 30" and "Capacity buf = 2 ^ k + 768"
  shows "\<exists>rb. ManyToOne_Init buf = Inr rb \<and> rb_wf rb k \<and> rb_buffer rb = buf"
proof -
  define c where "c = (2::int) ^ k"
  note b = pow2_range [OF assms(1,2), folded c_def]
  have w: "wrap32 c = c" "wrap32 (c + 384) = c + 384" "wrap32 (c + 256) = c + 256" "wrap32 (c + 128) = c + 128"
    "wrap32 (c + 512) = c + 512" "wrap32 (c + 640) = c + 640"
    using b by (intro wrap32_id; linarith)+
  have "c sdiv 8 = c div 8" using b by (simp add: sdiv_nonneg_int)
  then show ?thesis
    using assms b(1)
    by (auto simp: ManyToOne_Init_def rb_wf_def rb_trailerLength_def CacheLineLength_def w Let_def
        rb_headPositionOffset_def rb_headCachePositionOffset_def rb_tailPositionOffset_def
        rb_correlationCounterOffset_def rb_consumerHeartbeatOffset_def simp flip: c_def)
qed

lemma ManyToOne_Write_alone:
  assumes inv: "rb_inv m rb k rs" and t: "t = rb_tail m rb" "t < 4611686016279904256"
    and src: "rb_source_ok rb src srcIndex len" and len: "len \<le> maxMsgLength rb"
    and ty: "1 \<le> msgTypeID" "in_i32 msgTypeID" and req: "req = aligned8 (len + 8)"
    and payload: "payload = read_bytes m (Ptr src + srcIndex) (nat len)"
  shows "\<exists>m'. queue_frame m m' rb \<and> rb_tail m' rb \<le> t + 2 * req \<and>
    (if no_room (2 ^ k) (rb_head m rb) t req then
       ManyToOne_Write alone rb msgTypeID src srcIndex len m = Some (Inr (False, m')) \<and> rb_inv m' rb k rs
     else ManyToOne_Write alone rb msgTypeID src srcIndex len m = Some (Inr (True, m')) \<and>
       rb_inv m' rb k (rs @ padding_records (pad_len (2 ^ k) t req) @ [message_record msgTypeID payload]))"
proof -
  have wf: "rb_wf rb k" and t8: "t mod 8 = 0" using inv by (auto simp: rb_inv_def t)
  have k: "5 \<le> k" "k \<le> 30" and mx: "maxMsgLength rb = 2 ^ k div 8" using wf by (auto simp: rb_wf_def)
  note b = pow2_range [OF k]
  have len0: "0 \<le> len" using src by (simp add: rb_source_ok_def)
  have r: "0 < req" "req mod 8 = 0" "req < len + 16" using aligned8_bounds [of "len + 8"] len0 by (simp_all add: req)
  have reqc: "req \<le> 2 ^ k" and lenb: "len < 2147483000" using len mx b r(3) by linarith+
  have w: "wrap32 (len + 8) = len + 8" "AlignInt32 (len + 8) 8 = req"
    using len0 lenb by (simp_all add: wrap32_id AlignInt32_8 req aligned8_def)
  have checks: "checkMsgTypeID msgTypeID = Inr ()" "checkMsgLength rb len = Inr ()"
    using ty len by (simp_all add: checkMsgTypeID_def checkMsgLength_def)
  obtain m1 where m1: "cache_refreshed m m1 rb"
    and cl: "if no_room (2 ^ k) (rb_head m rb) t req then
       claimCapacity alone rb req m = Some (Inr (insufficientCapacity, m1))
     else claimCapacity alone rb req m =
        Some (Inr ((t + pad_len (2 ^ k) t req) mod 2 ^ k, claimed m m1 rb (2 ^ k) t req)) \<and>
        t + pad_len (2 ^ k) t req + req - rb_cache m1 rb \<le> 2 ^ k"
    using claimCapacity_alone [OF inv t(1) r(1) reqc r(2)] by blast
  show ?thesis
  proof (cases "no_room (2 ^ k) (rb_head m rb) t req")
    case True
    moreover have "queue_frame m m1 rb"
      using m1 wf b(1) by (auto simp: queue_frame_def cache_refreshed_def rb_wf_def intro!: store_outside)
    moreover have "rb_tail m1 rb \<le> t + 2 * req" using cache_refreshed_reads(1) [OF m1 wf] r(1) t(1) by simp
    ultimately show ?thesis
      using cl rb_inv_refreshed [OF inv m1] by (auto simp: ManyToOne_Write_def checks w)
  next
    case False
    let ?pad = "pad_len (2 ^ k) t req"
    have "0 \<le> (t + ?pad) mod 2 ^ k" by simp
    moreover have "insufficientCapacity < 0" by simp
    ultimately have idx: "(t + ?pad) mod 2 ^ k \<noteq> insufficientCapacity" by linarith
    have "t + ?pad + req < 4611686018427387904"
      using pad_len_cases(4) [OF k t8 refl refl, of req] reqc b t(2) by linarith
    moreover have "?pad \<le> req" using r(1) by (simp add: pad_len_def)
    ultimately show ?thesis
      using claimed_write [OF inv t(1) m1 req reqc refl _ _ src ty payload] cl False idx
      by (auto simp: ManyToOne_Write_def checks w)
  qed
qed

lemma rb_inv_cong:
  assumes "rb_inv m rb k rs" and same: "\<And>x. rb_base rb \<le> x \<Longrightarrow> x < rb_base rb + 2 ^ k + 512 \<Longrightarrow> m' x = m x"
  shows "rb_inv m' rb k rs" and "rb_tail m' rb = rb_tail m rb" and "rb_head m' rb = rb_head m rb"
proof -
  have wf: "rb_wf rb k" using assms(1) by (simp add: rb_inv_def)
  have k: "5 \<le> k" "k \<le> 30" using wf by (auto simp: rb_wf_def)
  note b = pow2_range [OF k]
  show cs: "rb_tail m' rb = rb_tail m rb" "rb_head m' rb = rb_head m rb"
    unfolding rb_tail_def rb_head_def by (rule i64.get_local; use wf b in \<open>auto simp: rb_wf_def intro!: same\<close>)+
  have ch: "rb_cache m' rb = rb_cache m rb"
    unfolding rb_cache_def by (rule i64.get_local; use wf b in \<open>auto simp: rb_wf_def intro!: same\<close>)
  have "ring_at m' (rb_base rb) (2 ^ k) (rb_head m rb) rs (rb_tail m rb)"
    by (rule ring_at_chunk [where n = 0 and q = "rb_tail m rb"]) (use assms b in \<open>auto simp: rb_inv_def\<close>)
  then show "rb_inv m' rb k rs" using assms(1) by (simp add: rb_inv_def cs ch)
qed

text \<open>
  (C7) A command is written to the ring buffer as a whole or not at all. When there is room, the
  write succeeds, and the queue between the head and the tail is the old one, followed by
  padding if the record would cross the end of the buffer, followed by one committed record
  with the type and the bytes of the message; no byte of an older record changes. When there
  is no room, the write returns false and the queue is as it was. Nothing but the data, the tail
  and the cached head is ever written. Room is always found when
  the padding and the record fit between the tail and the head, even if the cached head is stale.
\<close>

theorem ManyToOne_Write_appends:
  assumes inv: "rb_inv m rb k rs" and t: "t = rb_tail m rb" "t < 4611686016279904256"
    and src: "rb_source_ok rb src srcIndex len" and len: "len \<le> maxMsgLength rb"
    and ty: "1 \<le> msgTypeID" "in_i32 msgTypeID" and req: "req = aligned8 (len + 8)"
    and payload: "payload = read_bytes m (Ptr src + srcIndex) (nat len)"
  shows "\<exists>m'. queue_frame m m' rb \<and> rb_tail m' rb \<le> t + 2 * req \<and>
    (if no_room (2 ^ k) (rb_head m rb) t req then
       ManyToOne_Write alone rb msgTypeID src srcIndex len m = Some (Inr (False, m')) \<and> rb_inv m' rb k rs
     else ManyToOne_Write alone rb msgTypeID src srcIndex len m = Some (Inr (True, m')) \<and>
       rb_inv m' rb k (rs @ padding_records (pad_len (2 ^ k) t req) @ [message_record msgTypeID payload]))"
  using assms by (rule ManyToOne_Write_alone)

text \<open>A ring of 1024 bytes with the tail 16 bytes in front of the end and an empty queue.\<close>

definition sample_ring :: ManyToOne where
  "sample_ring = \<lparr>rb_buffer = Wrap 0 1792, rb_capacity = 1024, maxMsgLength = 128, headPositionIndex = 1408,
     headCachePositionIndex = 1280, tailPositionIndex = 1152, correlationIDCounterIndex = 1536,
     consumerHeartbeatIndex = 1664\<rparr>"

definition sample_ring_mem :: mem where
  "sample_ring_mem = store 8 (store 8 (store 8 (\<lambda>_. 7) 1408 1008) 1280 1008) 1152 1008"

lemma sample_ring_inv: "rb_inv sample_ring_mem sample_ring 10 []"
  "rb_head sample_ring_mem sample_ring = 1008" "1008 = rb_tail sample_ring_mem sample_ring"
  by (simp_all add: rb_inv_def rb_wf_def sample_ring_def sample_ring_mem_def rb_cache_def rb_head_def rb_tail_def
      i64.get_put i64.get_put_other wrap64_id Wrap_def)

lemma sample_ring_source: "rb_source_ok sample_ring (Wrap 9000 100) 10 20"
  by (simp add: rb_source_ok_def sample_ring_def Wrap_def)

theorem ManyToOne_Write_appends_witness:
  "\<exists>m'. ManyToOne_Write alone sample_ring 3 (Wrap 9000 100) 10 20 sample_ring_mem = Some (Inr (True, m')) \<and>
     rb_inv m' sample_ring 10 [\<lparr>rr_length = 16, rr_type = - 1, rr_payload = []\<rparr>,
       \<lparr>rr_length = 28, rr_type = 3, rr_payload = read_bytes sample_ring_mem 9010 20\<rparr>]"
  using ManyToOne_Write_appends [OF sample_ring_inv(1,3) _ sample_ring_source _ _ _ refl refl, of 3]
  by (simp add: sample_ring_inv(2) in_i32_def no_room_def pad_len_def padding_records_def message_record_def
      aligned8_def) (auto simp: sample_ring_def)

end
