(* ===== verification/Commands.thy ===== *)
theory Commands
  imports Flyweight
begin

text \<open>
  \<open>aeron/command\<close> and \<open>aeron/driver/flyweights.go\<close>: the messages between the client and the media
  driver as flyweights. \<open>Wrap\<close> lays the fields of a message out one behind the other, checking
  each against the buffer, and records the size; a string is preceded by its length and starts
  at a multiple of four. \<open>wire_at\<close> says what a message in memory carries.
\<close>

subsection \<open>Command and error codes\<close>

definition cmd_AddPublication :: int where [simp]: "cmd_AddPublication = 1"
definition cmd_RemovePublication :: int where [simp]: "cmd_RemovePublication = 2"
definition cmd_AddExclusivePublication :: int where [simp]: "cmd_AddExclusivePublication = 3"
definition cmd_AddSubscription :: int where [simp]: "cmd_AddSubscription = 4"
definition cmd_RemoveSubscription :: int where [simp]: "cmd_RemoveSubscription = 5"
definition cmd_ClientKeepalive :: int where [simp]: "cmd_ClientKeepalive = 6"
definition cmd_AddDestination :: int where [simp]: "cmd_AddDestination = 7"
definition cmd_RemoveDestination :: int where [simp]: "cmd_RemoveDestination = 8"
definition cmd_AddCounter :: int where [simp]: "cmd_AddCounter = 9"
definition cmd_RemoveCounter :: int where [simp]: "cmd_RemoveCounter = 10"
definition cmd_ClientClose :: int where [simp]: "cmd_ClientClose = 11"
definition cmd_AddRcvDestination :: int where [simp]: "cmd_AddRcvDestination = 12"
definition cmd_RemoveRcvDestination :: int where [simp]: "cmd_RemoveRcvDestination = 13"
definition ErrorCodeChannelEndpointError :: int where [simp]: "ErrorCodeChannelEndpointError = 4"

subsection \<open>Commands to the driver\<close>

record CorrelatedMessage =
  cmsg_size :: int
  cmsg_ClientID :: Int64Field
  cmsg_CorrelationID :: Int64Field

definition CorrelatedMessage_Wrap :: "buffer \<Rightarrow> int \<Rightarrow> CorrelatedMessage res" where
  "CorrelatedMessage_Wrap buf offset =
     (let pos = offset in
      bindR (Int64Field_Wrap buf pos) (\<lambda>(f1, n). let pos = pos + n in
      bindR (Int64Field_Wrap buf pos) (\<lambda>(f2, n). let pos = pos + n in
      Inr \<lparr>cmsg_size = pos - offset, cmsg_ClientID = f1, cmsg_CorrelationID = f2\<rparr>)))"

record ImageMessage =
  imsg_size :: int
  imsg_CorrelationID :: Int64Field
  imsg_SubscriptionRegistrationID :: Int64Field
  imsg_StreamID :: Int32Field
  imsg_Channel :: StringField

definition ImageMessage_Wrap :: "mem \<Rightarrow> buffer \<Rightarrow> int \<Rightarrow> ImageMessage res" where
  "ImageMessage_Wrap m buf offset =
     (let pos = offset in
      bindR (Int64Field_Wrap buf pos) (\<lambda>(f1, n). let pos = pos + n in
      bindR (Int64Field_Wrap buf pos) (\<lambda>(f2, n). let pos = pos + n in
      bindR (Int32Field_Wrap buf pos) (\<lambda>(f3, n). let pos = pos + n in
      bindR (StringField_Wrap m buf pos True) (\<lambda>(f4, n). let pos = pos + n in
      Inr \<lparr>imsg_size = pos - offset, imsg_CorrelationID = f1, imsg_SubscriptionRegistrationID = f2,
           imsg_StreamID = f3, imsg_Channel = f4\<rparr>)))))"

record PublicationMessage =
  pmsg_size :: int
  pmsg_ClientID :: Int64Field
  pmsg_CorrelationID :: Int64Field
  pmsg_StreamID :: Int32Field
  pmsg_Channel :: StringField

definition PublicationMessage_Wrap :: "mem \<Rightarrow> buffer \<Rightarrow> int \<Rightarrow> PublicationMessage res" where
  "PublicationMessage_Wrap m buf offset =
     (let pos = offset in
      bindR (Int64Field_Wrap buf pos) (\<lambda>(f1, n). let pos = pos + n in
      bindR (Int64Field_Wrap buf pos) (\<lambda>(f2, n). let pos = pos + n in
      bindR (Int32Field_Wrap buf pos) (\<lambda>(f3, n). let pos = pos + n in
      bindR (StringField_Wrap m buf pos True) (\<lambda>(f4, n). let pos = pos + n in
      Inr \<lparr>pmsg_size = pos - offset, pmsg_ClientID = f1, pmsg_CorrelationID = f2, pmsg_StreamID = f3,
           pmsg_Channel = f4\<rparr>)))))"

record SubscriptionMessage =
  smsg_size :: int
  smsg_ClientID :: Int64Field
  smsg_CorrelationID :: Int64Field
  smsg_RegistrationCorrelationID :: Int64Field
  smsg_StreamID :: Int32Field
  smsg_Channel :: StringField

definition SubscriptionMessage_Wrap :: "mem \<Rightarrow> buffer \<Rightarrow> int \<Rightarrow> SubscriptionMessage res" where
  "SubscriptionMessage_Wrap m buf offset =
     (let pos = offset in
      bindR (Int64Field_Wrap buf pos) (\<lambda>(f1, n). let pos = pos + n in
      bindR (Int64Field_Wrap buf pos) (\<lambda>(f2, n). let pos = pos + n in
      bindR (Int64Field_Wrap buf pos) (\<lambda>(f3, n). let pos = pos + n in
      bindR (Int32Field_Wrap buf pos) (\<lambda>(f4, n). let pos = pos + n in
      bindR (StringField_Wrap m buf pos True) (\<lambda>(f5, n). let pos = pos + n in
      Inr \<lparr>smsg_size = pos - offset, smsg_ClientID = f1, smsg_CorrelationID = f2,
           smsg_RegistrationCorrelationID = f3, smsg_StreamID = f4, smsg_Channel = f5\<rparr>))))))"

record RemoveMessage =
  rmsg_size :: int
  rmsg_ClientID :: Int64Field
  rmsg_CorrelationID :: Int64Field
  rmsg_RegistrationID :: Int64Field

definition RemoveMessage_Wrap :: "buffer \<Rightarrow> int \<Rightarrow> RemoveMessage res" where
  "RemoveMessage_Wrap buf offset =
     (let pos = offset in
      bindR (Int64Field_Wrap buf pos) (\<lambda>(f1, n). let pos = pos + n in
      bindR (Int64Field_Wrap buf pos) (\<lambda>(f2, n). let pos = pos + n in
      bindR (Int64Field_Wrap buf pos) (\<lambda>(f3, n). let pos = pos + n in
      Inr \<lparr>rmsg_size = pos - offset, rmsg_ClientID = f1, rmsg_CorrelationID = f2,
           rmsg_RegistrationID = f3\<rparr>))))"

record DestinationMessage =
  dmsg_size :: int
  dmsg_ClientID :: Int64Field
  dmsg_CorrelationID :: Int64Field
  dmsg_RegistrationCorrelationID :: Int64Field
  dmsg_Channel :: StringField

definition DestinationMessage_Wrap :: "mem \<Rightarrow> buffer \<Rightarrow> int \<Rightarrow> DestinationMessage res" where
  "DestinationMessage_Wrap m buf offset =
     (let pos = offset in
      bindR (Int64Field_Wrap buf pos) (\<lambda>(f1, n). let pos = pos + n in
      bindR (Int64Field_Wrap buf pos) (\<lambda>(f2, n). let pos = pos + n in
      bindR (Int64Field_Wrap buf pos) (\<lambda>(f3, n). let pos = pos + n in
      bindR (StringField_Wrap m buf pos True) (\<lambda>(f4, n). let pos = pos + n in
      Inr \<lparr>dmsg_size = pos - offset, dmsg_ClientID = f1, dmsg_CorrelationID = f2,
           dmsg_RegistrationCorrelationID = f3, dmsg_Channel = f4\<rparr>)))))"

text \<open>
  The counter command has two fields of variable length; the second one is laid out again
  whenever the first has changed.
\<close>

record CounterMessage =
  kmsg_size :: int
  kmsg_buf :: buffer
  kmsg_offset :: int
  kmsg_ClientID :: Int64Field
  kmsg_CorrelationID :: Int64Field
  kmsg_CounterTypeID :: Int32Field
  kmsg_key :: LengthAndRawDataField
  kmsg_label :: LengthAndRawDataField

definition getLabelOffset :: "mem \<Rightarrow> LengthAndRawDataField \<Rightarrow> int" where
  "getLabelOffset m key = 8 + 8 + 4 + 4 + LengthAndRawDataField_Length m key"

definition setSize :: "mem \<Rightarrow> CounterMessage \<Rightarrow> CounterMessage" where
  "setSize m msg = msg\<lparr>kmsg_size := getLabelOffset m (kmsg_key msg) + 4 + LengthAndRawDataField_Length m (kmsg_label msg)\<rparr>"

definition wrapLabel :: "mem \<Rightarrow> buffer \<Rightarrow> int \<Rightarrow> LengthAndRawDataField \<Rightarrow> LengthAndRawDataField res" where
  "wrapLabel m buf offset key =
     bindR (LengthAndRawDataField_Wrap m buf (offset + getLabelOffset m key)) (\<lambda>(label, _). Inr label)"

definition CounterMessage_Wrap :: "mem \<Rightarrow> buffer \<Rightarrow> int \<Rightarrow> CounterMessage res" where
  "CounterMessage_Wrap m buf offset =
     (let pos = offset in
      bindR (Int64Field_Wrap buf pos) (\<lambda>(f1, n). let pos = pos + n in
      bindR (Int64Field_Wrap buf pos) (\<lambda>(f2, n). let pos = pos + n in
      bindR (Int32Field_Wrap buf pos) (\<lambda>(f3, n). let pos = pos + n in
      bindR (LengthAndRawDataField_Wrap m buf pos) (\<lambda>(key, n).
      bindR (wrapLabel m buf offset key) (\<lambda>label.
      Inr (setSize m \<lparr>kmsg_size = 0, kmsg_buf = buf, kmsg_offset = offset, kmsg_ClientID = f1, kmsg_CorrelationID = f2,
                      kmsg_CounterTypeID = f3, kmsg_key = key, kmsg_label = label\<rparr>)))))))"

definition CopyKeyBuffer :: "mem \<Rightarrow> CounterMessage \<Rightarrow> buffer \<Rightarrow> int \<Rightarrow> int \<Rightarrow> mem res" where
  "CopyKeyBuffer m msg buf offset len = LengthAndRawDataField_CopyBuffer m (kmsg_key msg) buf offset len"

definition CopyLabelBuffer :: "mem \<Rightarrow> CounterMessage \<Rightarrow> buffer \<Rightarrow> int \<Rightarrow> int \<Rightarrow> (CounterMessage \<times> mem) res" where
  "CopyLabelBuffer m msg buf offset len =
     bindR (wrapLabel m (kmsg_buf msg) (kmsg_offset msg) (kmsg_key msg)) (\<lambda>label.
     bindR (LengthAndRawDataField_CopyBuffer m label buf offset len) (\<lambda>m.
     Inr (setSize m (msg\<lparr>kmsg_label := label\<rparr>), m)))"

definition CopyLabelString :: "mem \<Rightarrow> CounterMessage \<Rightarrow> byte list \<Rightarrow> (CounterMessage \<times> mem) res" where
  "CopyLabelString m msg text =
     bindR (wrapLabel m (kmsg_buf msg) (kmsg_offset msg) (kmsg_key msg)) (\<lambda>label.
     bindR (LengthAndRawDataField_CopyString m label text) (\<lambda>m.
     Inr (setSize m (msg\<lparr>kmsg_label := label\<rparr>), m)))"

subsection \<open>Events from the driver\<close>

record errorMessage =
  err_size :: int
  err_offendingCommandCorrelationID :: Int64Field
  err_errorCode :: Int32Field
  err_errorMessage :: StringField

definition errorMessage_Wrap :: "mem \<Rightarrow> buffer \<Rightarrow> int \<Rightarrow> errorMessage res" where
  "errorMessage_Wrap m buf offset =
     (let pos = offset in
      bindR (Int64Field_Wrap buf pos) (\<lambda>(f1, n). let pos = pos + n in
      bindR (Int32Field_Wrap buf pos) (\<lambda>(f2, n). let pos = pos + n in
      bindR (StringField_Wrap m buf pos True) (\<lambda>(f3, n). let pos = pos + n in
      Inr \<lparr>err_size = pos - offset, err_offendingCommandCorrelationID = f1, err_errorCode = f2,
           err_errorMessage = f3\<rparr>))))"

record publicationReady =
  pready_size :: int
  pready_correlationID :: Int64Field
  pready_registrationID :: Int64Field
  pready_sessionID :: Int32Field
  pready_streamID :: Int32Field
  pready_publicationLimitOffset :: Int32Field
  pready_channelStatusIndicatorID :: Int32Field
  pready_logFileName :: StringField

definition publicationReady_Wrap :: "mem \<Rightarrow> buffer \<Rightarrow> int \<Rightarrow> publicationReady res" where
  "publicationReady_Wrap m buf offset =
     (let pos = offset in
      bindR (Int64Field_Wrap buf pos) (\<lambda>(f1, n). let pos = pos + n in
      bindR (Int64Field_Wrap buf pos) (\<lambda>(f2, n). let pos = pos + n in
      bindR (Int32Field_Wrap buf pos) (\<lambda>(f3, n). let pos = pos + n in
      bindR (Int32Field_Wrap buf pos) (\<lambda>(f4, n). let pos = pos + n in
      bindR (Int32Field_Wrap buf pos) (\<lambda>(f5, n). let pos = pos + n in
      bindR (Int32Field_Wrap buf pos) (\<lambda>(f6, n). let pos = pos + n in
      bindR (StringField_Wrap m buf pos True) (\<lambda>(f7, n). let pos = pos + n in
      Inr \<lparr>pready_size = pos - offset, pready_correlationID = f1, pready_registrationID = f2,
           pready_sessionID = f3, pready_streamID = f4, pready_publicationLimitOffset = f5, pready_channelStatusIndicatorID = f6, pready_logFileName = f7\<rparr>))))))))"

record subscriptionReady =
  sready_size :: int
  sready_correlationID :: Int64Field
  sready_channelStatusIndicatorID :: Int32Field

definition subscriptionReady_Wrap :: "buffer \<Rightarrow> int \<Rightarrow> subscriptionReady res" where
  "subscriptionReady_Wrap buf offset =
     (let pos = offset in
      bindR (Int64Field_Wrap buf pos) (\<lambda>(f1, n). let pos = pos + n in
      bindR (Int32Field_Wrap buf pos) (\<lambda>(f2, n). let pos = pos + n in
      Inr \<lparr>sready_size = pos - offset, sready_correlationID = f1, sready_channelStatusIndicatorID = f2\<rparr>)))"

record imageReadyHeader =
  iready_size :: int
  iready_correlationID :: Int64Field
  iready_sessionID :: Int32Field
  iready_streamID :: Int32Field
  iready_subsRegistrationID :: Int64Field
  iready_subsPosID :: Int32Field
  iready_logFile :: StringField
  iready_sourceIdentity :: StringField

definition imageReadyHeader_Wrap :: "mem \<Rightarrow> buffer \<Rightarrow> int \<Rightarrow> imageReadyHeader res" where
  "imageReadyHeader_Wrap m buf offset =
     (let pos = offset in
      bindR (Int64Field_Wrap buf pos) (\<lambda>(f1, n). let pos = pos + n in
      bindR (Int32Field_Wrap buf pos) (\<lambda>(f2, n). let pos = pos + n in
      bindR (Int32Field_Wrap buf pos) (\<lambda>(f3, n). let pos = pos + n in
      bindR (Int64Field_Wrap buf pos) (\<lambda>(f4, n). let pos = pos + n in
      bindR (Int32Field_Wrap buf pos) (\<lambda>(f5, n). let pos = pos + n in
      bindR (StringField_Wrap m buf pos True) (\<lambda>(f6, n). let pos = pos + n in
      bindR (StringField_Wrap m buf pos True) (\<lambda>(f7, n). let pos = pos + n in
      Inr \<lparr>iready_size = pos - offset, iready_correlationID = f1, iready_sessionID = f2, iready_streamID = f3,
           iready_subsRegistrationID = f4, iready_subsPosID = f5, iready_logFile = f6, iready_sourceIdentity = f7\<rparr>))))))))"

record counterUpdate =
  cupd_size :: int
  cupd_correlationID :: Int64Field
  cupd_counterID :: Int32Field

definition counterUpdate_Wrap :: "buffer \<Rightarrow> int \<Rightarrow> counterUpdate res" where
  "counterUpdate_Wrap buf offset =
     (let pos = offset in
      bindR (Int64Field_Wrap buf pos) (\<lambda>(f1, n). let pos = pos + n in
      bindR (Int32Field_Wrap buf pos) (\<lambda>(f2, n). let pos = pos + n in
      Inr \<lparr>cupd_size = pos - offset, cupd_correlationID = f1, cupd_counterID = f2\<rparr>)))"

record clientTimeout =
  ctmo_size :: int
  ctmo_clientID :: Int64Field

definition clientTimeout_Wrap :: "buffer \<Rightarrow> int \<Rightarrow> clientTimeout res" where
  "clientTimeout_Wrap buf offset =
     (let pos = offset in
      bindR (Int64Field_Wrap buf pos) (\<lambda>(f1, n). let pos = pos + n in
      Inr \<lparr>ctmo_size = pos - offset, ctmo_clientID = f1\<rparr>))"

subsection \<open>Messages in memory\<close>

datatype wire = I64 int | I32 int | Text "byte list"

definition align4 :: "int \<Rightarrow> int" where
  "align4 n = (n + 3) div 4 * 4"

fun wire_at :: "mem \<Rightarrow> buffer \<Rightarrow> int \<Rightarrow> wire list \<Rightarrow> bool" where
  "wire_at m buf pos [] \<longleftrightarrow> True"
| "wire_at m buf pos (I64 v # ws) \<longleftrightarrow>
     pos + 8 \<le> Capacity buf \<and> get_i64 m (Ptr buf + pos) = v \<and> wire_at m buf (pos + 8) ws"
| "wire_at m buf pos (I32 v # ws) \<longleftrightarrow>
     pos + 4 \<le> Capacity buf \<and> get_i32 m (Ptr buf + pos) = v \<and> wire_at m buf (pos + 4) ws"
| "wire_at m buf pos (Text s # ws) \<longleftrightarrow>
     align4 pos + 4 + int (length s) \<le> Capacity buf \<and> get_i32 m (Ptr buf + align4 pos) = int (length s) \<and>
     read_bytes m (Ptr buf + align4 pos + 4) (length s) = s \<and> wire_at m buf (align4 pos + 4 + int (length s)) ws"

lemma align4_bounds: "n \<le> align4 n" "align4 n < n + 4" "align4 n mod 4 = 0"
  unfolding align4_def by linarith+ simp

lemma align4_id [simp]: "4 dvd n \<Longrightarrow> align4 n = n"
  by (auto simp: align4_def elim!: dvdE)

lemma wire_at_cong:
  assumes "wire_at m buf pos ws" and "0 \<le> pos" and "Capacity buf \<le> Capacity buf'"
    and same: "\<And>i. 0 \<le> i \<Longrightarrow> i < Capacity buf \<Longrightarrow> m' (Ptr buf' + i) = m (Ptr buf + i)"
  shows "wire_at m' buf' pos ws"
  using assms(1,2)
proof (induction ws arbitrary: pos)
  case (Cons w ws)
  have rd: "read_bytes m' (Ptr buf' + p) n = read_bytes m (Ptr buf + p) n" if "0 \<le> p" "p + int n \<le> Capacity buf" for p n
  proof (rule nth_equalityI)
    fix i assume "i < length (read_bytes m' (Ptr buf' + p) n)"
    then show "read_bytes m' (Ptr buf' + p) n ! i = read_bytes m (Ptr buf + p) n ! i"
      using same [of "p + int i"] that by (simp add: nth_read_bytes add.assoc)
  qed simp
  have i32: "get_i32 m' (Ptr buf' + p) = get_i32 m (Ptr buf + p)" if "0 \<le> p" "p + 4 \<le> Capacity buf" for p
    using rd [of p 4] that by (simp add: get_i32_def load_def)
  have i64: "get_i64 m' (Ptr buf' + p) = get_i64 m (Ptr buf + p)" if "0 \<le> p" "p + 8 \<le> Capacity buf" for p
    using rd [of p 8] that by (simp add: get_i64_def load_def)
  show ?case
  proof (cases w)
    case (I64 v)
    then show ?thesis using Cons i64 [of pos] assms(3) by auto
  next
    case (I32 v)
    then show ?thesis using Cons i32 [of pos] assms(3) by auto
  next
    case (Text s)
    have "0 \<le> align4 pos" using align4_bounds(1) [of pos] Cons.prems by simp
    then show ?thesis
      using Text Cons i32 [of "align4 pos"] rd [of "align4 pos + 4" "length s"] assms(3) by (auto simp: add.assoc)
  qed
qed simp

lemma StringField_wire:
  assumes "0 \<le> pos" and "Capacity buf < 2147483648" and "wire_at m buf pos (Text s # ws)"
  shows "StringField_Wrap m buf pos True =
      Inr (\<lparr>lenOffset = Ptr buf + align4 pos, dataOffset = Ptr buf + (align4 pos + 4)\<rparr>, align4 pos + 4 + int (length s) - pos)"
    and "StringField_Get m \<lparr>lenOffset = Ptr buf + align4 pos, dataOffset = Ptr buf + (align4 pos + 4)\<rparr> = Inr s"
proof -
  let ?p = "align4 pos"
  have p: "?p + 4 + int (length s) \<le> Capacity buf" "get_i32 m (Ptr buf + ?p) = int (length s)"
    "read_bytes m (Ptr buf + ?p + 4) (length s) = s" using assms(3) by auto
  have "0 \<le> ?p" "pos \<le> ?p" using align4_bounds(1) [of pos] assms(1) by linarith+
  moreover have "AlignInt32 pos 4 = ?p"
    using AlignInt32_4 [of pos] assms(1,2) p(1) \<open>pos \<le> ?p\<close> by (simp add: align4_def)
  ultimately show "StringField_Wrap m buf pos True =
      Inr (\<lparr>lenOffset = Ptr buf + ?p, dataOffset = Ptr buf + (?p + 4)\<rparr>, ?p + 4 + int (length s) - pos)"
    using assms p by (simp add: StringField_Wrap_def wrap32_id BoundsCheck_ok Let_def)
  show "StringField_Get m \<lparr>lenOffset = Ptr buf + ?p, dataOffset = Ptr buf + (?p + 4)\<rparr> = Inr s"
    using p(2,3) by (simp add: StringField_Get_def map_read_bytes flip: add.assoc)
qed

definition carries :: "byte list \<Rightarrow> wire list \<Rightarrow> bool" where
  "carries payload ws \<longleftrightarrow> wire_at (write_bytes (\<lambda>_. 0) 0 payload) (Wrap 0 (int (length payload))) 0 ws"

lemma carries_wire_at:
  assumes "carries payload ws" and "read_bytes m (Ptr buf) (length payload) = payload" and "int (length payload) \<le> Capacity buf"
  shows "wire_at m buf 0 ws"
proof (rule wire_at_cong [OF assms(1) [unfolded carries_def]])
  fix i :: int assume i: "0 \<le> i" "i < Capacity (Wrap 0 (int (length payload)))"
  then have "m (Ptr buf + i) = payload ! nat i" using nth_read_bytes [of "nat i" "length payload" m "Ptr buf"] assms(2) by (simp add: Wrap_def)
  then show "m (Ptr buf + i) = write_bytes (\<lambda>_. 0) 0 payload (Ptr (Wrap 0 (int (length payload))) + i)"
    using i by (simp add: write_bytes_apply Wrap_def)
qed (use assms(3) in \<open>auto simp: Wrap_def\<close>)

lemma carries_read:
  assumes "wire_at m buf 0 ws" and "Capacity buf = int n"
  shows "carries (read_bytes m (Ptr buf) n) ws"
  unfolding carries_def
  by (rule wire_at_cong [OF assms(1)]) (use assms(2) in \<open>auto simp: Wrap_def write_bytes_apply nth_read_bytes\<close>)

text \<open>Where a message ends; it needs no more of the buffer than that.\<close>

fun wire_end :: "int \<Rightarrow> wire list \<Rightarrow> int" where
  "wire_end pos [] = pos"
| "wire_end pos (I64 v # ws) = wire_end (pos + 8) ws"
| "wire_end pos (I32 v # ws) = wire_end (pos + 4) ws"
| "wire_end pos (Text s # ws) = wire_end (align4 pos + 4 + int (length s)) ws"

lemma wire_end_ge: "pos \<le> wire_end pos ws"
proof (induction pos ws rule: wire_end.induct)
  case (4 pos s ws)
  then show ?case using align4_bounds(1) [of pos] by simp
qed auto

lemma wire_at_shrink:
  "wire_at m buf pos ws \<Longrightarrow> wire_end pos ws \<le> n \<Longrightarrow> wire_at m (Wrap (Ptr buf) n) pos ws"
proof (induction m buf pos ws rule: wire_at.induct)
  case (2 m buf pos v ws)
  then show ?case using wire_end_ge [of "pos + 8" ws] by (auto simp: Wrap_def)
next
  case (3 m buf pos v ws)
  then show ?case using wire_end_ge [of "pos + 4" ws] by (auto simp: Wrap_def)
next
  case (4 m buf pos s ws)
  then show ?case using wire_end_ge [of "align4 pos + 4 + int (length s)" ws] by (auto simp: Wrap_def)
qed (simp add: Wrap_def)

lemma carries_wire:
  assumes "wire_at m buf 0 ws" and "int n = wire_end 0 ws"
  shows "carries (read_bytes m (Ptr buf) n) ws"
  using carries_read [OF wire_at_shrink [OF assms(1), of "int n"]] assms(2) by (simp add: Wrap_def)

end
