(* ===== verification/Driver_Proxy.thy ===== *)
theory Driver_Proxy
  imports Ring_Log Commands
begin

text \<open>
  \<open>aeron/driver/proxy.go\<close>: the commands of the client. Each takes a correlation id from the ring
  buffer, lays its message out in a fresh buffer of 512 bytes (the filler) and writes it to the
  ring buffer. The address of the fresh buffer is the parameter \<open>heap\<close>; \<open>env\<close> is what other
  producers do during the claim.
\<close>

subsection \<open>The proxy\<close>

record Proxy =
  toDriverCommandBuffer :: ManyToOne
  px_clientID :: int

definition Proxy_Init :: "mem \<Rightarrow> ManyToOne \<Rightarrow> (Proxy \<times> mem) res" where
  "Proxy_Init m rb =
     bindR (NextCorrelationID m rb) (\<lambda>(clientID, m). Inr (\<lparr>toDriverCommandBuffer = rb, px_clientID = clientID\<rparr>, m))"

definition ClientID :: "Proxy \<Rightarrow> int" where
  "ClientID driver = px_clientID driver"

definition TimeOfLastDriverKeepalive :: "mem \<Rightarrow> Proxy \<Rightarrow> int res" where
  "TimeOfLastDriverKeepalive m driver = ConsumerHeartbeatTime m (toDriverCommandBuffer driver)"

definition Proxy_NextCorrelationID :: "mem \<Rightarrow> Proxy \<Rightarrow> (int \<times> mem) res" where
  "Proxy_NextCorrelationID m driver = NextCorrelationID m (toDriverCommandBuffer driver)"

text \<open>A filler returns the type of the command, the length of its message and the memory.\<close>

type_synonym filler = "buffer \<Rightarrow> mem \<Rightarrow> (int \<times> int \<times> mem) res"

definition writeCommandToDriver :: "(nat \<Rightarrow> mem \<Rightarrow> mem) \<Rightarrow> int \<Rightarrow> Proxy \<Rightarrow> filler \<Rightarrow> mem \<Rightarrow> (unit outcome \<times> mem) res option" where
  "writeCommandToDriver env heap driver filler m =
     (let m = write_bytes m heap (replicate 512 0); buf = Wrap heap 512
      in case filler buf m of
           Inl e \<Rightarrow> Some (Inl e)
         | Inr (msgTypeID, len, m) \<Rightarrow>
             map_option (\<lambda>r. bindR r (\<lambda>(ok, m). Inr (if ok then Inr () else Inl ''couldn't write command to driver'', m)))
               (ManyToOne_Write env (toDriverCommandBuffer driver) msgTypeID buf 0 (wrap32 len) m))"

text \<open>
  Most commands return the correlation id or the error; some return only the error, and
  \<open>AddRcvDestination\<close> returns no error in either case.
\<close>

definition with_correlation :: "(nat \<Rightarrow> mem \<Rightarrow> mem) \<Rightarrow> int \<Rightarrow> Proxy \<Rightarrow> (int \<Rightarrow> filler) \<Rightarrow> mem \<Rightarrow>
    (int \<times> unit outcome \<times> mem) res option" where
  "with_correlation env heap driver filler m =
     (case NextCorrelationID m (toDriverCommandBuffer driver) of
        Inl e \<Rightarrow> Some (Inl e)
      | Inr (correlationID, m) \<Rightarrow>
          map_option (\<lambda>r. bindR r (\<lambda>(o1, m). Inr (correlationID, o1, m)))
            (writeCommandToDriver env heap driver (filler correlationID) m))"

definition id_or_error :: "(int \<times> unit outcome \<times> mem) res option \<Rightarrow> (int outcome \<times> mem) res option" where
  "id_or_error = map_option (\<lambda>r. bindR r (\<lambda>(correlationID, o1, m).
     Inr (case o1 of Inl e \<Rightarrow> Inl e | Inr _ \<Rightarrow> Inr correlationID, m)))"

definition only_error :: "(int \<times> unit outcome \<times> mem) res option \<Rightarrow> (unit outcome \<times> mem) res option" where
  "only_error = map_option (\<lambda>r. bindR r (\<lambda>(correlationID, o1, m). Inr (o1, m)))"

subsection \<open>Subscriptions and publications\<close>

definition fill_subscription :: "int \<Rightarrow> byte list \<Rightarrow> int \<Rightarrow> int \<Rightarrow> filler" where
  "fill_subscription clientID channel streamID correlationID buf m =
     bindR (SubscriptionMessage_Wrap m buf 0) (\<lambda>message.
     let m = Int64Field_Set m (smsg_ClientID message) clientID;
         m = Int64Field_Set m (smsg_CorrelationID message) correlationID;
         m = Int64Field_Set m (smsg_RegistrationCorrelationID message) (- 1);
         m = Int32Field_Set m (smsg_StreamID message) streamID
     in bindR (StringField_Set m (smsg_size message) (smsg_Channel message) channel) (\<lambda>(m, size).
        Inr (cmd_AddSubscription, size, m)))"

definition AddSubscription :: "(nat \<Rightarrow> mem \<Rightarrow> mem) \<Rightarrow> int \<Rightarrow> Proxy \<Rightarrow> byte list \<Rightarrow> int \<Rightarrow> mem \<Rightarrow> (int outcome \<times> mem) res option" where
  "AddSubscription env heap driver channel streamID m =
     id_or_error (with_correlation env heap driver (fill_subscription (px_clientID driver) channel streamID) m)"

definition fill_remove :: "int \<Rightarrow> int \<Rightarrow> int \<Rightarrow> int \<Rightarrow> filler" where
  "fill_remove cmd clientID registrationID correlationID buf m =
     bindR (RemoveMessage_Wrap buf 0) (\<lambda>message.
     let m = Int64Field_Set m (rmsg_ClientID message) clientID;
         m = Int64Field_Set m (rmsg_CorrelationID message) correlationID;
         m = Int64Field_Set m (rmsg_RegistrationID message) registrationID
     in Inr (cmd, rmsg_size message, m))"

definition RemoveSubscription :: "(nat \<Rightarrow> mem \<Rightarrow> mem) \<Rightarrow> int \<Rightarrow> Proxy \<Rightarrow> int \<Rightarrow> mem \<Rightarrow> (unit outcome \<times> mem) res option" where
  "RemoveSubscription env heap driver registrationID m =
     only_error (with_correlation env heap driver (fill_remove cmd_RemoveSubscription (px_clientID driver) registrationID) m)"

definition fill_publication :: "int \<Rightarrow> int \<Rightarrow> byte list \<Rightarrow> int \<Rightarrow> int \<Rightarrow> filler" where
  "fill_publication cmd clientID channel streamID correlationID buf m =
     bindR (PublicationMessage_Wrap m buf 0) (\<lambda>message.
     let m = Int64Field_Set m (pmsg_ClientID message) clientID;
         m = Int64Field_Set m (pmsg_CorrelationID message) correlationID;
         m = Int32Field_Set m (pmsg_StreamID message) streamID
     in bindR (StringField_Set m (pmsg_size message) (pmsg_Channel message) channel) (\<lambda>(m, size). Inr (cmd, size, m)))"

definition AddPublication :: "(nat \<Rightarrow> mem \<Rightarrow> mem) \<Rightarrow> int \<Rightarrow> Proxy \<Rightarrow> byte list \<Rightarrow> int \<Rightarrow> mem \<Rightarrow> (int outcome \<times> mem) res option" where
  "AddPublication env heap driver channel streamID m =
     id_or_error (with_correlation env heap driver (fill_publication cmd_AddPublication (px_clientID driver) channel streamID) m)"

definition AddExclusivePublication :: "(nat \<Rightarrow> mem \<Rightarrow> mem) \<Rightarrow> int \<Rightarrow> Proxy \<Rightarrow> byte list \<Rightarrow> int \<Rightarrow> mem \<Rightarrow> (int outcome \<times> mem) res option" where
  "AddExclusivePublication env heap driver channel streamID m =
     id_or_error (with_correlation env heap driver (fill_publication cmd_AddExclusivePublication (px_clientID driver) channel streamID) m)"

definition RemovePublication :: "(nat \<Rightarrow> mem \<Rightarrow> mem) \<Rightarrow> int \<Rightarrow> Proxy \<Rightarrow> int \<Rightarrow> mem \<Rightarrow> (unit outcome \<times> mem) res option" where
  "RemovePublication env heap driver registrationID m =
     only_error (with_correlation env heap driver (fill_remove cmd_RemovePublication (px_clientID driver) registrationID) m)"

definition fill_close :: "int \<Rightarrow> int \<Rightarrow> filler" where
  "fill_close clientID correlationID buf m =
     bindR (CorrelatedMessage_Wrap buf 0) (\<lambda>message.
     let m = Int64Field_Set m (cmsg_ClientID message) clientID;
         m = Int64Field_Set m (cmsg_CorrelationID message) correlationID
     in Inr (cmd_ClientClose, cmsg_size message, m))"

definition ClientClose :: "(nat \<Rightarrow> mem \<Rightarrow> mem) \<Rightarrow> int \<Rightarrow> Proxy \<Rightarrow> mem \<Rightarrow> (unit outcome \<times> mem) res option" where
  "ClientClose env heap driver m = only_error (with_correlation env heap driver (fill_close (px_clientID driver)) m)"

subsection \<open>Destinations\<close>

definition fill_destination :: "int \<Rightarrow> int \<Rightarrow> int \<Rightarrow> byte list \<Rightarrow> int \<Rightarrow> filler" where
  "fill_destination cmd clientID registrationID channel correlationID buf m =
     bindR (DestinationMessage_Wrap m buf 0) (\<lambda>message.
     let m = Int64Field_Set m (dmsg_RegistrationCorrelationID message) registrationID
     in bindR (StringField_Set m (dmsg_size message) (dmsg_Channel message) channel) (\<lambda>(m, size).
        let m = Int64Field_Set m (dmsg_CorrelationID message) correlationID;
            m = Int64Field_Set m (dmsg_ClientID message) clientID
        in Inr (cmd, size, m)))"

definition AddDestination :: "(nat \<Rightarrow> mem \<Rightarrow> mem) \<Rightarrow> int \<Rightarrow> Proxy \<Rightarrow> int \<Rightarrow> byte list \<Rightarrow> mem \<Rightarrow> (int outcome \<times> mem) res option" where
  "AddDestination env heap driver registrationID channel m =
     id_or_error (with_correlation env heap driver
       (fill_destination cmd_AddDestination (px_clientID driver) registrationID channel) m)"

definition RemoveDestination :: "(nat \<Rightarrow> mem \<Rightarrow> mem) \<Rightarrow> int \<Rightarrow> Proxy \<Rightarrow> int \<Rightarrow> byte list \<Rightarrow> mem \<Rightarrow> (int outcome \<times> mem) res option" where
  "RemoveDestination env heap driver registrationID channel m =
     id_or_error (with_correlation env heap driver
       (fill_destination cmd_RemoveDestination (px_clientID driver) registrationID channel) m)"

definition AddRcvDestination :: "(nat \<Rightarrow> mem \<Rightarrow> mem) \<Rightarrow> int \<Rightarrow> Proxy \<Rightarrow> int \<Rightarrow> byte list \<Rightarrow> mem \<Rightarrow> (int outcome \<times> mem) res option" where
  "AddRcvDestination env heap driver registrationID channel m =
     map_option (\<lambda>r. bindR r (\<lambda>(correlationID, o1, m). Inr (Inr (case o1 of Inl _ \<Rightarrow> 0 | Inr _ \<Rightarrow> correlationID), m)))
       (with_correlation env heap driver
         (fill_destination cmd_AddRcvDestination (px_clientID driver) registrationID channel) m)"

definition RemoveRcvDestination :: "(nat \<Rightarrow> mem \<Rightarrow> mem) \<Rightarrow> int \<Rightarrow> Proxy \<Rightarrow> int \<Rightarrow> byte list \<Rightarrow> mem \<Rightarrow> (int outcome \<times> mem) res option" where
  "RemoveRcvDestination env heap driver registrationID channel m =
     id_or_error (with_correlation env heap driver
       (fill_destination cmd_RemoveRcvDestination (px_clientID driver) registrationID channel) m)"

subsection \<open>Counters\<close>

definition fill_counter_head :: "int \<Rightarrow> int \<Rightarrow> int \<Rightarrow> CounterMessage \<Rightarrow> mem \<Rightarrow> mem" where
  "fill_counter_head clientID correlationID typeId message m =
     Int32Field_Set (Int64Field_Set (Int64Field_Set m (kmsg_ClientID message) clientID)
       (kmsg_CorrelationID message) correlationID) (kmsg_CounterTypeID message) typeId"

definition fill_counter :: "int \<Rightarrow> int \<Rightarrow> buffer \<Rightarrow> int \<Rightarrow> int \<Rightarrow> buffer \<Rightarrow> int \<Rightarrow> int \<Rightarrow> int \<Rightarrow> filler" where
  "fill_counter clientID typeId keyBuffer keyOffset keyLength labelBuffer labelOffset labelLength correlationID buf m =
     bindR (CounterMessage_Wrap m buf 0) (\<lambda>message.
     let m = fill_counter_head clientID correlationID typeId message m
     in bindR (CopyKeyBuffer m message keyBuffer keyOffset keyLength) (\<lambda>m.
        bindR (CopyLabelBuffer m message labelBuffer labelOffset labelLength) (\<lambda>(message, m).
        Inr (cmd_AddCounter, kmsg_size message, m))))"

definition AddCounter :: "(nat \<Rightarrow> mem \<Rightarrow> mem) \<Rightarrow> int \<Rightarrow> Proxy \<Rightarrow> int \<Rightarrow> buffer \<Rightarrow> int \<Rightarrow> int \<Rightarrow> buffer \<Rightarrow> int \<Rightarrow> int \<Rightarrow> mem \<Rightarrow>
    (int outcome \<times> mem) res option" where
  "AddCounter env heap driver typeId keyBuffer keyOffset keyLength labelBuffer labelOffset labelLength m =
     id_or_error (with_correlation env heap driver
       (fill_counter (px_clientID driver) typeId keyBuffer keyOffset keyLength labelBuffer labelOffset labelLength) m)"

definition fill_counter_label :: "int \<Rightarrow> int \<Rightarrow> byte list \<Rightarrow> int \<Rightarrow> filler" where
  "fill_counter_label clientID typeId label correlationID buf m =
     bindR (CounterMessage_Wrap m buf 0) (\<lambda>message.
     let m = fill_counter_head clientID correlationID typeId message m
     in bindR (CopyLabelString m message label) (\<lambda>(message, m).
        Inr (cmd_AddCounter, kmsg_size message, m)))"

definition AddCounterByLabel :: "(nat \<Rightarrow> mem \<Rightarrow> mem) \<Rightarrow> int \<Rightarrow> Proxy \<Rightarrow> int \<Rightarrow> byte list \<Rightarrow> mem \<Rightarrow> (int outcome \<times> mem) res option" where
  "AddCounterByLabel env heap driver typeId label m =
     id_or_error (with_correlation env heap driver (fill_counter_label (px_clientID driver) typeId label) m)"

definition RemoveCounter :: "(nat \<Rightarrow> mem \<Rightarrow> mem) \<Rightarrow> int \<Rightarrow> Proxy \<Rightarrow> int \<Rightarrow> mem \<Rightarrow> (int outcome \<times> mem) res option" where
  "RemoveCounter env heap driver registrationId m =
     id_or_error (with_correlation env heap driver (fill_remove cmd_RemoveCounter (px_clientID driver) registrationId) m)"

subsection \<open>What the fillers write\<close>

definition blank :: "mem \<Rightarrow> int \<Rightarrow> bool" where
  "blank m heap \<longleftrightarrow> (\<forall>x. heap \<le> x \<and> x < heap + 512 \<longrightarrow> m x = 0)"

definition fills :: "filler \<Rightarrow> int \<Rightarrow> int \<Rightarrow> wire list \<Rightarrow> bool" where
  "fills f heap ty ws \<longleftrightarrow>
     wire_end 0 ws \<le> 512 \<and>
     (\<forall>m. blank m heap \<longrightarrow>
        (\<exists>m'. f (Wrap heap 512) m = Inr (ty, wire_end 0 ws, m') \<and> wire_at m' (Wrap heap 512) 0 ws \<and>
              (\<forall>x. x < heap \<or> heap + 512 \<le> x \<longrightarrow> m' x = m x)))"

lemma blank_i32: "blank m heap \<Longrightarrow> heap \<le> a \<Longrightarrow> a + 4 \<le> heap + 512 \<Longrightarrow> get_i32 m a = 0"
  using i32.get_local [of a "\<lambda>_. 0" m] by (simp add: blank_def get_i32_def load_def numeral_eq_Suc wrap32_def)

lemma fillsI:
  assumes "wire_end 0 ws \<le> 512"
    and "\<And>m. blank m heap \<Longrightarrow> \<exists>m'. f (Wrap heap 512) m = Inr (ty, wire_end 0 ws, m') \<and> wire_at m' (Wrap heap 512) 0 ws \<and>
              (\<forall>x. x < heap \<or> heap + 512 \<le> x \<longrightarrow> m' x = m x)"
  shows "fills f heap ty ws"
  using assms by (simp add: fills_def)

lemmas set_defs = Int64Field_Set_def Int32Field_Set_def

lemmas wrap_ok = Int64Field_Wrap_ok Int32Field_Wrap_ok

lemma fills_remove:
  "in_i64 client \<Longrightarrow> in_i64 rid \<Longrightarrow> in_i64 cid \<Longrightarrow>
   fills (fill_remove cmd client rid cid) heap cmd [I64 client, I64 cid, I64 rid]"
  by (rule fillsI)
     (auto simp: fill_remove_def RemoveMessage_Wrap_def wrap_ok set_defs cell_same cell_other store_outside)

lemma fills_close:
  "in_i64 client \<Longrightarrow> in_i64 cid \<Longrightarrow> fills (fill_close client cid) heap cmd_ClientClose [I64 client, I64 cid]"
  by (rule fillsI)
     (auto simp: fill_close_def CorrelatedMessage_Wrap_def wrap_ok set_defs cell_same cell_other store_outside)

text \<open>The string field of a blank buffer, and the length of a channel that fits.\<close>

lemma blank_string:
  assumes "blank m heap" and "0 \<le> pos" and "pos mod 4 = 0" and "pos + 4 \<le> 512"
  shows "StringField_Wrap m (Wrap heap 512) pos True = Inr (\<lparr>lenOffset = heap + pos, dataOffset = heap + pos + 4\<rparr>, 4)"
  using StringField_Wrap_ok [of pos 0 "Wrap heap 512" m True] blank_i32 [OF assms(1), of "heap + pos"] assms by simp

lemma fits_i32: "length channel \<le> 480 \<Longrightarrow> wrap32 (int (length channel)) = int (length channel)"
  by (rule wrap32_id) auto

lemma fills_publication:
  assumes "in_i64 client" and "in_i64 cid" and "in_i32 stream" and "channel \<noteq> []" and "length channel \<le> 480"
  shows "fills (fill_publication cmd client channel stream cid) heap cmd [I64 client, I64 cid, I32 stream, Text channel]"
proof (rule fillsI)
  fix m assume m: "blank m heap"
  define m' where "m' = write_bytes (store 4 (store 4 (store 8 (store 8 m heap client) (heap + 8) cid) (heap + 16) stream)
    (heap + 20) (int (length channel))) (heap + 24) channel"
  have "fill_publication cmd client channel stream cid (Wrap heap 512) m = Inr (cmd, 24 + int (length channel), m')"
    using assms blank_i32 [OF m, of "heap + 20"]
    by (simp add: fill_publication_def PublicationMessage_Wrap_def wrap_ok blank_string [OF m] StringField_Set_def
        fits_i32 set_defs cell_other m'_def add.assoc Let_def)
  moreover have "wire_at m' (Wrap heap 512) 0 [I64 client, I64 cid, I32 stream, Text channel]"
    using assms by (simp add: m'_def cell_same cell_other fits_i32 read_write_same add.assoc)
  moreover have "\<forall>x. x < heap \<or> heap + 512 \<le> x \<longrightarrow> m' x = m x"
    using assms(5) by (auto simp: m'_def write_bytes_apply store_outside)
  ultimately show "\<exists>m'. fill_publication cmd client channel stream cid (Wrap heap 512) m =
      Inr (cmd, wire_end 0 [I64 client, I64 cid, I32 stream, Text channel], m') \<and>
      wire_at m' (Wrap heap 512) 0 [I64 client, I64 cid, I32 stream, Text channel] \<and>
      (\<forall>x. x < heap \<or> heap + 512 \<le> x \<longrightarrow> m' x = m x)" by auto
qed (use assms in simp)

lemma fills_subscription:
  assumes "in_i64 client" and "in_i64 cid" and "in_i32 stream" and "channel \<noteq> []" and "length channel \<le> 480"
  shows "fills (fill_subscription client channel stream cid) heap cmd_AddSubscription
    [I64 client, I64 cid, I64 (- 1), I32 stream, Text channel]"
proof (rule fillsI)
  fix m assume m: "blank m heap"
  define m' where "m' = write_bytes (store 4 (store 4 (store 8 (store 8 (store 8 m heap client) (heap + 8) cid) (heap + 16) (- 1))
    (heap + 24) stream) (heap + 28) (int (length channel))) (heap + 32) channel"
  have "fill_subscription client channel stream cid (Wrap heap 512) m = Inr (cmd_AddSubscription, 32 + int (length channel), m')"
    using assms blank_i32 [OF m, of "heap + 28"]
    by (simp add: fill_subscription_def SubscriptionMessage_Wrap_def wrap_ok blank_string [OF m] StringField_Set_def
        fits_i32 set_defs cell_other m'_def add.assoc Let_def)
  moreover have "wire_at m' (Wrap heap 512) 0 [I64 client, I64 cid, I64 (- 1), I32 stream, Text channel]"
    using assms by (simp add: m'_def cell_same cell_other fits_i32 read_write_same wrap64_id add.assoc)
  moreover have "\<forall>x. x < heap \<or> heap + 512 \<le> x \<longrightarrow> m' x = m x"
    using assms(5) by (auto simp: m'_def write_bytes_apply store_outside)
  ultimately show "\<exists>m'. fill_subscription client channel stream cid (Wrap heap 512) m =
      Inr (cmd_AddSubscription, wire_end 0 [I64 client, I64 cid, I64 (- 1), I32 stream, Text channel], m') \<and>
      wire_at m' (Wrap heap 512) 0 [I64 client, I64 cid, I64 (- 1), I32 stream, Text channel] \<and>
      (\<forall>x. x < heap \<or> heap + 512 \<le> x \<longrightarrow> m' x = m x)" by auto
qed (use assms in simp)

lemma fills_destination:
  assumes "in_i64 client" and "in_i64 cid" and "in_i64 rid" and "channel \<noteq> []" and "length channel \<le> 480"
  shows "fills (fill_destination cmd client rid channel cid) heap cmd [I64 client, I64 cid, I64 rid, Text channel]"
proof (rule fillsI)
  fix m assume m: "blank m heap"
  define m' where "m' = store 8 (store 8 (write_bytes (store 4 (store 8 m (heap + 16) rid) (heap + 24) (int (length channel)))
    (heap + 28) channel) (heap + 8) cid) heap client"
  have "fill_destination cmd client rid channel cid (Wrap heap 512) m = Inr (cmd, 28 + int (length channel), m')"
    using assms blank_i32 [OF m, of "heap + 24"]
    by (simp add: fill_destination_def DestinationMessage_Wrap_def wrap_ok blank_string [OF m] StringField_Set_def
        fits_i32 set_defs cell_other m'_def add.assoc Let_def)
  moreover have "wire_at m' (Wrap heap 512) 0 [I64 client, I64 cid, I64 rid, Text channel]"
    using assms by (simp add: m'_def cell_same cell_other fits_i32 read_write_same add.assoc)
  moreover have "\<forall>x. x < heap \<or> heap + 512 \<le> x \<longrightarrow> m' x = m x"
    using assms(5) by (auto simp: m'_def write_bytes_apply store_outside)
  ultimately show "\<exists>m'. fill_destination cmd client rid channel cid (Wrap heap 512) m =
      Inr (cmd, wire_end 0 [I64 client, I64 cid, I64 rid, Text channel], m') \<and>
      wire_at m' (Wrap heap 512) 0 [I64 client, I64 cid, I64 rid, Text channel] \<and>
      (\<forall>x. x < heap \<or> heap + 512 \<le> x \<longrightarrow> m' x = m x)" by auto
qed (use assms in simp)

text \<open>The counter message: where the key and the label of a message are, and what the size counts.\<close>

lemma LengthAndRawDataField_Wrap_ok:
  assumes "0 \<le> pos" and "p = align4 pos" and "Capacity buf < 2147483648" and "get_i32 m (Ptr buf + p) = l"
    and "0 \<le> l" and "p + 4 + l \<le> Capacity buf"
  shows "LengthAndRawDataField_Wrap m buf pos =
    Inr (\<lparr>lrd_lenOffset = Ptr buf + p, lrd_buf = Wrap (Ptr buf + p + 4) (Capacity buf - p)\<rparr>, 4 + l + p - pos)"
proof -
  have "pos \<le> p" using align4_bounds(1) [of pos] assms(2) by simp
  moreover from this have "AlignInt32 pos 4 = p" using assms AlignInt32_4 [of pos] by (simp add: align4_def)
  ultimately show ?thesis using assms by (simp add: LengthAndRawDataField_Wrap_def wrap32_id BoundsCheck_ok Let_def add.assoc)
qed

definition counter_source :: "int \<Rightarrow> buffer \<Rightarrow> int \<Rightarrow> int \<Rightarrow> bool" where
  "counter_source heap buf off n \<longleftrightarrow>
     0 \<le> off \<and> 0 \<le> n \<and> off + n \<le> Capacity buf \<and> Capacity buf < 2147483648 \<and>
     (Ptr buf + Capacity buf \<le> heap \<or> heap + 516 \<le> Ptr buf)"

definition apart_from :: "buffer \<Rightarrow> buffer \<Rightarrow> bool" where
  "apart_from b c \<longleftrightarrow> Ptr b + Capacity b \<le> Ptr c \<or> Ptr c + Capacity c \<le> Ptr b"

lemma CopyBuffer_ok:
  assumes "counter_source heap src off n" and "0 \<le> p" and "p + 4 + n \<le> 512"
  shows "LengthAndRawDataField_CopyBuffer m \<lparr>lrd_lenOffset = heap + p, lrd_buf = Wrap (heap + p + 4) (512 - p)\<rparr> src off n =
    Inr (write_bytes (store 4 m (heap + p) n) (heap + p + 4) (read_bytes m (Ptr src + off) (nat n)))"
proof -
  have "read_bytes (store 4 m (heap + p) n) (Ptr src + off) (nat n) = read_bytes m (Ptr src + off) (nat n)"
    using assms by (intro read_store_disjoint) (auto simp: counter_source_def)
  then show ?thesis
    using assms PutBytes_ok [of 0 n "Wrap (heap + p + 4) (512 - p)" off src "store 4 m (heap + p) n"]
    by (auto simp: LengthAndRawDataField_CopyBuffer_def LengthAndRawDataField_SetLength_def counter_source_def)
qed

lemma CounterMessage_Wrap_blank:
  assumes "blank m heap"
  shows "CounterMessage_Wrap m (Wrap heap 512) 0 =
    Inr \<lparr>kmsg_size = 28, kmsg_buf = Wrap heap 512, kmsg_offset = 0, kmsg_ClientID = heap, kmsg_CorrelationID = heap + 8,
      kmsg_CounterTypeID = heap + 16, kmsg_key = \<lparr>lrd_lenOffset = heap + 20, lrd_buf = Wrap (heap + 20 + 4) (512 - 20)\<rparr>,
      kmsg_label = \<lparr>lrd_lenOffset = heap + 24, lrd_buf = Wrap (heap + 24 + 4) (512 - 24)\<rparr>\<rparr>"
proof -
  have z: "get_i32 m (heap + 20) = 0" "get_i32 m (heap + 24) = 0" using blank_i32 [OF assms] by simp_all
  then show ?thesis
    using LengthAndRawDataField_Wrap_ok [of 20 20 "Wrap heap 512" m 0] LengthAndRawDataField_Wrap_ok [of 24 24 "Wrap heap 512" m 0]
    by (simp add: CounterMessage_Wrap_def wrap_ok wrapLabel_def getLabelOffset_def setSize_def LengthAndRawDataField_Length_def add.assoc)
qed

lemma fill_counter_ok:
  assumes m: "blank m heap" and ids: "in_i64 client" "in_i64 cid" "in_i32 typeId"
    and key: "counter_source heap kbuf koff kl" "key = read_bytes m (Ptr kbuf + koff) (nat kl)"
    and label: "counter_source heap lbuf loff ll" "lab = read_bytes m (Ptr lbuf + loff) (nat ll)"
    and p: "p = align4 (24 + kl)" and fits: "p + 4 + ll \<le> 512"
  shows "\<exists>m'. fill_counter client typeId kbuf koff kl lbuf loff ll cid (Wrap heap 512) m = Inr (cmd_AddCounter, 28 + kl + ll, m') \<and>
    wire_at m' (Wrap heap 512) 0 [I64 client, I64 cid, I32 typeId, Text key, Text lab] \<and>
    (\<forall>x. x < heap \<or> heap + 512 \<le> x \<longrightarrow> m' x = m x)"
proof -
  have kl: "0 \<le> kl" "0 \<le> ll" using key(1) label(1) by (auto simp: counter_source_def)
  have pb: "24 + kl \<le> p" "p < 28 + kl" using align4_bounds [of "24 + kl"] p by auto
  define m1 m2 m3 where
    "m1 = store 4 (store 8 (store 8 m heap client) (heap + 8) cid) (heap + 16) typeId"
    and "m2 = write_bytes (store 4 m1 (heap + 20) kl) (heap + 24) key"
    and "m3 = write_bytes (store 4 m2 (heap + p) ll) (heap + p + 4) lab"
  have same: "m1 x = m x" "m2 x = m x" "m3 x = m x" if "x < heap \<or> heap + 512 \<le> x" for x
    using that kl pb fits by (auto simp: m1_def m2_def m3_def write_bytes_apply store_outside key(2) label(2))
  have k2: "read_bytes m1 (Ptr kbuf + koff) (nat kl) = key" "read_bytes m2 (Ptr lbuf + loff) (nat ll) = lab"
    using key label by (auto intro!: read_bytes_cong same simp: counter_source_def)
  have lens: "length key = nat kl" "length lab = nat ll" by (simp_all add: key(2) label(2))
  have w: "wrap32 kl = kl" "wrap32 ll = ll" using kl pb fits by (auto intro!: wrap32_id)
  have z: "get_i32 m2 (heap + p) = 0" "get_i32 m2 (heap + 20) = kl"
    using pb kl w fits blank_i32 [OF m, of "heap + p"] by (simp_all add: m2_def m1_def cell_same cell_other lens)
  have z3: "get_i32 m3 (heap + 20) = kl" "get_i32 m3 (heap + p) = ll"
    using z(2) pb kl w by (simp_all add: m3_def cell_same cell_other lens)
  have kc: "LengthAndRawDataField_CopyBuffer m1 \<lparr>lrd_lenOffset = heap + 20, lrd_buf = Wrap (heap + 20 + 4) (512 - 20)\<rparr> kbuf koff kl = Inr m2"
    using CopyBuffer_ok [OF key(1), of 20 m1] pb fits kl by (simp add: m2_def k2 add.assoc)
  have lc: "LengthAndRawDataField_CopyBuffer m2 \<lparr>lrd_lenOffset = heap + p, lrd_buf = Wrap (heap + p + 4) (512 - p)\<rparr> lbuf loff ll = Inr m3"
    using CopyBuffer_ok [OF label(1), of p m2] pb fits kl by (simp add: m3_def k2)
  have lw: "wrapLabel m2 (Wrap heap 512) 0 \<lparr>lrd_lenOffset = heap + 20, lrd_buf = Wrap (heap + 20 + 4) (512 - 20)\<rparr> =
      Inr \<lparr>lrd_lenOffset = heap + p, lrd_buf = Wrap (heap + p + 4) (512 - p)\<rparr>"
    using LengthAndRawDataField_Wrap_ok [of "24 + kl" p "Wrap heap 512" m2 0] z p kl pb fits
    by (simp add: wrapLabel_def getLabelOffset_def LengthAndRawDataField_Length_def)
  have "fill_counter client typeId kbuf koff kl lbuf loff ll cid (Wrap heap 512) m = Inr (cmd_AddCounter, 28 + kl + ll, m3)"
    unfolding fill_counter_def CounterMessage_Wrap_blank [OF m]
    using kc lw lc by (simp add: fill_counter_head_def set_defs CopyKeyBuffer_def CopyLabelBuffer_def setSize_def
        getLabelOffset_def LengthAndRawDataField_Length_def z3 Let_def flip: m1_def)
  moreover have "wire_at m3 (Wrap heap 512) 0 [I64 client, I64 cid, I32 typeId, Text key, Text lab]"
    using ids z3 kl pb fits p lens
    by (simp add: m3_def m2_def m1_def cell_same cell_other read_write_same add.assoc)
  ultimately show ?thesis using same(3) by blast
qed

lemma fills_counter_label:
  assumes ids: "in_i64 client" "in_i64 cid" "in_i32 typeId" and len: "label \<noteq> []" "length label \<le> 480"
  shows "fills (fill_counter_label client typeId label cid) heap cmd_AddCounter
    [I64 client, I64 cid, I32 typeId, Text [], Text label]"
proof (rule fillsI)
  fix m assume m: "blank m heap"
  define m1 where "m1 = store 4 (store 8 (store 8 m heap client) (heap + 8) cid) (heap + 16) typeId"
  define m2 where "m2 = write_bytes (store 4 m1 (heap + 24) (int (length label))) (heap + 28) label"
  have z: "get_i32 m1 (heap + 20) = 0" "get_i32 m1 (heap + 24) = 0"
    using blank_i32 [OF m] by (simp_all add: m1_def cell_other)
  have lw: "wrapLabel m1 (Wrap heap 512) 0 \<lparr>lrd_lenOffset = heap + 20, lrd_buf = Wrap (heap + 20 + 4) (512 - 20)\<rparr> =
      Inr \<lparr>lrd_lenOffset = heap + 24, lrd_buf = Wrap (heap + 24 + 4) (512 - 24)\<rparr>"
    using LengthAndRawDataField_Wrap_ok [of 24 24 "Wrap heap 512" m1 0] z
    by (simp add: wrapLabel_def getLabelOffset_def LengthAndRawDataField_Length_def align4_def)
  have cs: "LengthAndRawDataField_CopyString m1 \<lparr>lrd_lenOffset = heap + 24, lrd_buf = Wrap (heap + 24 + 4) (512 - 24)\<rparr> label = Inr m2"
    using len by (simp add: LengthAndRawDataField_CopyString_def LengthAndRawDataField_SetLength_def fits_i32 BoundsCheck_ok m2_def
        add.assoc Let_def)
  have z2: "get_i32 m2 (heap + 20) = 0" "get_i32 m2 (heap + 24) = int (length label)"
    using z len by (simp_all add: m2_def cell_same cell_other fits_i32)
  have "fill_counter_label client typeId label cid (Wrap heap 512) m = Inr (cmd_AddCounter, 28 + int (length label), m2)"
    unfolding fill_counter_label_def CounterMessage_Wrap_blank [OF m]
    using lw cs by (simp add: fill_counter_head_def set_defs CopyLabelString_def setSize_def
        getLabelOffset_def LengthAndRawDataField_Length_def z2 Let_def flip: m1_def)
  moreover have "wire_at m2 (Wrap heap 512) 0 [I64 client, I64 cid, I32 typeId, Text [], Text label]"
    using ids len z2 by (simp add: align4_def m2_def m1_def cell_same cell_other read_write_same add.assoc)
  moreover have "\<forall>x. x < heap \<or> heap + 512 \<le> x \<longrightarrow> m2 x = m x"
    using len by (auto simp: m2_def m1_def write_bytes_apply store_outside)
  moreover have "wire_end 0 [I64 client, I64 cid, I32 typeId, Text [], Text label] = 28 + int (length label)"
    by (simp add: align4_def)
  ultimately show "\<exists>m'. fill_counter_label client typeId label cid (Wrap heap 512) m =
      Inr (cmd_AddCounter, wire_end 0 [I64 client, I64 cid, I32 typeId, Text [], Text label], m') \<and>
      wire_at m' (Wrap heap 512) 0 [I64 client, I64 cid, I32 typeId, Text [], Text label] \<and>
      (\<forall>x. x < heap \<or> heap + 512 \<le> x \<longrightarrow> m' x = m x)" by auto
qed (use len in \<open>simp add: align4_def\<close>)

subsection \<open>Commands in the ring buffer\<close>

definition heap_ok :: "ManyToOne \<Rightarrow> int \<Rightarrow> bool" where
  "heap_ok rb heap \<longleftrightarrow> heap + 512 \<le> rb_base rb \<or> rb_base rb + Capacity (rb_buffer rb) \<le> heap"

definition correlation :: "mem \<Rightarrow> ManyToOne \<Rightarrow> int" where
  "correlation m rb = get_i64 m (rb_base rb + correlationIDCounterIndex rb)"

text \<open>
  A command is in the ring buffer as a record behind the old ones, with the padding it needs,
  or the ring buffer had no room and the outcome is an error. In both cases the correlation id
  is used up and the tail moves by at most twice the length of the record.
\<close>

definition command_outcome :: "mem \<Rightarrow> ManyToOne \<Rightarrow> nat \<Rightarrow> ring_record list \<Rightarrow> int \<Rightarrow> byte list \<Rightarrow> unit outcome \<Rightarrow> mem \<Rightarrow> bool" where
  "command_outcome m rb k rs ty payload o1 m' \<longleftrightarrow>
     (let req = aligned8 (int (length payload) + 8); t = rb_tail m rb
      in correlation m' rb = wrap64 (correlation m rb + 1) \<and> rb_tail m' rb \<le> t + 2 * req \<and>
         (if no_room (2 ^ k) (rb_head m rb) t req then o1 = Inl ''couldn't write command to driver'' \<and> rb_inv m' rb k rs
         else o1 = Inr () \<and> rb_inv m' rb k (rs @ padding_records (pad_len (2 ^ k) t req) @ [message_record ty payload])))"

lemma with_correlation_written:
  assumes inv: "rb_inv m rb k rs" and rb: "rb = toDriverCommandBuffer driver" and t: "rb_tail m rb < 4611686016279904256"
    and heap: "heap_ok rb heap" and mx: "512 \<le> maxMsgLength rb" and ty: "1 \<le> ty" "in_i32 ty" and n: "0 \<le> n" "n \<le> 512"
    and fill: "\<And>m1. blank m1 heap \<Longrightarrow>
      (\<And>x. x < heap \<or> heap + 512 \<le> x \<Longrightarrow> x < rb_base rb \<or> rb_base rb + Capacity (rb_buffer rb) \<le> x \<Longrightarrow> m1 x = m x) \<Longrightarrow>
      \<exists>m2. f (correlation m rb) (Wrap heap 512) m1 = Inr (ty, n, m2) \<and> Q (read_bytes m2 heap (nat n)) \<and>
        (\<forall>x. x < heap \<or> heap + 512 \<le> x \<longrightarrow> m2 x = m1 x)"
  shows "\<exists>payload o1 m'. Q payload \<and> length payload = nat n \<and>
    with_correlation alone heap driver f m = Some (Inr (correlation m rb, o1, m')) \<and> command_outcome m rb k rs ty payload o1 m'"
proof -
  have wf: "rb_wf rb k" using inv by (simp add: rb_inv_def)
  have k: "5 \<le> k" "k \<le> 30" using wf by (auto simp: rb_wf_def)
  note b = pow2_range [OF k]
  define a m0 m1 where "a = rb_base rb + correlationIDCounterIndex rb"
    and "m0 = store 8 m a (correlation m rb + 1)" and "m1 = write_bytes m0 heap (replicate 512 0)"
  have next_id: "NextCorrelationID m rb = Inr (correlation m rb, m0)"
    using wf b by (simp add: NextCorrelationID_def GetAndAddInt64_ok rb_wf_def m0_def a_def correlation_def)
  have m1_out: "m1 x = m0 x" if "x < heap \<or> heap + 512 \<le> x" for x using that by (auto simp: m1_def write_bytes_apply)
  have m0_out: "m0 x = m x" if "x < a \<or> a + 8 \<le> x" for x using that by (simp add: m0_def store_outside)
  have a_in: "rb_base rb + 2 ^ k + 512 \<le> a" "a + 8 \<le> rb_base rb + Capacity (rb_buffer rb)" using wf by (auto simp: a_def rb_wf_def)
  have "blank m1 heap" by (auto simp: blank_def m1_def write_bytes_apply)
  moreover have "m1 x = m x" if "x < heap \<or> heap + 512 \<le> x" "x < rb_base rb \<or> rb_base rb + Capacity (rb_buffer rb) \<le> x" for x
    using that a_in b by (subst m1_out, simp, subst m0_out) auto
  ultimately obtain m2 where m2: "f (correlation m rb) (Wrap heap 512) m1 = Inr (ty, n, m2)" "Q (read_bytes m2 heap (nat n))"
    "\<And>x. x < heap \<or> heap + 512 \<le> x \<Longrightarrow> m2 x = m1 x" using fill by metis
  have "m2 x = m x" if "rb_base rb \<le> x" "x < rb_base rb + 2 ^ k + 512" for x
    using that heap a_in b wf by (auto simp: heap_ok_def rb_wf_def m2(3) m1_out m0_out)
  note inv2 = rb_inv_cong [OF inv this]
  have src: "rb_source_ok rb (Wrap heap 512) 0 n" using heap n by (auto simp: rb_source_ok_def heap_ok_def)
  define payload where "payload = read_bytes m2 heap (nat n)"
  have len: "int (length payload) = n" and pl: "payload = read_bytes m2 (Ptr (Wrap heap 512) + 0) (nat n)"
    using n by (simp_all add: payload_def)
  have t2: "rb_tail m2 rb < 4611686016279904256" and mx2: "n \<le> maxMsgLength rb" using t mx n inv2(2) by auto
  obtain m' where fr: "queue_frame m2 m' rb" "rb_tail m' rb \<le> rb_tail m2 rb + 2 * aligned8 (n + 8)"
    and m': "if no_room (2 ^ k) (rb_head m2 rb) (rb_tail m2 rb) (aligned8 (n + 8)) then
       ManyToOne_Write alone rb ty (Wrap heap 512) 0 n m2 = Some (Inr (False, m')) \<and> rb_inv m' rb k rs
     else ManyToOne_Write alone rb ty (Wrap heap 512) 0 n m2 = Some (Inr (True, m')) \<and>
       rb_inv m' rb k (rs @ padding_records (pad_len (2 ^ k) (rb_tail m2 rb) (aligned8 (n + 8))) @ [message_record ty payload])"
    using ManyToOne_Write_alone [OF inv2(1) refl t2 src mx2 ty refl pl] by blast
  have "get_i64 m' a = get_i64 m2 a"
    using fr(1) wf b a_in by (intro i64.get_local) (auto simp: queue_frame_def rb_wf_def)
  also have "\<dots> = get_i64 m0 a"
    using heap a_in b by (intro i64.get_local) (auto simp: heap_ok_def m2(3) m1_out)
  finally have "correlation m' rb = wrap64 (correlation m rb + 1)"
    by (simp add: correlation_def m0_def a_def i64.get_put)
  moreover have "wrap32 n = n" using n by (intro wrap32_id) auto
  ultimately have "\<exists>o1. with_correlation alone heap driver f m = Some (Inr (correlation m rb, o1, m')) \<and> command_outcome m rb k rs ty payload o1 m'"
    using m' fr(2) by (auto simp: with_correlation_def writeCommandToDriver_def next_id m2(1) command_outcome_def inv2 len Let_def
        simp flip: rb m1_def split: if_splits)
  moreover have "length payload = nat n" by (simp add: payload_def)
  ultimately show ?thesis using m2(2) unfolding payload_def [symmetric] by blast
qed

text \<open>
  The commands, except the one of \<open>AddCounter\<close>, whose key and label come from the caller's buffers;
  the method that sends each, and the message it means.
\<close>

datatype driver_command =
    Cmd_AddSubscription "byte list" int
  | Cmd_RemoveSubscription int
  | Cmd_AddPublication "byte list" int
  | Cmd_AddExclusivePublication "byte list" int
  | Cmd_RemovePublication int
  | Cmd_ClientClose
  | Cmd_AddDestination int "byte list"
  | Cmd_RemoveDestination int "byte list"
  | Cmd_AddRcvDestination int "byte list"
  | Cmd_RemoveRcvDestination int "byte list"
  | Cmd_AddCounterByLabel int "byte list"
  | Cmd_RemoveCounter int

text \<open>What the methods return: a correlation id and an error, or only an error.\<close>

definition returns_id :: "(int outcome \<times> mem) res option \<Rightarrow> (int option outcome \<times> mem) res option" where
  "returns_id = map_option (\<lambda>r. bindR r (\<lambda>(o1, m). Inr (map_sum id Some o1, m)))"

definition returns_error :: "(unit outcome \<times> mem) res option \<Rightarrow> (int option outcome \<times> mem) res option" where
  "returns_error = map_option (\<lambda>r. bindR r (\<lambda>(o1, m). Inr (map_sum id (\<lambda>_. None) o1, m)))"

fun send_command :: "(nat \<Rightarrow> mem \<Rightarrow> mem) \<Rightarrow> int \<Rightarrow> Proxy \<Rightarrow> driver_command \<Rightarrow> mem \<Rightarrow> (int option outcome \<times> mem) res option" where
  "send_command env heap driver (Cmd_AddSubscription ch st) m = returns_id (AddSubscription env heap driver ch st m)"
| "send_command env heap driver (Cmd_RemoveSubscription rid) m = returns_error (RemoveSubscription env heap driver rid m)"
| "send_command env heap driver (Cmd_AddPublication ch st) m = returns_id (AddPublication env heap driver ch st m)"
| "send_command env heap driver (Cmd_AddExclusivePublication ch st) m = returns_id (AddExclusivePublication env heap driver ch st m)"
| "send_command env heap driver (Cmd_RemovePublication rid) m = returns_error (RemovePublication env heap driver rid m)"
| "send_command env heap driver Cmd_ClientClose m = returns_error (ClientClose env heap driver m)"
| "send_command env heap driver (Cmd_AddDestination rid ch) m = returns_id (AddDestination env heap driver rid ch m)"
| "send_command env heap driver (Cmd_RemoveDestination rid ch) m = returns_id (RemoveDestination env heap driver rid ch m)"
| "send_command env heap driver (Cmd_AddRcvDestination rid ch) m = returns_id (AddRcvDestination env heap driver rid ch m)"
| "send_command env heap driver (Cmd_RemoveRcvDestination rid ch) m = returns_id (RemoveRcvDestination env heap driver rid ch m)"
| "send_command env heap driver (Cmd_AddCounterByLabel ty label) m = returns_id (AddCounterByLabel env heap driver ty label m)"
| "send_command env heap driver (Cmd_RemoveCounter rid) m = returns_id (RemoveCounter env heap driver rid m)"

text \<open>
  What the caller gets when the command was given the correlation id \<open>cid\<close> and \<open>o1\<close> tells whether it
  was written. \<open>AddRcvDestination\<close> hides the error behind the id 0.
\<close>

fun command_result :: "driver_command \<Rightarrow> int \<Rightarrow> unit outcome \<Rightarrow> int option outcome" where
  "command_result (Cmd_RemoveSubscription rid) cid o1 = map_sum id (\<lambda>_. None) o1"
| "command_result (Cmd_RemovePublication rid) cid o1 = map_sum id (\<lambda>_. None) o1"
| "command_result Cmd_ClientClose cid o1 = map_sum id (\<lambda>_. None) o1"
| "command_result (Cmd_AddRcvDestination rid ch) cid o1 = Inr (Some (case o1 of Inl _ \<Rightarrow> 0 | Inr _ \<Rightarrow> cid))"
| "command_result c cid o1 = map_sum id (\<lambda>_. Some cid) o1"

fun command_wire :: "int \<Rightarrow> int \<Rightarrow> driver_command \<Rightarrow> int \<times> wire list" where
  "command_wire client cid (Cmd_AddSubscription ch st) = (4, [I64 client, I64 cid, I64 (- 1), I32 st, Text ch])"
| "command_wire client cid (Cmd_RemoveSubscription rid) = (5, [I64 client, I64 cid, I64 rid])"
| "command_wire client cid (Cmd_AddPublication ch st) = (1, [I64 client, I64 cid, I32 st, Text ch])"
| "command_wire client cid (Cmd_AddExclusivePublication ch st) = (3, [I64 client, I64 cid, I32 st, Text ch])"
| "command_wire client cid (Cmd_RemovePublication rid) = (2, [I64 client, I64 cid, I64 rid])"
| "command_wire client cid Cmd_ClientClose = (11, [I64 client, I64 cid])"
| "command_wire client cid (Cmd_AddDestination rid ch) = (7, [I64 client, I64 cid, I64 rid, Text ch])"
| "command_wire client cid (Cmd_RemoveDestination rid ch) = (8, [I64 client, I64 cid, I64 rid, Text ch])"
| "command_wire client cid (Cmd_AddRcvDestination rid ch) = (12, [I64 client, I64 cid, I64 rid, Text ch])"
| "command_wire client cid (Cmd_RemoveRcvDestination rid ch) = (13, [I64 client, I64 cid, I64 rid, Text ch])"
| "command_wire client cid (Cmd_AddCounterByLabel ty label) = (9, [I64 client, I64 cid, I32 ty, Text [], Text label])"
| "command_wire client cid (Cmd_RemoveCounter rid) = (10, [I64 client, I64 cid, I64 rid])"

definition channel_ok :: "byte list \<Rightarrow> bool" where
  "channel_ok ch \<longleftrightarrow> ch \<noteq> [] \<and> length ch \<le> 480"

fun command_ok :: "driver_command \<Rightarrow> bool" where
  "command_ok (Cmd_AddSubscription ch st) \<longleftrightarrow> channel_ok ch \<and> in_i32 st"
| "command_ok (Cmd_RemoveSubscription rid) \<longleftrightarrow> in_i64 rid"
| "command_ok (Cmd_AddPublication ch st) \<longleftrightarrow> channel_ok ch \<and> in_i32 st"
| "command_ok (Cmd_AddExclusivePublication ch st) \<longleftrightarrow> channel_ok ch \<and> in_i32 st"
| "command_ok (Cmd_RemovePublication rid) \<longleftrightarrow> in_i64 rid"
| "command_ok Cmd_ClientClose \<longleftrightarrow> True"
| "command_ok (Cmd_AddDestination rid ch) \<longleftrightarrow> channel_ok ch \<and> in_i64 rid"
| "command_ok (Cmd_RemoveDestination rid ch) \<longleftrightarrow> channel_ok ch \<and> in_i64 rid"
| "command_ok (Cmd_AddRcvDestination rid ch) \<longleftrightarrow> channel_ok ch \<and> in_i64 rid"
| "command_ok (Cmd_RemoveRcvDestination rid ch) \<longleftrightarrow> channel_ok ch \<and> in_i64 rid"
| "command_ok (Cmd_AddCounterByLabel ty label) \<longleftrightarrow> channel_ok label \<and> in_i32 ty"
| "command_ok (Cmd_RemoveCounter rid) \<longleftrightarrow> in_i64 rid"

fun command_filler :: "int \<Rightarrow> driver_command \<Rightarrow> int \<Rightarrow> filler" where
  "command_filler client (Cmd_AddSubscription ch st) = fill_subscription client ch st"
| "command_filler client (Cmd_RemoveSubscription rid) = fill_remove cmd_RemoveSubscription client rid"
| "command_filler client (Cmd_AddPublication ch st) = fill_publication cmd_AddPublication client ch st"
| "command_filler client (Cmd_AddExclusivePublication ch st) = fill_publication cmd_AddExclusivePublication client ch st"
| "command_filler client (Cmd_RemovePublication rid) = fill_remove cmd_RemovePublication client rid"
| "command_filler client Cmd_ClientClose = fill_close client"
| "command_filler client (Cmd_AddDestination rid ch) = fill_destination cmd_AddDestination client rid ch"
| "command_filler client (Cmd_RemoveDestination rid ch) = fill_destination cmd_RemoveDestination client rid ch"
| "command_filler client (Cmd_AddRcvDestination rid ch) = fill_destination cmd_AddRcvDestination client rid ch"
| "command_filler client (Cmd_RemoveRcvDestination rid ch) = fill_destination cmd_RemoveRcvDestination client rid ch"
| "command_filler client (Cmd_AddCounterByLabel ty label) = fill_counter_label client ty label"
| "command_filler client (Cmd_RemoveCounter rid) = fill_remove cmd_RemoveCounter client rid"

lemma command_fills:
  assumes "command_ok c" and "in_i64 client" and "in_i64 cid" and "command_wire client cid c = (ty, ws)"
  shows "fills (command_filler client c cid) heap ty ws"
  using assms
  by (cases c) (auto simp: channel_ok_def intro: fills_subscription [unfolded cmd_AddSubscription_def] fills_remove fills_publication
      fills_close [unfolded cmd_ClientClose_def] fills_destination fills_counter_label [unfolded cmd_AddCounter_def])

lemma send_command_eq:
  assumes "with_correlation env heap driver (command_filler (px_clientID driver) c) m = Some (Inr (cid, o1, m'))"
  shows "send_command env heap driver c m = Some (Inr (command_result c cid o1, m'))"
  using assms
  by (cases c; cases o1)
     (auto simp: returns_id_def returns_error_def AddSubscription_def RemoveSubscription_def AddPublication_def
      AddExclusivePublication_def RemovePublication_def ClientClose_def AddDestination_def RemoveDestination_def
      AddRcvDestination_def RemoveRcvDestination_def AddCounterByLabel_def RemoveCounter_def id_or_error_def only_error_def)

text \<open>
  (C8) A command the client sends is in the driver's ring buffer exactly as meant. This holds of
  every command except \<open>AddCounter\<close>, which can lose the end of its label, for a channel or a label of 1
  to 480 bytes, and with no other writer at the same moment: behind the records that were there,
  and padding if the end of the buffer is in the way, stands one record with the type of the
  command, whose bytes carry the client id, a fresh correlation id and the arguments of the command
  at the places where the driver reads them, and nothing else. The caller gets the correlation id,
  or no error from the methods that return no id. If the ring buffer has no room, the queue is as
  before and the caller gets an error, except from \<open>AddRcvDestination\<close>, which returns the id 0 and no
  error.
\<close>

theorem Proxy_command_written:
  assumes inv: "rb_inv m rb k rs" and rb: "rb = toDriverCommandBuffer driver" and t: "rb_tail m rb < 4611686016279904256"
    and heap: "heap_ok rb heap" and mx: "512 \<le> maxMsgLength rb"
    and c: "command_ok c" "in_i64 (px_clientID driver)" "command_wire (px_clientID driver) (correlation m rb) c = (ty, ws)"
  shows "\<exists>payload o1 m'. carries payload ws \<and> int (length payload) = wire_end 0 ws \<and>
    send_command alone heap driver c m = Some (Inr (command_result c (correlation m rb) o1, m')) \<and>
    command_outcome m rb k rs ty payload o1 m'"
proof -
  let ?f = "command_filler (px_clientID driver) c" and ?n = "wire_end 0 ws"
  have fl: "fills (?f (correlation m rb)) heap ty ws" by (rule command_fills [OF c(1,2) _ c(3)]) (simp add: correlation_def)
  have ty: "1 \<le> ty" "in_i32 ty" using c(3) by (cases c; simp add: in_i32_def)+
  have n: "0 \<le> ?n" "?n \<le> 512" using fl wire_end_ge [of 0 ws] by (auto simp: fills_def)
  have "\<exists>payload o1 m'. carries payload ws \<and> length payload = nat ?n \<and>
      with_correlation alone heap driver ?f m = Some (Inr (correlation m rb, o1, m')) \<and> command_outcome m rb k rs ty payload o1 m'"
  proof (rule with_correlation_written [OF inv rb t heap mx ty n])
    fix m1 assume "blank m1 heap"
    then obtain m2 where m2: "?f (correlation m rb) (Wrap heap 512) m1 = Inr (ty, ?n, m2)" "wire_at m2 (Wrap heap 512) 0 ws"
      "\<forall>x. x < heap \<or> heap + 512 \<le> x \<longrightarrow> m2 x = m1 x" using fl unfolding fills_def by blast
    moreover have "carries (read_bytes m2 heap (nat ?n)) ws" using carries_wire [OF m2(2), of "nat ?n"] n by simp
    ultimately show "\<exists>m2. ?f (correlation m rb) (Wrap heap 512) m1 = Inr (ty, ?n, m2) \<and> carries (read_bytes m2 heap (nat ?n)) ws \<and>
        (\<forall>x. x < heap \<or> heap + 512 \<le> x \<longrightarrow> m2 x = m1 x)" by blast
  qed
  then obtain payload o1 m' where "carries payload ws" "length payload = nat ?n"
    "with_correlation alone heap driver ?f m = Some (Inr (correlation m rb, o1, m'))" "command_outcome m rb k rs ty payload o1 m'"
    by blast
  then show ?thesis using send_command_eq n(1) by fastforce
qed

text \<open>
  (C40) A channel of more than 488 bytes overruns the message buffer: the filler of an add
  publication command stores the channel without a bounds check, so the byte behind the 512
  bytes of the buffer is overwritten with a byte of the channel.
\<close>

theorem AddPublication_overruns_buffer:
  assumes "blank m heap" and "488 < length channel" and "int (length channel) < 2147483648"
  shows "\<exists>m'. fill_publication cmd client channel stream cid (Wrap heap 512) m = Inr (cmd, 24 + int (length channel), m') \<and>
    m' (heap + 512) = channel ! 488"
proof -
  have "wrap32 (int (length channel)) = int (length channel)" "channel \<noteq> []" using assms(2,3) by (auto intro: wrap32_id)
  then show ?thesis
    using blank_i32 [OF assms(1), of "heap + 20"] assms(2)
    by (simp add: fill_publication_def PublicationMessage_Wrap_def wrap_ok blank_string [OF assms(1)] StringField_Set_def
        set_defs cell_other add.assoc Let_def write_bytes_apply)
qed

theorem AddPublication_overruns_buffer_witness:
  "\<exists>m'. fill_publication 1 7 (replicate 600 65) 10 8 (Wrap 0 512) (\<lambda>_. 0) = Inr (1, 624, m') \<and> m' 512 = 65"
  using AddPublication_overruns_buffer [of "\<lambda>_. 0" 0 "replicate 600 65" 1 7 10 8] by (simp add: blank_def)

text \<open>
  (C35) The add counter command carries its key and label completely exactly if the length of
  the key is a multiple of four. The label is laid out at the next multiple of four behind the
  key, but the size of the message does not count the bytes skipped, so the end of the label
  is cut off otherwise, and the caller is not told.
\<close>

theorem AddCounter_complete_iff_key_aligned:
  assumes inv: "rb_inv m rb k rs" and rb: "rb = toDriverCommandBuffer driver" and t: "rb_tail m rb < 4611686016279904256"
    and heap: "heap_ok rb heap" and mx: "512 \<le> maxMsgLength rb" and ids: "in_i64 (px_clientID driver)" "in_i32 typeId"
    and key: "counter_source heap kbuf koff kl" "apart_from kbuf (rb_buffer rb)" "key = read_bytes m (Ptr kbuf + koff) (nat kl)"
    and label: "counter_source heap lbuf loff ll" "apart_from lbuf (rb_buffer rb)" "lab = read_bytes m (Ptr lbuf + loff) (nat ll)"
    and fits: "align4 (24 + kl) + 4 + ll \<le> 512"
  shows "\<exists>payload o1 m'. int (length payload) = 28 + kl + ll \<and> command_outcome m rb k rs cmd_AddCounter payload o1 m' \<and>
    AddCounter alone heap driver typeId kbuf koff kl lbuf loff ll m =
      Some (Inr (case o1 of Inl e \<Rightarrow> Inl e | Inr _ \<Rightarrow> Inr (correlation m rb), m')) \<and>
    (carries payload [I64 (px_clientID driver), I64 (correlation m rb), I32 typeId, Text key, Text lab] \<longleftrightarrow> 4 dvd kl)"
proof -
  let ?n = "28 + kl + ll" and ?ws = "[I64 (px_clientID driver), I64 (correlation m rb), I32 typeId, Text key, Text lab]"
    and ?f = "fill_counter (px_clientID driver) typeId kbuf koff kl lbuf loff ll"
  have kl: "0 \<le> kl" "0 \<le> ll" using key(1) label(1) by (auto simp: counter_source_def)
  have al: "24 + kl \<le> align4 (24 + kl)" "4 dvd align4 (24 + kl)" using align4_bounds [of "24 + kl"] by (auto simp: mod_eq_0_iff_dvd)
  have n: "0 \<le> ?n" "?n \<le> 512" using kl al(1) fits by linarith+
  have lens: "int (length key) = kl" "int (length lab) = ll" using kl by (simp_all add: key(3) label(3))
  have "\<exists>payload o1 m'. (carries payload ?ws \<longleftrightarrow> 4 dvd kl) \<and> length payload = nat ?n \<and>
      with_correlation alone heap driver ?f m = Some (Inr (correlation m rb, o1, m')) \<and>
      command_outcome m rb k rs cmd_AddCounter payload o1 m'"
  proof (rule with_correlation_written [OF inv rb t heap mx _ _ n])
    fix m1 assume m1: "blank m1 heap"
      "\<And>x. x < heap \<or> heap + 512 \<le> x \<Longrightarrow> x < rb_base rb \<or> rb_base rb + Capacity (rb_buffer rb) \<le> x \<Longrightarrow> m1 x = m x"
    have srcs: "key = read_bytes m1 (Ptr kbuf + koff) (nat kl)" "lab = read_bytes m1 (Ptr lbuf + loff) (nat ll)"
      unfolding key(3) label(3) using key label
      by (auto intro!: read_bytes_cong m1(2) [symmetric] simp: counter_source_def apart_from_def)
    obtain m2 where m2: "?f (correlation m rb) (Wrap heap 512) m1 = Inr (cmd_AddCounter, ?n, m2)" "wire_at m2 (Wrap heap 512) 0 ?ws"
      "\<forall>x. x < heap \<or> heap + 512 \<le> x \<longrightarrow> m2 x = m1 x"
      using fill_counter_ok [OF m1(1) ids(1) _ ids(2) key(1) srcs(1) label(1) srcs(2) refl fits, of "correlation m rb"]
      by (auto simp: correlation_def)
    have "carries (read_bytes m2 heap (nat ?n)) ?ws" if "4 dvd kl"
      using carries_wire [OF m2(2), of "nat ?n"] that n lens by simp
    moreover have "4 dvd kl" if "carries (read_bytes m2 heap (nat ?n)) ?ws"
    proof -
      have "align4 (24 + kl) + 4 + ll \<le> ?n" using that n lens by (simp add: carries_def)
      then have "align4 (24 + kl) = 24 + kl" using al(1) by linarith
      then have "4 dvd 24 + kl" using al(2) by simp
      then show ?thesis by presburger
    qed
    ultimately show "\<exists>m2. ?f (correlation m rb) (Wrap heap 512) m1 = Inr (cmd_AddCounter, ?n, m2) \<and>
        (carries (read_bytes m2 heap (nat ?n)) ?ws \<longleftrightarrow> 4 dvd kl) \<and> (\<forall>x. x < heap \<or> heap + 512 \<le> x \<longrightarrow> m2 x = m1 x)"
      using m2 by blast
  qed (simp_all add: in_i32_def)
  then obtain payload o1 m' where "carries payload ?ws \<longleftrightarrow> 4 dvd kl" "length payload = nat ?n"
    "with_correlation alone heap driver ?f m = Some (Inr (correlation m rb, o1, m'))"
    "command_outcome m rb k rs cmd_AddCounter payload o1 m'" by blast
  then show ?thesis using n(1) by (intro exI [of _ payload] exI [of _ o1] exI [of _ m']) (simp add: AddCounter_def id_or_error_def)
qed

text \<open>An empty command ring of 4096 bytes.\<close>

definition sample_command_ring :: ManyToOne where
  "sample_command_ring = \<lparr>rb_buffer = Wrap 0 4864, rb_capacity = 4096, maxMsgLength = 512, headPositionIndex = 4480,
     headCachePositionIndex = 4352, tailPositionIndex = 4224, correlationIDCounterIndex = 4608, consumerHeartbeatIndex = 4736\<rparr>"

definition sample_proxy :: Proxy where
  "sample_proxy = \<lparr>toDriverCommandBuffer = sample_command_ring, px_clientID = 7\<rparr>"

lemma zero_i64 [simp]: "get_i64 (\<lambda>_. 0) a = 0"
  by (simp add: get_i64_def load_def numeral_eq_Suc wrap64_def)

lemma sample_proxy_ok:
  "rb_inv (\<lambda>_. 0) sample_command_ring 12 []" "toDriverCommandBuffer sample_proxy = sample_command_ring" "px_clientID sample_proxy = 7"
  "rb_tail (\<lambda>_. 0) sample_command_ring = 0" "rb_head (\<lambda>_. 0) sample_command_ring = 0" "heap_ok sample_command_ring 8192"
  "512 \<le> maxMsgLength sample_command_ring" "correlation (\<lambda>_. 0) sample_command_ring = 0"
  by (simp_all add: sample_proxy_def sample_command_ring_def rb_inv_def rb_wf_def rb_tail_def rb_head_def rb_cache_def heap_ok_def
      correlation_def)

lemma sample_outcome:
  assumes "command_outcome (\<lambda>_. 0) sample_command_ring 12 [] ty payload o1 m'" and "length payload \<le> 512"
  shows "o1 = Inr () \<and> rb_inv m' sample_command_ring 12 [message_record ty payload]"
proof -
  have "aligned8 (int (length payload) + 8) < 4096" using aligned8_bounds(2) [of "int (length payload) + 8"] assms(2) by linarith
  then show ?thesis
    using assms(1) by (simp add: command_outcome_def no_room_def pad_len_def padding_records_def sample_proxy_ok Let_def)
qed

theorem Proxy_command_written_witness:
  "\<exists>payload m'. carries payload [I64 7, I64 0, I64 (- 1), I32 10, Text [1, 2, 3]] \<and> length payload = 35 \<and>
    send_command alone 8192 sample_proxy (Cmd_AddSubscription [1, 2, 3] 10) (\<lambda>_. 0) = Some (Inr (Inr (Some 0), m')) \<and>
    rb_inv m' sample_command_ring 12 [message_record 4 payload]"
proof -
  obtain payload o1 m' where r: "carries payload [I64 7, I64 0, I64 (- 1), I32 10, Text [1, 2, 3]]" "length payload = 35"
    "send_command alone 8192 sample_proxy (Cmd_AddSubscription [1, 2, 3] 10) (\<lambda>_. 0) =
      Some (Inr (command_result (Cmd_AddSubscription [1, 2, 3] 10) 0 o1, m'))"
    "command_outcome (\<lambda>_. 0) sample_command_ring 12 [] 4 payload o1 m'"
    using Proxy_command_written [OF sample_proxy_ok(1) sample_proxy_ok(2) [symmetric] _ sample_proxy_ok(6,7),
        of "Cmd_AddSubscription [1, 2, 3] 10"]
    by (auto simp: sample_proxy_ok channel_ok_def in_i32_def in_i64_def simp del: send_command.simps command_result.simps)
  then show ?thesis using sample_outcome [OF r(4)] by auto
qed

theorem AddCounter_complete_iff_key_aligned_witness:
  "\<exists>payload m'. int (length payload) = 28 + 3 + 5 \<and> rb_inv m' sample_command_ring 12 [message_record 9 payload] \<and>
    AddCounter alone 8192 sample_proxy 1001 (Wrap 9000 100) 0 3 (Wrap 9000 100) 10 5 (\<lambda>_. 0) = Some (Inr (Inr 0, m')) \<and>
    \<not> carries payload [I64 7, I64 0, I32 1001, Text [0, 0, 0], Text [0, 0, 0, 0, 0]]"
proof -
  have src: "counter_source 8192 (Wrap 9000 100) 0 3" "counter_source 8192 (Wrap 9000 100) 10 5"
    "apart_from (Wrap 9000 100) (rb_buffer sample_command_ring)"
    by (simp_all add: counter_source_def apart_from_def sample_command_ring_def)
  have n: "align4 (24 + 3) + 4 + 5 \<le> 512" by (simp add: align4_def)
  have bytes: "[0, 0, 0] = read_bytes (\<lambda>_. 0) (Ptr (Wrap 9000 100) + 0) (nat 3)"
    "[0, 0, 0, 0, 0] = read_bytes (\<lambda>_. 0) (Ptr (Wrap 9000 100) + 10) (nat 5)"
    by (simp_all add: numeral_eq_Suc)
  obtain payload o1 m' where r: "int (length payload) = 28 + 3 + 5" "command_outcome (\<lambda>_. 0) sample_command_ring 12 [] 9 payload o1 m'"
    "AddCounter alone 8192 sample_proxy 1001 (Wrap 9000 100) 0 3 (Wrap 9000 100) 10 5 (\<lambda>_. 0) =
       Some (Inr (case o1 of Inl e \<Rightarrow> Inl e | Inr _ \<Rightarrow> Inr (correlation (\<lambda>_. 0) sample_command_ring), m'))"
    "\<not> carries payload [I64 7, I64 0, I32 1001, Text [0, 0, 0], Text [0, 0, 0, 0, 0]]"
    using AddCounter_complete_iff_key_aligned [OF sample_proxy_ok(1) sample_proxy_ok(2) [symmetric] _ sample_proxy_ok(6,7) _ _ src(1,3) bytes(1) src(2,3) bytes(2) n, of 1001]
    by (auto simp: sample_proxy_ok in_i32_def in_i64_def)
  then show ?thesis using sample_outcome [OF r(2)] by (auto simp: sample_proxy_ok)
qed

end
