(* ===== verification/Broadcast.thy ===== *)
theory Broadcast
  imports Ring_Log
begin

text \<open>
  \<open>aeron/broadcast\<close>: the receiver of the buffer on which the driver broadcasts its events, and the
  receiver that copies a message to a scratch buffer before it is handled. The transmitter is
  the driver's: what it does to memory before the n-th access of a call is the parameter
  \<open>env\<close>, and \<open>transmits\<close> states the protocol it follows. A receiver that is overrun by the
  transmitter notices it.
\<close>

subsection \<open>The receiver\<close>

definition bc_tailIntentCounterOffset :: int where "bc_tailIntentCounterOffset = 0"
definition bc_tailCounterOffset :: int where "bc_tailCounterOffset = SizeOfInt64"
definition bc_latestCounterOffset :: int where "bc_latestCounterOffset = SizeOfInt64 * 2"
definition bc_trailerLength :: int where "bc_trailerLength = CacheLineLength * 2"

definition checkCapacity :: "int \<Rightarrow> unit outcome" where
  "checkCapacity capacity =
     (if IsPowerOfTwo capacity then Inr ()
      else Inl ''capacity must be a positive power of 2 + TRAILER_LENGTH'')"

record Receiver =
  rc_buffer :: buffer
  rc_capacity :: int
  rc_mask :: int
  tailIntentCounterIndex :: int
  tailCounterIndex :: int
  latestCounterIndex :: int
  recordOffset :: int
  cursor :: int
  nextRecord :: int
  lappedCount :: int

definition NewReceiver :: "buffer \<Rightarrow> Receiver outcome" where
  "NewReceiver buf =
     (let capacity = wrap32 (Capacity buf - bc_trailerLength);
          recv = \<lparr>rc_buffer = buf, rc_capacity = capacity, rc_mask = capacity - 1,
                  tailIntentCounterIndex = wrap32 (capacity + bc_tailIntentCounterOffset),
                  tailCounterIndex = wrap32 (capacity + bc_tailCounterOffset),
                  latestCounterIndex = wrap32 (capacity + bc_latestCounterOffset),
                  recordOffset = 0, cursor = 0, nextRecord = 0, lappedCount = 0\<rparr>
      in case checkCapacity capacity of Inl e \<Rightarrow> Inl e | Inr _ \<Rightarrow> Inr recv)"

definition validate :: "mem \<Rightarrow> Receiver \<Rightarrow> int \<Rightarrow> bool res" where
  "validate m recv cur =
     bindR (GetInt64Volatile m (rc_buffer recv) (tailIntentCounterIndex recv)) (\<lambda>intent.
     Inr (wrap64 (cur + rc_capacity recv) > intent))"

definition Receiver_Validate :: "mem \<Rightarrow> Receiver \<Rightarrow> bool res" where
  "Receiver_Validate m recv = validate m recv (cursor recv)"

definition GetLappedCount :: "Receiver \<Rightarrow> int" where
  "GetLappedCount recv = lappedCount recv"

definition Receiver_typeID :: "mem \<Rightarrow> Receiver \<Rightarrow> int res" where
  "Receiver_typeID m recv = GetInt32 m (rc_buffer recv) (TypeOffset (recordOffset recv))"

definition Receiver_offset :: "Receiver \<Rightarrow> int" where
  "Receiver_offset recv = EncodedMsgOffset (recordOffset recv)"

definition Receiver_length :: "mem \<Rightarrow> Receiver \<Rightarrow> int res" where
  "Receiver_length m recv =
     bindR (GetInt32 m (rc_buffer recv) (LengthOffset (recordOffset recv))) (\<lambda>len. Inr (wrap32 (len - HeaderLength)))"

text \<open>
  Looking for the next record in three parts: where it starts (at the next record, or at the
  latest one if the transmitter has lapped the receiver), how long it is, and the step over
  padding to the start of the buffer.
\<close>

definition locate_record :: "(nat \<Rightarrow> mem \<Rightarrow> mem) \<Rightarrow> Receiver \<Rightarrow> mem \<Rightarrow> (Receiver \<times> int \<times> int \<times> mem) res" where
  "locate_record env recv m =
     (let m = env 1 m
      in bindR (validate m recv (nextRecord recv)) (\<lambda>valid.
         if valid then Inr (recv, nextRecord recv, wrap32 (nextRecord recv AND rc_mask recv), m)
         else let m = env 2 m
              in bindR (GetInt64 m (rc_buffer recv) (latestCounterIndex recv)) (\<lambda>cur.
                 Inr (recv\<lparr>lappedCount := wrap64 (lappedCount recv + 1)\<rparr>, cur, wrap32 (cur AND rc_mask recv), m))))"

definition read_length :: "mem \<Rightarrow> Receiver \<Rightarrow> int \<Rightarrow> int res" where
  "read_length m recv offset =
     bindR (GetInt32 m (rc_buffer recv) (LengthOffset offset)) (\<lambda>len. Inr (AlignInt32 len RecordAlignment))"

definition receiveNext :: "(nat \<Rightarrow> mem \<Rightarrow> mem) \<Rightarrow> Receiver \<Rightarrow> mem \<Rightarrow> (bool \<times> Receiver \<times> mem) res" where
  "receiveNext env recv m =
     (let m = env 0 m
      in bindR (GetInt64Volatile m (rc_buffer recv) (tailCounterIndex recv)) (\<lambda>tail.
         if tail > nextRecord recv then
           bindR (locate_record env recv m) (\<lambda>(recv, cur, offset, m).
           let m = env 3 m
           in bindR (read_length m recv offset) (\<lambda>alignedLength.
              let recv = recv\<lparr>cursor := cur, nextRecord := wrap64 (cur + alignedLength)\<rparr>; m = env 4 m
              in bindR (GetInt32 m (rc_buffer recv) (TypeOffset offset)) (\<lambda>typeID.
                 if PaddingMsgTypeID = typeID then
                   let m = env 5 m
                   in bindR (read_length m recv 0) (\<lambda>alignedLength.
                      Inr (True, recv\<lparr>cursor := nextRecord recv, nextRecord := wrap64 (nextRecord recv + alignedLength),
                                      recordOffset := 0\<rparr>, m))
                 else Inr (True, recv\<lparr>recordOffset := offset\<rparr>, m))))
         else Inr (False, recv, m)))"

subsection \<open>The copying receiver\<close>

record CopyReceiver =
  cr_receiver :: Receiver
  scratchBuffer :: buffer

text \<open>
  The constructor scrolls to the end of the buffer, for as long as the transmitter publishes.
  The address of the scratch buffer is a parameter.
\<close>

partial_function (option) scroll :: "(nat \<Rightarrow> nat \<Rightarrow> mem \<Rightarrow> mem) \<Rightarrow> nat \<Rightarrow> Receiver \<Rightarrow> mem \<Rightarrow> (Receiver \<times> mem) res option" where
  "scroll env n recv m =
     (case receiveNext (env n) recv m of
        Inl e \<Rightarrow> Some (Inl e)
      | Inr (available, recv, m) \<Rightarrow> if available then scroll env (Suc n) recv m else Some (Inr (recv, m)))"

definition NewCopyReceiver :: "(nat \<Rightarrow> nat \<Rightarrow> mem \<Rightarrow> mem) \<Rightarrow> int \<Rightarrow> Receiver \<Rightarrow> mem \<Rightarrow> (CopyReceiver \<times> mem) res option" where
  "NewCopyReceiver env scratch recv m =
     (let m = write_bytes m scratch (replicate 4096 0)
      in map_option (\<lambda>r. bindR r (\<lambda>(recv, m). Inr (\<lparr>cr_receiver = recv, scratchBuffer = Wrap scratch 4096\<rparr>, m)))
           (scroll env 0 recv m))"

type_synonym 's broadcast_handler = "int \<Rightarrow> buffer \<Rightarrow> int \<Rightarrow> int \<Rightarrow> mem \<Rightarrow> 's \<Rightarrow> ('s \<times> mem) res"

definition copy_message :: "(nat \<Rightarrow> mem \<Rightarrow> mem) \<Rightarrow> CopyReceiver \<Rightarrow> mem \<Rightarrow> (int \<times> int \<times> mem) res" where
  "copy_message env bcast m =
     (let recv = cr_receiver bcast; m = env 6 m
      in bindR (Receiver_length m recv) (\<lambda>len.
         if len > Capacity (scratchBuffer bcast) then Inl (Panic ''Buffer required size'')
         else let m = env 7 m
              in bindR (Receiver_typeID m recv) (\<lambda>msgTypeID.
                 bindR (PutBytes (env 8 m) (scratchBuffer bcast) 0 (rc_buffer recv) (Receiver_offset recv) len) (\<lambda>m.
                 let m = env 9 m
                 in bindR (Receiver_Validate m recv) (\<lambda>valid.
                    if \<not> valid then Inl (Panic ''Unable to keep up with broadcast buffer'')
                    else Inr (msgTypeID, len, m))))))"

definition Receive :: "(nat \<Rightarrow> mem \<Rightarrow> mem) \<Rightarrow> 's broadcast_handler \<Rightarrow> CopyReceiver \<Rightarrow> mem \<Rightarrow> 's \<Rightarrow>
    (int \<times> CopyReceiver \<times> 's \<times> mem) res" where
  "Receive env handler bcast m s =
     (let lastSeenLappedCount = GetLappedCount (cr_receiver bcast)
      in bindR (receiveNext env (cr_receiver bcast) m) (\<lambda>(available, recv, m).
         let bcast = bcast\<lparr>cr_receiver := recv\<rparr>
         in if available then
              if lastSeenLappedCount \<noteq> GetLappedCount recv then Inl (Panic ''Unable to keep up with broadcast buffer'')
              else bindR (copy_message env bcast m) (\<lambda>(msgTypeID, len, m).
                   bindR (handler msgTypeID (scratchBuffer bcast) 0 len m s) (\<lambda>(s, m). Inr (1, bcast, s, m)))
            else Inr (0, bcast, s, m)))"

subsection \<open>The transmitter\<close>

definition recv_wf :: "Receiver \<Rightarrow> nat \<Rightarrow> bool" where
  "recv_wf recv k \<longleftrightarrow>
     5 \<le> k \<and> k \<le> 30 \<and> Capacity (rc_buffer recv) = 2 ^ k + 128 \<and> rc_capacity recv = 2 ^ k \<and>
     rc_mask recv = 2 ^ k - 1 \<and> tailIntentCounterIndex recv = 2 ^ k \<and> tailCounterIndex recv = 2 ^ k + 8 \<and>
     latestCounterIndex recv = 2 ^ k + 16"

abbreviation rc_base :: "Receiver \<Rightarrow> int" where "rc_base recv \<equiv> Ptr (rc_buffer recv)"

definition bc_intent :: "mem \<Rightarrow> Receiver \<Rightarrow> int" where
  "bc_intent m recv = get_i64 m (rc_base recv + tailIntentCounterIndex recv)"

definition bc_tail :: "mem \<Rightarrow> Receiver \<Rightarrow> int" where
  "bc_tail m recv = get_i64 m (rc_base recv + tailCounterIndex recv)"

text \<open>
  The transmitter announces how far it will write before it writes: a published position that
  is less than one lap behind the announced tail keeps its byte. It writes nowhere else.
\<close>

definition keeps_published :: "Receiver \<Rightarrow> mem \<Rightarrow> mem \<Rightarrow> bool" where
  "keeps_published recv m m' \<longleftrightarrow>
     bc_tail m recv \<le> bc_tail m' recv \<and> bc_intent m recv \<le> bc_intent m' recv \<and>
     (\<forall>p. p < bc_tail m recv \<and> bc_intent m' recv \<le> p + rc_capacity recv \<longrightarrow>
        m' (rc_base recv + p mod rc_capacity recv) = m (rc_base recv + p mod rc_capacity recv))"

definition transmits :: "Receiver \<Rightarrow> mem \<Rightarrow> mem \<Rightarrow> bool" where
  "transmits recv m m' \<longleftrightarrow> keeps_published recv m m' \<and>
     (\<forall>x. x < rc_base recv \<or> rc_base recv + Capacity (rc_buffer recv) \<le> x \<longrightarrow> m' x = m x)"

text \<open>The message at position \<open>pos\<close> is the next one, perhaps behind padding up to the end of the buffer.\<close>

definition padded_to :: "mem \<Rightarrow> Receiver \<Rightarrow> int \<Rightarrow> bool" where
  "padded_to m recv pos \<longleftrightarrow>
     (let p = nextRecord recv; c = rc_capacity recv; q = record_at m (rc_base recv + p mod c)
      in rr_type q = PaddingMsgTypeID \<and> 8 \<le> rr_length q \<and> p mod c + aligned8 (rr_length q) = c \<and>
         pos = p + aligned8 (rr_length q))"

definition pending :: "mem \<Rightarrow> Receiver \<Rightarrow> int \<Rightarrow> ring_record \<Rightarrow> bool" where
  "pending m recv pos r \<longleftrightarrow>
     (pos = nextRecord recv \<or> padded_to m recv pos) \<and>
     record_at m (rc_base recv + pos mod rc_capacity recv) = r \<and> rr_type r \<noteq> PaddingMsgTypeID \<and>
     8 \<le> rr_length r \<and> pos mod rc_capacity recv + aligned8 (rr_length r) \<le> rc_capacity recv \<and>
     pos + aligned8 (rr_length r) \<le> bc_tail m recv"

lemma record_stable:
  assumes tr: "keeps_published recv m m'" and c: "0 < rc_capacity recv" and p: "bc_intent m' recv \<le> p + rc_capacity recv"
    and r: "record_at m (rc_base recv + p mod rc_capacity recv) = r" "8 \<le> rr_length r"
    and fits: "p mod rc_capacity recv + aligned8 (rr_length r) \<le> rc_capacity recv"
      "p + aligned8 (rr_length r) \<le> bc_tail m recv"
  shows "record_at m' (rc_base recv + p mod rc_capacity recv) = r"
proof -
  let ?c = "rc_capacity recv" and ?a = "rc_base recv + p mod rc_capacity recv"
  have l: "get_i32 m ?a = rr_length r" using r(1) by (auto simp: record_at_def)
  have "m' x = m x" if x: "?a \<le> x" "x < ?a + max 8 (get_i32 m ?a)" for x
  proof -
    define i where "i = x - ?a"
    have i: "0 \<le> i" "i < aligned8 (rr_length r)"
      using x l r(2) aligned8_bounds(1) [of "rr_length r"] by (auto simp: i_def)
    moreover have "0 \<le> p mod ?c" using c by simp
    ultimately have "(p mod ?c + i) mod ?c = p mod ?c + i" using fits(1) by (intro mod_pos_pos_trivial) linarith+
    then have "(p + i) mod ?c = p mod ?c + i" by (metis mod_add_left_eq)
    then have "x = rc_base recv + (p + i) mod ?c" by (simp add: i_def)
    moreover have "p + i < bc_tail m recv" "bc_intent m' recv \<le> p + i + ?c" using i p fits(2) by linarith+
    ultimately show ?thesis using tr unfolding keeps_published_def by blast
  qed
  then show ?thesis using record_at_cong r(1) by metis
qed

lemma aligned8_ge8: "8 \<le> n \<Longrightarrow> 8 \<le> aligned8 n"
  using aligned8_bounds(1) [of n] by linarith

lemma pending_stable:
  assumes tr: "keeps_published recv m m'" and c: "0 < rc_capacity recv"
    and i: "bc_intent m' recv < nextRecord recv + rc_capacity recv" and pend: "pending m recv pos r"
  shows "pending m' recv pos r"
proof -
  note p = pend [unfolded pending_def] and tails = tr [unfolded keeps_published_def, THEN conjunct1]
  have pad: "padded_to m' recv pos \<and> nextRecord recv < pos" if pd: "padded_to m recv pos"
  proof -
    let ?q = "record_at m (rc_base recv + nextRecord recv mod rc_capacity recv)"
    have q: "8 \<le> rr_length ?q" "nextRecord recv mod rc_capacity recv + aligned8 (rr_length ?q) = rc_capacity recv"
      "pos = nextRecord recv + aligned8 (rr_length ?q)" using pd by (auto simp: padded_to_def Let_def)
    have "8 \<le> aligned8 (rr_length ?q)" "8 \<le> aligned8 (rr_length r)" using q(1) p aligned8_ge8 by auto
    then have "record_at m' (rc_base recv + nextRecord recv mod rc_capacity recv) = ?q"
      using q p i by (intro record_stable [OF tr c _ refl]) linarith+
    then show ?thesis using pd q \<open>8 \<le> aligned8 (rr_length ?q)\<close> by (auto simp: padded_to_def Let_def)
  qed
  then have "nextRecord recv \<le> pos" using p by auto
  then have "record_at m' (rc_base recv + pos mod rc_capacity recv) = r"
    using i p by (intro record_stable [OF tr c]) auto
  then show ?thesis using p pad tails by (auto simp: pending_def)
qed

lemma pending_range:
  assumes "pending m recv pos r" and "0 < rc_capacity recv"
  shows "nextRecord recv \<le> pos" and "pos \<le> nextRecord recv + rc_capacity recv" and "nextRecord recv < bc_tail m recv"
proof -
  let ?p = "nextRecord recv" and ?c = "rc_capacity recv"
  let ?n = "aligned8 (rr_length (record_at m (rc_base recv + ?p mod ?c)))"
  have "pos = ?p \<or> 8 \<le> ?n \<and> ?p mod ?c + ?n = ?c \<and> pos = ?p + ?n"
    using assms(1) aligned8_ge8 by (auto simp: pending_def padded_to_def Let_def)
  moreover have "0 \<le> ?p mod ?c" using assms(2) by simp
  ultimately show *: "?p \<le> pos" "pos \<le> ?p + ?c" using assms(2) by linarith+
  have "8 \<le> aligned8 (rr_length r)" "pos + aligned8 (rr_length r) \<le> bc_tail m recv"
    using assms(1) aligned8_ge8 by (auto simp: pending_def)
  then show "?p < bc_tail m recv" using * by linarith
qed

subsection \<open>Receiving a message\<close>

lemma recv_reads:
  assumes wf: "recv_wf recv k"
  shows "GetInt64Volatile m (rc_buffer recv) (tailCounterIndex recv) = Inr (bc_tail m recv)"
    and "validate m recv cur = Inr (wrap64 (cur + 2 ^ k) > bc_intent m recv)"
    and "GetInt64 m (rc_buffer recv) (latestCounterIndex recv) = Inr (get_i64 m (rc_base recv + latestCounterIndex recv))"
    and "0 \<le> off \<Longrightarrow> off < 2 ^ k \<Longrightarrow> read_length m recv off = Inr (AlignInt32 (get_i32 m (rc_base recv + off)) 8)"
    and "0 \<le> off \<Longrightarrow> off < 2 ^ k \<Longrightarrow> GetInt32 m (rc_buffer recv) (TypeOffset off) = Inr (get_i32 m (rc_base recv + off + 4))"
    and "0 \<le> off \<Longrightarrow> off < 2 ^ k \<Longrightarrow> GetInt32 m (rc_buffer recv) (LengthOffset off) = Inr (get_i32 m (rc_base recv + off))"
proof -
  have k: "5 \<le> k" "k \<le> 30" using wf by (auto simp: recv_wf_def)
  note b = pow2_range [OF k]
  have cap: "Capacity (rc_buffer recv) < 2147483648" using wf b by (simp add: recv_wf_def)
  show "GetInt64Volatile m (rc_buffer recv) (tailCounterIndex recv) = Inr (bc_tail m recv)"
    using wf b by (simp add: recv_wf_def bc_tail_def GetInt64Volatile_ok)
  show "validate m recv cur = Inr (wrap64 (cur + 2 ^ k) > bc_intent m recv)"
    using wf b by (simp add: recv_wf_def validate_def bc_intent_def GetInt64Volatile_ok)
  show "GetInt64 m (rc_buffer recv) (latestCounterIndex recv) = Inr (get_i64 m (rc_base recv + latestCounterIndex recv))"
    using wf b by (simp add: recv_wf_def GetInt64_ok)
  assume off: "0 \<le> off" "off < 2 ^ k"
  then have "wrap32 (off + 4) = off + 4" using b by (intro wrap32_id) linarith+
  then show "GetInt32 m (rc_buffer recv) (TypeOffset off) = Inr (get_i32 m (rc_base recv + off + 4))"
    using wf off cap by (simp add: recv_wf_def TypeOffset_def SizeOfInt32_def GetInt32_ok add.assoc)
  show len: "GetInt32 m (rc_buffer recv) (LengthOffset off) = Inr (get_i32 m (rc_base recv + off))"
    using wf off cap by (simp add: recv_wf_def LengthOffset_def GetInt32_ok)
  then show "read_length m recv off = Inr (AlignInt32 (get_i32 m (rc_base recv + off)) 8)" by (simp add: read_length_def)
qed

lemma read_length_update [simp]:
  "read_length m (recv\<lparr>nextRecord := y\<rparr>) off = read_length m recv off"
  "read_length m (recv\<lparr>cursor := x\<rparr>) off = read_length m recv off"
  "read_length m (recv\<lparr>cursor := x, nextRecord := y\<rparr>) off = read_length m recv off"
  "read_length m (recv\<lparr>lappedCount := z\<rparr>) off = read_length m recv off"
  "read_length m (recv\<lparr>lappedCount := z, cursor := x, nextRecord := y\<rparr>) off = read_length m recv off"
  by (simp_all add: read_length_def)

lemma record_at_fields:
  "record_at m a = r \<Longrightarrow> get_i32 m a = rr_length r"
  "record_at m a = r \<Longrightarrow> get_i32 m (a + 4) = rr_type r"
  "record_at m a = r \<Longrightarrow> rr_type r \<noteq> PaddingMsgTypeID \<Longrightarrow> read_bytes m (a + 8) (nat (rr_length r - 8)) = rr_payload r"
  by (auto simp: record_at_def)

lemma align_record:
  assumes "8 \<le> n" and "aligned8 n \<le> 2 ^ k" and "k \<le> 30"
  shows "AlignInt32 n 8 = aligned8 n"
proof -
  have "(2::int) ^ k \<le> 2 ^ 30" using assms(3) by (rule power_increasing) simp
  then show ?thesis using assms(1,2) aligned8_bounds(1) [of n] by (simp add: AlignInt32_8 aligned8_def)
qed

lemma recv_mask: "recv_wf recv k \<Longrightarrow> wrap32 (x AND rc_mask recv) = x mod 2 ^ k"
  using mask_index [of k x] pow2_range [of k] by (simp add: recv_wf_def wrap32_id)

text \<open>
  While the transmitter stays less than a lap ahead, the lookup finds the pending message, also
  when it publishes or prepares to overwrite between any two accesses.
\<close>

definition keeps_up :: "(nat \<Rightarrow> mem \<Rightarrow> mem) \<Rightarrow> Receiver \<Rightarrow> bool" where
  "keeps_up env recv \<longleftrightarrow>
     (\<forall>n m. bc_intent m recv < nextRecord recv + rc_capacity recv \<longrightarrow>
        transmits recv m (env n m) \<and> bc_intent (env n m) recv < nextRecord recv + rc_capacity recv)"

definition in_reach :: "mem \<Rightarrow> Receiver \<Rightarrow> int \<Rightarrow> ring_record \<Rightarrow> bool" where
  "in_reach m recv pos r \<longleftrightarrow> pending m recv pos r \<and> bc_intent m recv < nextRecord recv + rc_capacity recv"

lemma in_reach_env:
  assumes "in_reach m recv pos r" and "keeps_up env recv" and "0 < rc_capacity recv"
  shows "in_reach (env n m) recv pos r"
  using assms pending_stable unfolding in_reach_def keeps_up_def transmits_def by blast

definition located :: "Receiver \<Rightarrow> int \<Rightarrow> ring_record \<Rightarrow> Receiver" where
  "located recv pos r =
     recv\<lparr>cursor := pos, nextRecord := pos + aligned8 (rr_length r), recordOffset := pos mod rc_capacity recv\<rparr>"

lemma receiveNext_finds:
  assumes wf: "recv_wf recv k" and ir: "in_reach m recv pos r" and env: "keeps_up env recv"
    and nx: "0 \<le> nextRecord recv" "nextRecord recv < 4611686018427387904"
  shows "\<exists>m'. receiveNext env recv m = Inr (True, located recv pos r, m') \<and> in_reach m' recv pos r"
proof -
  define c p where "c = (2::int) ^ k" and "p = nextRecord recv"
  have k: "5 \<le> k" "k \<le> 30" and rc: "rc_capacity recv = c" using wf by (auto simp: recv_wf_def c_def)
  note b = pow2_range [OF k, folded c_def]
  note step = in_reach_env [OF _ env] and reads = recv_reads [OF wf, folded c_def] and mask = recv_mask [OF wf, folded c_def]
  have c0: "0 < rc_capacity recv" using b rc by simp
  define m1 m2 m3 m4 where "m1 = env 1 (env 0 m)" and "m2 = env 3 m1" and "m3 = env 4 m2" and "m4 = env 5 m3"
  have i0: "in_reach (env 0 m) recv pos r" and i1: "in_reach m1 recv pos r" and i2: "in_reach m2 recv pos r"
    and i3: "in_reach m3 recv pos r" and i4: "in_reach m4 recv pos r"
    unfolding m1_def m2_def m3_def m4_def by (intro step ir c0)+
  have w: "wrap64 (p + c) = p + c" using nx b by (intro wrap64_id) (auto simp: p_def)
  have pm: "0 \<le> p mod c" "p mod c < c" "0 \<le> pos mod c" "pos mod c < c" using b by simp_all
  have loc: "locate_record env recv (env 0 m) = Inr (recv, p, p mod c, m1)"
    using i1 by (simp add: locate_record_def Let_def reads mask in_reach_def rc w del: One_nat_def flip: m1_def p_def)
  have pend: "record_at mm (rc_base recv + pos mod c) = r" if "in_reach mm recv pos r" for mm
    using that by (simp add: in_reach_def pending_def rc)
  have r: "rr_type r \<noteq> - 1" "8 \<le> rr_length r" "pos mod c + aligned8 (rr_length r) \<le> c"
    using ir by (auto simp: in_reach_def pending_def rc)
  have al: "AlignInt32 (rr_length r) 8 = aligned8 (rr_length r)"
    using r(2,3) pm(3) k(2) by (intro align_record [of _ k, folded c_def]) linarith+
  have posb: "p \<le> pos" "pos \<le> p + c" and "bc_tail (env 0 m) recv > p"
    using pending_range [of _ recv pos r] ir i0 c0 by (auto simp: in_reach_def rc p_def)
  have w2: "wrap64 (pos + aligned8 (rr_length r)) = pos + aligned8 (rr_length r)"
    using posb nx [folded p_def] r(2,3) pm(3) b(1,2) aligned8_ge8 [OF r(2)] by (intro wrap64_id) linarith+
  note head = receiveNext_def Let_def reads(1) loc
  show ?thesis
  proof (cases "pos = p")
    case True
    then show ?thesis
      using \<open>bc_tail (env 0 m) recv > p\<close> i3 record_at_fields(1) [OF pend [OF i2]] record_at_fields(2) [OF pend [OF i3]] pm r al w2
      by (auto simp: head reads located_def rc simp flip: p_def m2_def m3_def)
  next
    case False
    then have pd: "padded_to mm recv pos" if "in_reach mm recv pos r" for mm
      using that by (auto simp: in_reach_def pending_def p_def)
    let ?q = "record_at m2 (rc_base recv + p mod c)"
    have q: "8 \<le> rr_length ?q" "p mod c + aligned8 (rr_length ?q) = c" "pos = p + aligned8 (rr_length ?q)"
      "rr_type (record_at m3 (rc_base recv + p mod c)) = - 1"
      using pd [OF i2] pd [OF i3] by (auto simp: padded_to_def Let_def rc p_def)
    have alq: "AlignInt32 (get_i32 m2 (rc_base recv + p mod c)) 8 = pos - p"
      using align_record [OF q(1) _ k(2), folded c_def] q(2,3) pm(1) by (simp add: record_at_def)
    have ty: "get_i32 m3 (rc_base recv + p mod c + 4) = - 1" using q(4) by (simp add: record_at_def)
    have "p = c * (p div c) + p mod c" by simp
    then have "pos = c * (p div c + 1)" using q(2,3) by (simp only: distrib_left)
    then have z: "pos mod c = 0" by simp
    have wp: "wrap64 pos = pos" using posb nx b by (intro wrap64_id) (auto simp: p_def)
    show ?thesis
      using \<open>bc_tail (env 0 m) recv > p\<close> i4 record_at_fields(1) [OF pend [OF i4]] pm al w2 alq ty z wp c0
      by (auto simp: head reads located_def rc simp flip: p_def m2_def m3_def m4_def)
  qed
qed

definition scratch_ok :: "CopyReceiver \<Rightarrow> ring_record \<Rightarrow> bool" where
  "scratch_ok bcast r \<longleftrightarrow>
     Capacity (scratchBuffer bcast) = 4096 \<and> rr_length r - 8 \<le> 4096 \<and>
     (let b = rc_buffer (cr_receiver bcast)
      in Ptr b + Capacity b \<le> Ptr (scratchBuffer bcast) \<or> Ptr (scratchBuffer bcast) + 4096 \<le> Ptr b)"

lemma bc_counters_cong:
  assumes "recv_wf recv k" and "\<And>x. rc_base recv \<le> x \<Longrightarrow> x < rc_base recv + Capacity (rc_buffer recv) \<Longrightarrow> m' x = m x"
  shows "bc_tail m' recv = bc_tail m recv" and "bc_intent m' recv = bc_intent m recv"
proof -
  have k: "5 \<le> k" "k \<le> 30" using assms(1) by (auto simp: recv_wf_def)
  show "bc_tail m' recv = bc_tail m recv" "bc_intent m' recv = bc_intent m recv"
    unfolding bc_tail_def bc_intent_def
    by (rule i64.get_local; use assms(1) pow2_range [OF k] in \<open>auto simp: recv_wf_def intro!: assms(2)\<close>)+
qed

lemma in_reach_cong:
  assumes "recv_wf recv k" and "\<And>x. rc_base recv \<le> x \<Longrightarrow> x < rc_base recv + Capacity (rc_buffer recv) \<Longrightarrow> m' x = m x"
    and "in_reach m recv pos r"
  shows "in_reach m' recv pos r"
proof -
  have k: "5 \<le> k" "k \<le> 30" and rc: "rc_capacity recv = 2 ^ k" using assms(1) by (auto simp: recv_wf_def)
  note b = pow2_range [OF k]
  note tails = bc_counters_cong [OF assms(1,2)]
  have m: "m' (rc_base recv + p mod rc_capacity recv) = m (rc_base recv + p mod rc_capacity recv)" for p
  proof (rule assms(2))
    have "0 \<le> p mod 2 ^ k" "p mod 2 ^ k < 2 ^ k" by simp_all
    moreover have "Capacity (rc_buffer recv) = 2 ^ k + 128" using assms(1) by (simp add: recv_wf_def)
    ultimately show "rc_base recv \<le> rc_base recv + p mod rc_capacity recv"
      "rc_base recv + p mod rc_capacity recv < rc_base recv + Capacity (rc_buffer recv)"
      unfolding rc by linarith+
  qed
  have "keeps_published recv m m'" by (simp add: keeps_published_def tails m)
  moreover have "0 < rc_capacity recv" using b rc by simp
  ultimately show ?thesis using assms(3) tails pending_stable by (auto simp: in_reach_def)
qed

lemma located_fields [simp]:
  "rc_buffer (located recv pos r) = rc_buffer recv" "recordOffset (located recv pos r) = pos mod rc_capacity recv"
  "lappedCount (located recv pos r) = lappedCount recv" "cursor (located recv pos r) = pos"
  by (simp_all add: located_def)

lemma recv_wf_located [simp]: "recv_wf (located recv pos r) k \<longleftrightarrow> recv_wf recv k"
  by (simp add: located_def recv_wf_def)

lemma bc_intent_located [simp]: "bc_intent m (located recv pos r) = bc_intent m recv"
  by (simp add: located_def bc_intent_def)

lemma copy_message_ok:
  assumes wf: "recv_wf recv k" and ir: "in_reach m recv pos r" and env: "keeps_up env recv"
    and scr: "scratch_ok bcast r" "cr_receiver bcast = located recv pos r"
    and nx: "0 \<le> nextRecord recv" "nextRecord recv < 4611686018427387904"
  shows "\<exists>m'. copy_message env bcast m = Inr (rr_type r, rr_length r - 8, m') \<and>
    read_bytes m' (Ptr (scratchBuffer bcast)) (nat (rr_length r - 8)) = rr_payload r"
proof -
  define c where "c = (2::int) ^ k"
  have k: "5 \<le> k" "k \<le> 30" and rc: "rc_capacity recv = c" and cap: "Capacity (rc_buffer recv) = c + 128"
    using wf by (auto simp: recv_wf_def c_def)
  note b = pow2_range [OF k, folded c_def]
  let ?n = "rr_length r - 8" and ?s = "scratchBuffer bcast" and ?off = "pos mod c"
  have off: "0 \<le> ?off" "?off < c" using b by simp_all
  have r: "8 \<le> rr_length r" "?off + aligned8 (rr_length r) \<le> c" "rr_type r \<noteq> PaddingMsgTypeID" "?n \<le> 4096"
    using ir scr(1) by (auto simp: in_reach_def pending_def rc scratch_ok_def)
  have "rr_length r \<le> aligned8 (rr_length r)" by (rule aligned8_bounds)
  then have n: "0 \<le> ?n" "?off + 8 + ?n \<le> c" using r by linarith+
  have c0: "0 < rc_capacity recv" using b rc by simp
  define m1 m2 m3 where "m1 = env 6 m" and "m2 = env 7 m1" and "m3 = env 8 m2"
  note step = in_reach_env [OF _ env c0]
  have i: "in_reach m1 recv pos r" "in_reach m2 recv pos r" "in_reach m3 recv pos r"
    unfolding m1_def m2_def m3_def by (intro step ir)+
  have pend: "record_at mm (rc_base recv + ?off) = r" if "in_reach mm recv pos r" for mm
    using that by (simp add: in_reach_def pending_def rc)
  note reads = recv_reads(5,6) [OF wf, folded c_def, OF off]
  have len: "Receiver_length m1 (located recv pos r) = Inr ?n"
    using record_at_fields(1) [OF pend [OF i(1)]] n r(4) by (simp add: Receiver_length_def rc reads wrap32_id)
  have ty: "Receiver_typeID m2 (located recv pos r) = Inr (rr_type r)"
    using record_at_fields(2) [OF pend [OF i(2)]] by (simp add: Receiver_typeID_def rc reads)
  have src: "read_bytes m3 (rc_base recv + (?off + 8)) (nat ?n) = rr_payload r"
    using record_at_fields(3) [OF pend [OF i(3)] r(3)] by (simp add: add.assoc)
  then have pl: "length (rr_payload r) = nat ?n" by (metis length_read_bytes)
  define m4 where "m4 = write_bytes m3 (Ptr ?s) (rr_payload r)"
  have "wrap32 (?off + 8) = ?off + 8" using off b by (intro wrap32_id) linarith+
  then have "EncodedMsgOffset ?off = ?off + 8" by (simp add: EncodedMsgOffset_def)
  then have put: "PutBytes m3 ?s 0 (rc_buffer recv) (Receiver_offset (located recv pos r)) ?n = Inr m4"
    using PutBytes_ok [of 0 ?n ?s "?off + 8" "rc_buffer recv" m3] n off b scr cap r(4) src
    by (auto simp: Receiver_offset_def rc m4_def scratch_ok_def Let_def)
  have sb: "Ptr ?s + 4096 \<le> rc_base recv \<or> rc_base recv + Capacity (rc_buffer recv) \<le> Ptr ?s"
    using scr by (auto simp: scratch_ok_def Let_def)
  have i4: "in_reach m4 recv pos r"
    by (rule in_reach_cong [OF wf _ i(3)]) (use sb r(4) n in \<open>auto simp: m4_def write_bytes_apply pl\<close>)
  have i5: "in_reach (env 9 m4) recv pos r" by (rule step [OF i4])
  have "transmits recv m4 (env 9 m4)" using i4 env by (auto simp: in_reach_def keeps_up_def)
  then have "read_bytes (env 9 m4) (Ptr ?s) (nat ?n) = read_bytes m4 (Ptr ?s) (nat ?n)"
    using sb r(4) by (intro read_bytes_cong) (auto simp: transmits_def split: if_splits)
  also have "\<dots> = rr_payload r" by (simp add: m4_def read_write_same pl)
  finally have rb: "read_bytes (env 9 m4) (Ptr ?s) (nat ?n) = rr_payload r" .
  have "nextRecord recv \<le> pos" "pos \<le> nextRecord recv + c"
    using pending_range [of _ recv pos r] i5 c0 by (auto simp: in_reach_def rc)
  moreover from this have "wrap64 (pos + c) = pos + c" using nx b by (intro wrap64_id) linarith+
  moreover have "bc_intent (env 9 m4) recv < nextRecord recv + c" using i5 by (simp add: in_reach_def rc)
  ultimately have val: "Receiver_Validate (env 9 m4) (located recv pos r) = Inr True"
    using recv_reads(2) [of "located recv pos r" k "env 9 m4" pos, folded c_def] wf by (simp add: Receiver_Validate_def)
  show ?thesis
    using rb r(4) scr by (auto simp: copy_message_def Let_def len ty put val scratch_ok_def simp flip: m1_def m2_def m3_def)
qed

lemma Receive_message:
  assumes wf: "recv_wf (cr_receiver bcast) k" and ir: "in_reach m (cr_receiver bcast) pos r"
    and env: "keeps_up env (cr_receiver bcast)" and scr: "scratch_ok bcast r"
    and nx: "0 \<le> nextRecord (cr_receiver bcast)" "nextRecord (cr_receiver bcast) < 4611686018427387904"
  shows "\<exists>m'. read_bytes m' (Ptr (scratchBuffer bcast)) (nat (rr_length r - 8)) = rr_payload r \<and>
    Receive env handler bcast m s =
      bindR (handler (rr_type r) (scratchBuffer bcast) 0 (rr_length r - 8) m' s) (\<lambda>(s, m).
      Inr (1, bcast\<lparr>cr_receiver := (cr_receiver bcast)\<lparr>cursor := pos, nextRecord := pos + aligned8 (rr_length r),
        recordOffset := pos mod 2 ^ k\<rparr>\<rparr>, s, m))"
proof -
  let ?recv = "cr_receiver bcast"
  obtain m1 where m1: "receiveNext env ?recv m = Inr (True, located ?recv pos r, m1)" "in_reach m1 ?recv pos r"
    using receiveNext_finds [OF wf ir env nx] by blast
  obtain m2 where m2: "copy_message env (bcast\<lparr>cr_receiver := located ?recv pos r\<rparr>) m1 = Inr (rr_type r, rr_length r - 8, m2)"
    "read_bytes m2 (Ptr (scratchBuffer bcast)) (nat (rr_length r - 8)) = rr_payload r"
    using copy_message_ok [OF wf m1(2) env _ _ nx, of "bcast\<lparr>cr_receiver := located ?recv pos r\<rparr>"] scr
    by (auto simp: scratch_ok_def)
  have "rc_capacity ?recv = 2 ^ k" using wf by (simp add: recv_wf_def)
  then show ?thesis using m2 by (auto simp: Receive_def m1 GetLappedCount_def located_def)
qed

text \<open>
  (C6) As long as the transmitter does not come round to the receiver, every call that finds a
  message hands exactly the next one to the handler, with its type and its bytes in the scratch
  buffer, and moves behind it. Padding at the end of the buffer is skipped. This holds for
  every interleaving with the transmitter: it may publish, announce and overwrite older records
  between any two accesses of the receiver.
\<close>

theorem Receive_delivers:
  assumes wf: "recv_wf (cr_receiver bcast) k" and ir: "in_reach m (cr_receiver bcast) pos r"
    and env: "keeps_up env (cr_receiver bcast)" and scr: "scratch_ok bcast r"
    and nx: "0 \<le> nextRecord (cr_receiver bcast)" "nextRecord (cr_receiver bcast) < 4611686018427387904"
  shows "\<exists>m'. read_bytes m' (Ptr (scratchBuffer bcast)) (nat (rr_length r - 8)) = rr_payload r \<and>
    Receive env handler bcast m s =
      bindR (handler (rr_type r) (scratchBuffer bcast) 0 (rr_length r - 8) m' s) (\<lambda>(s, m).
      Inr (1, bcast\<lparr>cr_receiver := (cr_receiver bcast)\<lparr>cursor := pos, nextRecord := pos + aligned8 (rr_length r),
        recordOffset := pos mod 2 ^ k\<rparr>\<rparr>, s, m))"
  using assms by (rule Receive_message)

text \<open>
  (C26) A receiver that was lapped before it looks for the next message never hands anything to
  the handler: the call panics, whatever the transmitter does meanwhile.
\<close>

theorem Receive_lapped_panics:
  assumes "recv_wf (cr_receiver bcast) k" and "nextRecord (cr_receiver bcast) < bc_tail (env 0 m) (cr_receiver bcast)"
    and "wrap64 (nextRecord (cr_receiver bcast) + 2 ^ k) \<le> bc_intent (env 1 (env 0 m)) (cr_receiver bcast)"
  shows "Receive env handler bcast m s = Inl (Panic ''Unable to keep up with broadcast buffer'')"
proof -
  define recv m2 where "recv = cr_receiver bcast" and "m2 = env 2 (env 1 (env 0 m))"
  have k: "5 \<le> k" "k \<le> 30" and wf: "recv_wf recv k" using assms(1) by (auto simp: recv_wf_def recv_def)
  note b = pow2_range [OF k] and reads = recv_reads [OF wf] and mask = recv_mask [OF wf]
  let ?cur = "get_i64 m2 (rc_base recv + latestCounterIndex recv)"
    and ?lapped = "recv\<lparr>lappedCount := wrap64 (lappedCount recv + 1)\<rparr>"
  have loc: "locate_record env recv (env 0 m) = Inr (?lapped, ?cur, ?cur mod 2 ^ k, m2)"
    using assms(3) [folded recv_def] by (simp add: locate_record_def Let_def reads mask m2_def del: One_nat_def)
  have off: "0 \<le> ?cur mod 2 ^ k" "?cur mod 2 ^ k < 2 ^ k" by simp_all
  have lap: "wrap64 (lappedCount recv + 1) \<noteq> lappedCount recv"
    using wrap64_congruent [of "lappedCount recv + 1"] by (auto simp: mod_eq_dvd_iff)
  have "\<exists>recv' m'. receiveNext env recv m = Inr (True, recv', m') \<and> lappedCount recv' = wrap64 (lappedCount recv + 1)"
    using assms(2) [folded recv_def] b by (auto simp: receiveNext_def Let_def reads(1) loc reads(4,5) off)
  then show ?thesis using lap by (auto simp: Receive_def Let_def GetLappedCount_def simp flip: recv_def)
qed

text \<open>A transmitter that comes round while the message is copied is noticed by the second check.\<close>

lemma receiveNext_cong:
  assumes "\<And>n m. n \<le> 5 \<Longrightarrow> env n m = env' n m"
  shows "receiveNext env recv m = receiveNext env' recv m"
proof -
  have "env 0 = env' 0" "env 1 = env' 1" "env 2 = env' 2" "env 3 = env' 3" "env 4 = env' 4" "env 5 = env' 5"
    by (intro ext assms; simp)+
  then show ?thesis unfolding receiveNext_def locate_record_def by (simp only:)
qed

lemma keeps_up_alone: "keeps_up alone recv"
  by (simp add: keeps_up_def transmits_def keeps_published_def)

text \<open>
  (C27) A message that the transmitter begins to overwrite after the receiver has found it is
  never handed to the handler: the check after the copy makes the call panic, if nothing before
  did. The fault is the same whatever the handler would have done, so the handler has not run. The
  transmitter may publish while the message is looked for, and does what it likes during the copy.
\<close>

theorem Receive_overrun_panics:
  assumes wf: "recv_wf (cr_receiver bcast) k" and ir: "in_reach m (cr_receiver bcast) pos r"
    and find: "keeps_up (\<lambda>n m. if n \<le> 5 then env n m else m) (cr_receiver bcast)"
    and over: "\<And>m. pos + 2 ^ k \<le> bc_intent (env 9 m) (cr_receiver bcast)"
    and nx: "0 \<le> nextRecord (cr_receiver bcast)" "nextRecord (cr_receiver bcast) < 4611686018427387904"
  shows "\<exists>e. \<forall>handler s. Receive env handler bcast m s = Inl e"
proof -
  let ?recv = "cr_receiver bcast" and ?env = "\<lambda>n m. if n \<le> 5 then env n m else m"
  have k: "5 \<le> k" "k \<le> 30" and rc: "rc_capacity ?recv = 2 ^ k" using wf by (auto simp: recv_wf_def)
  note b = pow2_range [OF k]
  obtain m1 where m1: "receiveNext ?env ?recv m = Inr (True, located ?recv pos r, m1)"
    using receiveNext_finds [OF wf ir find nx] by blast
  have "0 \<le> pos" "pos \<le> nextRecord ?recv + 2 ^ k"
    using pending_range [of m ?recv pos r] ir nx b by (auto simp: in_reach_def rc)
  then have "wrap64 (pos + 2 ^ k) = pos + 2 ^ k" using nx b by (intro wrap64_id) linarith+
  then have "validate (env 9 mm) (located ?recv pos r) pos = Inr False" for mm
    using recv_reads(2) [of "located ?recv pos r" k "env 9 mm" pos] wf over [of mm] by simp
  then have "\<exists>e. copy_message env (bcast\<lparr>cr_receiver := located ?recv pos r\<rparr>) mm = Inl e" for mm
    by (auto simp: copy_message_def Let_def Receiver_Validate_def bindR_def split: sum.splits)
  then obtain e where "copy_message env (bcast\<lparr>cr_receiver := located ?recv pos r\<rparr>) m1 = Inl e" by blast
  moreover have "receiveNext env ?recv m = Inr (True, located ?recv pos r, m1)"
    unfolding m1 [symmetric] by (rule receiveNext_cong) simp
  ultimately show ?thesis by (simp add: Receive_def GetLappedCount_def)
qed

subsection \<open>Scrolling to the end\<close>

primrec backlog :: "mem \<Rightarrow> Receiver \<Rightarrow> (int \<times> ring_record) list \<Rightarrow> bool" where
  "backlog m recv [] \<longleftrightarrow> nextRecord recv = bc_tail m recv"
| "backlog m recv (x # xs) \<longleftrightarrow>
     in_reach m recv (fst x) (snd x) \<and> nextRecord recv < 4611686018427387904 \<and> backlog m (located recv (fst x) (snd x)) xs"

lemma bc_tail_located [simp]: "bc_tail m (located recv pos r) = bc_tail m recv"
  by (simp add: located_def bc_tail_def)

lemma receiveNext_idle:
  "recv_wf recv k \<Longrightarrow> nextRecord recv = bc_tail m recv \<Longrightarrow> receiveNext alone recv m = Inr (False, recv, m)"
  by (simp add: receiveNext_def recv_reads)

lemma scroll_backlog:
  assumes "recv_wf recv k" and "0 \<le> nextRecord recv" and "backlog m recv xs"
  shows "\<exists>recv'. scroll (\<lambda>_. alone) n recv m = Some (Inr (recv', m)) \<and> nextRecord recv' = bc_tail m recv \<and>
    recv_wf recv' k \<and> lappedCount recv' = lappedCount recv"
  using assms
proof (induction xs arbitrary: recv n)
  case Nil
  then show ?case by (subst scroll.simps) (simp add: receiveNext_idle)
next
  case (Cons x xs)
  obtain pos r where x: "x = (pos, r)" by force
  have ir: "in_reach m recv pos r" using Cons.prems by (simp add: x)
  have "0 < rc_capacity recv" using Cons.prems(1) by (simp add: recv_wf_def)
  then have "0 \<le> pos" "8 \<le> rr_length r"
    using ir pending_range(1) [of m recv pos r] Cons.prems(2) by (auto simp: in_reach_def pending_def)
  then have "0 \<le> nextRecord (located recv pos r)" using aligned8_ge8 [of "rr_length r"] by (simp add: located_def)
  then obtain recv' where IH: "scroll (\<lambda>_. alone) (Suc n) (located recv pos r) m = Some (Inr (recv', m))"
    "nextRecord recv' = bc_tail m recv" "recv_wf recv' k" "lappedCount recv' = lappedCount recv"
    using Cons.IH [of "located recv pos r" "Suc n"] Cons.prems by (auto simp: x)
  have "\<exists>m'. receiveNext alone recv m = Inr (True, located recv pos r, m') \<and> in_reach m' recv pos r"
    using Cons.prems ir by (intro receiveNext_finds keeps_up_alone) (auto simp: x)
  moreover have "m' = m" if "receiveNext alone recv m = Inr (av, recv', m')" for av recv' m'
    using that by (auto simp: receiveNext_def locate_record_def Let_def bindR_eq_Inr split: if_splits)
  ultimately have "receiveNext alone recv m = Inr (True, located recv pos r, m)" by metis
  then show ?case using IH by (subst scroll.simps) auto
qed

lemma backlog_cong:
  assumes "recv_wf recv k" and "\<And>x. rc_base recv \<le> x \<Longrightarrow> x < rc_base recv + Capacity (rc_buffer recv) \<Longrightarrow> m' x = m x"
    and "backlog m recv xs"
  shows "backlog m' recv xs"
  using assms
proof (induction xs arbitrary: recv)
  case Nil
  then show ?case using bc_counters_cong(1) [OF Nil.prems(1,2)] by simp
next
  case (Cons x xs)
  have "in_reach m' recv (fst x) (snd x)" by (rule in_reach_cong [OF Cons.prems(1,2)]) (use Cons.prems(3) in auto)
  moreover have "backlog m' (located recv (fst x) (snd x)) xs"
    by (rule Cons.IH) (use Cons.prems in \<open>simp_all\<close>)
  ultimately show ?case using Cons.prems(3) by simp
qed

text \<open>
  A receiver that is a lap or more behind, and the record the latest-counter names: the last one
  published.
\<close>

definition lapped :: "mem \<Rightarrow> Receiver \<Rightarrow> bool" where
  "lapped m recv \<longleftrightarrow> nextRecord recv + rc_capacity recv \<le> bc_intent m recv"

definition bc_latest :: "mem \<Rightarrow> Receiver \<Rightarrow> int" where
  "bc_latest m recv = get_i64 m (rc_base recv + latestCounterIndex recv)"

definition latest_record :: "mem \<Rightarrow> Receiver \<Rightarrow> bool" where
  "latest_record m recv \<longleftrightarrow>
     (let p = bc_latest m recv; c = rc_capacity recv; r = record_at m (rc_base recv + p mod c)
      in rr_type r \<noteq> PaddingMsgTypeID \<and> 8 \<le> rr_length r \<and> p mod c + aligned8 (rr_length r) \<le> c \<and>
         p + aligned8 (rr_length r) = bc_tail m recv \<and> 0 \<le> p \<and> nextRecord recv \<le> p \<and> p < 4611686018427387904)"

text \<open>What is in the buffer for a receiver: the messages after its position, or the latest one.\<close>

definition scrollable :: "mem \<Rightarrow> Receiver \<Rightarrow> (int \<times> ring_record) list \<Rightarrow> bool" where
  "scrollable m recv xs \<longleftrightarrow> (if lapped m recv then latest_record m recv else backlog m recv xs)"

lemma latest_record_cong:
  assumes wf: "recv_wf recv k" and same: "\<And>x. rc_base recv \<le> x \<Longrightarrow> x < rc_base recv + Capacity (rc_buffer recv) \<Longrightarrow> m' x = m x"
    and latest: "latest_record m recv"
  shows "latest_record m' recv"
proof -
  have k: "5 \<le> k" "k \<le> 30" using wf by (auto simp: recv_wf_def)
  note b = pow2_range [OF k]
  let ?c = "rc_capacity recv" and ?p = "bc_latest m recv"
  let ?a = "rc_base recv + ?p mod ?c"
  have cap: "Capacity (rc_buffer recv) = ?c + 128" "0 < ?c" "?c = 2 ^ k" "latestCounterIndex recv = ?c + 16"
    using wf b by (auto simp: recv_wf_def)
  have "bc_latest m' recv = ?p"
    unfolding bc_latest_def by (rule i64.get_local) (use cap b in \<open>auto intro!: same\<close>)
  moreover have "record_at m' ?a = record_at m ?a"
  proof (rule record_at_cong)
    fix x assume x: "?a \<le> x" "x < ?a + max 8 (get_i32 m ?a)"
    have "0 \<le> ?p mod ?c" using cap(2) by simp
    moreover have "max 8 (get_i32 m ?a) \<le> aligned8 (rr_length (record_at m ?a))"
      using latest aligned8_bounds(1) [of "get_i32 m ?a"] by (auto simp: latest_record_def Let_def record_at_def)
    moreover have "?p mod ?c + aligned8 (rr_length (record_at m ?a)) \<le> ?c"
      using latest by (auto simp: latest_record_def Let_def)
    ultimately show "m' x = m x" using x cap(1) by (intro same) linarith+
  qed
  ultimately show ?thesis
    using latest bc_counters_cong(1) [OF wf same] by (simp add: latest_record_def Let_def)
qed

lemma scroll_lapped:
  assumes wf: "recv_wf recv k" and nx: "0 \<le> nextRecord recv" and lap: "lapped m recv" and latest: "latest_record m recv"
  shows "\<exists>recv'. scroll (\<lambda>_. alone) n recv m = Some (Inr (recv', m)) \<and> nextRecord recv' = bc_tail m recv \<and>
    recv_wf recv' k \<and> lappedCount recv' = wrap64 (lappedCount recv + 1)"
proof -
  define c p where "c = (2::int) ^ k" and "p = bc_latest m recv"
  have k: "5 \<le> k" "k \<le> 30" and rc: "rc_capacity recv = c" using wf by (auto simp: recv_wf_def c_def)
  note b = pow2_range [OF k, folded c_def] and reads = recv_reads [OF wf, folded c_def] and mask = recv_mask [OF wf, folded c_def]
  let ?r = "record_at m (rc_base recv + p mod c)" and ?lap = "recv\<lparr>lappedCount := wrap64 (lappedCount recv + 1)\<rparr>"
  have r: "rr_type ?r \<noteq> - 1" "8 \<le> rr_length ?r" "p mod c + aligned8 (rr_length ?r) \<le> c"
    "p + aligned8 (rr_length ?r) = bc_tail m recv" "0 \<le> p" "nextRecord recv \<le> p" "p < 4611686018427387904"
    using latest by (auto simp: latest_record_def Let_def rc p_def)
  have pm: "0 \<le> p mod c" "p mod c < c" using b by simp_all
  have al: "AlignInt32 (get_i32 m (rc_base recv + p mod c)) 8 = aligned8 (rr_length ?r)"
    using align_record [OF r(2) _ k(2), folded c_def] r(3) pm(1) by (simp add: record_at_def)
  have ty: "get_i32 m (rc_base recv + p mod c + 4) \<noteq> - 1" using r(1) by (simp add: record_at_def)
  have tail: "nextRecord recv < bc_tail m recv" using r(4,6) aligned8_ge8 [OF r(2)] by linarith
  have "wrap64 (bc_tail m recv) = bc_tail m recv"
    using r(3-5,7) aligned8_ge8 [OF r(2)] b(1,2) pm by (intro wrap64_id) linarith+
  note tail = tail this
  have "wrap64 (nextRecord recv + c) = nextRecord recv + c" using r nx b by (intro wrap64_id) linarith+
  then have "locate_record alone recv m = Inr (?lap, p, p mod c, m)"
    using lap by (simp add: locate_record_def Let_def reads mask lapped_def rc p_def bc_latest_def)
  then have first: "receiveNext alone recv m = Inr (True, ?lap\<lparr>cursor := p, nextRecord := bc_tail m recv, recordOffset := p mod c\<rparr>, m)"
    using tail ty r(4) by (simp add: receiveNext_def Let_def reads pm al)
  let ?last = "?lap\<lparr>cursor := p, nextRecord := bc_tail m recv, recordOffset := p mod c\<rparr>"
  have "recv_wf ?last k" "nextRecord ?last = bc_tail m ?last" using wf by (simp_all add: bc_tail_def recv_wf_def)
  then have "receiveNext alone ?last m = Inr (False, ?last, m)" by (rule receiveNext_idle)
  then show ?thesis
    using \<open>recv_wf ?last k\<close> by (subst scroll.simps, subst scroll.simps) (simp add: first)
qed

text \<open>
  (C28) Creating the copying receiver terminates when the transmitter pauses meanwhile: the
  receiver skips every message that was published before, and stands at the tail, so the first
  message it will deliver is the first one published afterwards. When the transmitter is less than
  a lap ahead it passes over all the messages in the buffer; when the transmitter has gone round
  since, it jumps to the latest message and counts one lap. In both cases the buffer holds whole
  records, as the transmitter leaves them.
\<close>

theorem NewCopyReceiver_scrolls:
  assumes wf: "recv_wf recv k" and nx: "0 \<le> nextRecord recv" and log: "scrollable m recv xs"
    and scr: "scratch + 4096 \<le> rc_base recv \<or> rc_base recv + Capacity (rc_buffer recv) \<le> scratch"
  shows "\<exists>bcast m'. NewCopyReceiver (\<lambda>_. alone) scratch recv m = Some (Inr (bcast, m')) \<and>
    nextRecord (cr_receiver bcast) = bc_tail m' recv \<and> bc_tail m' recv = bc_tail m recv \<and>
    recv_wf (cr_receiver bcast) k \<and> scratchBuffer bcast = Wrap scratch 4096 \<and>
    lappedCount (cr_receiver bcast) = (if lapped m recv then wrap64 (lappedCount recv + 1) else lappedCount recv)"
proof -
  define m1 where "m1 = write_bytes m scratch (replicate 4096 0)"
  have same: "m1 x = m x" if "rc_base recv \<le> x" "x < rc_base recv + Capacity (rc_buffer recv)" for x
    using scr that by (auto simp: m1_def write_bytes_apply)
  note counters = bc_counters_cong [OF wf same]
  have lap: "lapped m1 recv = lapped m recv" by (simp add: lapped_def counters)
  have "\<exists>recv'. scroll (\<lambda>_. alone) 0 recv m1 = Some (Inr (recv', m1)) \<and> nextRecord recv' = bc_tail m1 recv \<and> recv_wf recv' k \<and>
      lappedCount recv' = (if lapped m recv then wrap64 (lappedCount recv + 1) else lappedCount recv)"
  proof (cases "lapped m recv")
    case True
    then show ?thesis using log scroll_lapped [OF wf nx _ latest_record_cong [OF wf same]] by (simp add: lap scrollable_def)
  next
    case False
    then show ?thesis using log scroll_backlog [OF wf nx backlog_cong [OF wf same]] by (simp add: scrollable_def)
  qed
  then show ?thesis using counters(1) by (auto simp: NewCopyReceiver_def simp flip: m1_def)
qed

text \<open>A buffer of 64 bytes with one message, read from the start.\<close>

definition sample_receiver :: Receiver where
  "sample_receiver = \<lparr>rc_buffer = Wrap 0 192, rc_capacity = 64, rc_mask = 63, tailIntentCounterIndex = 64,
     tailCounterIndex = 72, latestCounterIndex = 80, recordOffset = 0, cursor = 0, nextRecord = 0, lappedCount = 0\<rparr>"

definition sample_copier :: CopyReceiver where
  "sample_copier = \<lparr>cr_receiver = sample_receiver, scratchBuffer = Wrap 1000 4096\<rparr>"

definition sample_bcast_mem :: mem where
  "sample_bcast_mem = store 4 (store 4 (store 8 (store 8 (\<lambda>_. 7) 72 16) 64 16) 4 5) 0 11"

definition sample_message :: ring_record where
  "sample_message = \<lparr>rr_length = 11, rr_type = 5, rr_payload = [7, 7, 7]\<rparr>"

lemma sample_receiver_ok: "recv_wf sample_receiver 6" "NewReceiver (Wrap 0 192) = Inr sample_receiver"
  "in_reach sample_bcast_mem sample_receiver 0 sample_message" "scratch_ok sample_copier sample_message"
  "cr_receiver sample_copier = sample_receiver" "nextRecord sample_receiver = 0" "bc_tail sample_bcast_mem sample_receiver = 16"
proof -
  show "recv_wf sample_receiver 6" "cr_receiver sample_copier = sample_receiver" "nextRecord sample_receiver = 0"
    by (simp_all add: recv_wf_def sample_receiver_def sample_copier_def Wrap_def)
  have "IsPowerOfTwo 64" by code_simp
  then show "NewReceiver (Wrap 0 192) = Inr sample_receiver"
    by (simp add: NewReceiver_def sample_receiver_def Wrap_def bc_trailerLength_def bc_tailCounterOffset_def
        bc_latestCounterOffset_def bc_tailIntentCounterOffset_def CacheLineLength_def SizeOfInt64_def checkCapacity_def wrap32_id)
  show "scratch_ok sample_copier sample_message"
    by (simp add: scratch_ok_def sample_copier_def sample_message_def sample_receiver_def Wrap_def)
  have "read_bytes sample_bcast_mem 8 3 = [7, 7, 7]"
    by (simp add: sample_bcast_mem_def numeral_3_eq_3 store_outside)
  moreover have "get_i32 sample_bcast_mem 0 = 11" "get_i32 sample_bcast_mem 4 = 5"
    "get_i64 sample_bcast_mem 72 = 16" "get_i64 sample_bcast_mem 64 = 16"
    by (simp_all add: sample_bcast_mem_def cell_same cell_other wrap32_id wrap64_id)
  ultimately show "in_reach sample_bcast_mem sample_receiver 0 sample_message" "bc_tail sample_bcast_mem sample_receiver = 16"
    by (simp_all add: in_reach_def pending_def record_at_def sample_receiver_def sample_message_def bc_tail_def bc_intent_def
        aligned8_def Wrap_def)
qed

theorem Receive_delivers_witness:
  "\<exists>m'. read_bytes m' 1000 3 = [7, 7, 7] \<and>
    Receive alone (\<lambda>ty _ _ len m s. Inr (s @ [(ty, len)], m)) sample_copier sample_bcast_mem [] =
      Inr (1, sample_copier\<lparr>cr_receiver := sample_receiver\<lparr>cursor := 0, nextRecord := 16, recordOffset := 0\<rparr>\<rparr>, [(5, 3)], m')"
  using Receive_delivers [of sample_copier 6 sample_bcast_mem 0 sample_message alone "\<lambda>ty _ _ len m s. Inr (s @ [(ty, len)], m)" "[]"]
  by (simp add: sample_receiver_ok keeps_up_alone) (simp add: sample_copier_def sample_message_def Wrap_def aligned8_def)

theorem Receive_lapped_panics_witness:
  "Receive (\<lambda>n m. if n = 1 then store 8 m 64 80 else m) (\<lambda>_ _ _ _ m s. Inr (s, m)) sample_copier sample_bcast_mem () =
     Inl (Panic ''Unable to keep up with broadcast buffer'')"
  by (rule Receive_lapped_panics [of _ 6])
     (simp_all add: sample_receiver_ok, simp add: sample_receiver_def bc_intent_def wrap64_id i64.get_put Wrap_def)

theorem Receive_overrun_panics_witness:
  "\<exists>e. \<forall>handler s. Receive (\<lambda>n m. if n = 9 then store 8 m 64 80 else m) handler sample_copier sample_bcast_mem s = Inl e"
proof (rule Receive_overrun_panics [of _ 6 _ 0 sample_message])
  have "(\<lambda>n m. if n \<le> 5 then if n = 9 then store 8 m 64 80 else m else m) = (\<lambda>(n::nat) m. m)" by (intro ext) auto
  then show "keeps_up (\<lambda>n m. if n \<le> 5 then if n = 9 then store 8 m 64 80 else m else m) (cr_receiver sample_copier)"
    by (simp only: keeps_up_alone)
qed (simp_all add: sample_receiver_ok, simp add: sample_receiver_def bc_intent_def wrap64_id i64.get_put Wrap_def)

text \<open>A buffer on which the transmitter has gone round: the latest record is at position 64.\<close>

definition sample_lapped_mem :: mem where
  "sample_lapped_mem = store 8 (store 8 (store 8 sample_bcast_mem 72 80) 64 80) 80 64"

lemma sample_lapped_ok: "lapped sample_lapped_mem sample_receiver" "latest_record sample_lapped_mem sample_receiver"
  "bc_tail sample_lapped_mem sample_receiver = 80"
proof -
  have "get_i32 sample_lapped_mem 0 = 11" "get_i32 sample_lapped_mem 4 = 5" "get_i64 sample_lapped_mem 72 = 80"
    "get_i64 sample_lapped_mem 64 = 80" "get_i64 sample_lapped_mem 80 = 64"
    by (simp_all add: sample_lapped_mem_def sample_bcast_mem_def cell_same cell_other wrap32_id wrap64_id)
  then show "lapped sample_lapped_mem sample_receiver" "latest_record sample_lapped_mem sample_receiver"
    "bc_tail sample_lapped_mem sample_receiver = 80"
    by (simp_all add: lapped_def latest_record_def Let_def record_at_def sample_receiver_def bc_tail_def bc_intent_def
        bc_latest_def aligned8_def Wrap_def)
qed

theorem NewCopyReceiver_scrolls_witness:
  "(\<exists>bcast m'. NewCopyReceiver (\<lambda>_. alone) 1000 sample_receiver sample_bcast_mem = Some (Inr (bcast, m')) \<and>
    nextRecord (cr_receiver bcast) = 16 \<and> lappedCount (cr_receiver bcast) = 0) \<and>
   (\<exists>bcast m'. NewCopyReceiver (\<lambda>_. alone) 1000 sample_receiver sample_lapped_mem = Some (Inr (bcast, m')) \<and>
    nextRecord (cr_receiver bcast) = 80 \<and> lappedCount (cr_receiver bcast) = 1)"
proof
  have away: "(1000::int) + 4096 \<le> rc_base sample_receiver \<or>
      rc_base sample_receiver + Capacity (rc_buffer sample_receiver) \<le> 1000" and zero: "lappedCount sample_receiver = 0"
    by (simp_all add: sample_receiver_def Wrap_def)
  have near: "\<not> lapped sample_bcast_mem sample_receiver"
    using sample_receiver_ok(3) by (simp add: in_reach_def lapped_def)
  have "backlog sample_bcast_mem sample_receiver [(0, sample_message)]"
    by (simp add: sample_receiver_ok) (simp add: located_def sample_message_def aligned8_def)
  then have "scrollable sample_bcast_mem sample_receiver [(0, sample_message)]" by (simp add: scrollable_def near)
  from NewCopyReceiver_scrolls [OF sample_receiver_ok(1) _ this away]
  show "\<exists>bcast m'. NewCopyReceiver (\<lambda>_. alone) 1000 sample_receiver sample_bcast_mem = Some (Inr (bcast, m')) \<and>
    nextRecord (cr_receiver bcast) = 16 \<and> lappedCount (cr_receiver bcast) = 0"
    by (auto simp: sample_receiver_ok near zero)
  have "scrollable sample_lapped_mem sample_receiver []" by (simp add: scrollable_def sample_lapped_ok)
  from NewCopyReceiver_scrolls [OF sample_receiver_ok(1) _ this away]
  show "\<exists>bcast m'. NewCopyReceiver (\<lambda>_. alone) 1000 sample_receiver sample_lapped_mem = Some (Inr (bcast, m')) \<and>
    nextRecord (cr_receiver bcast) = 80 \<and> lappedCount (cr_receiver bcast) = 1"
    by (auto simp: sample_receiver_ok sample_lapped_ok zero wrap64_id)
qed

end
