(* ===== verification/Channel_Uri.thy ===== *)
theory Channel_Uri
  imports Prelude "HOL-Library.AList" "HOL-Library.List_Lexorder"
begin

text \<open>
  \<open>aeron/channeluri.go\<close>: the parser and printer of channel URIs. Go strings are byte lists and
  their order is the lexicographic one; the parameter map is an association list with distinct
  keys. The parser appends \<open>string(c)\<close> for each byte, which is the UTF-8 encoding of the code
  point \<open>c\<close>.
\<close>

definition str :: "string \<Rightarrow> byte list" where
  "str s = map of_char s"

record ChannelUri =
  uri_prefix :: "byte list"
  uri_media :: "byte list"
  uri_params :: "(byte list \<times> byte list) list"

definition SpyQualifier :: "byte list" where "SpyQualifier = str ''aeron-spy''"
definition AeronScheme :: "byte list" where "AeronScheme = str ''aeron''"
definition IpcMedia :: "byte list" where "IpcMedia = str ''ipc''"
definition UdpMedia :: "byte list" where "UdpMedia = str ''udp''"
definition MdcControlModeParamName :: "byte list" where "MdcControlModeParamName = str ''control-mode''"
definition SessionIdParamName :: "byte list" where "SessionIdParamName = str ''session-id''"
definition EndpointParamName :: "byte list" where "EndpointParamName = str ''endpoint''"
definition spyPrefix :: "byte list" where "spyPrefix = SpyQualifier @ str '':''"
definition aeronPrefix :: "byte list" where "aeronPrefix = AeronScheme @ str '':''"

datatype parseState = parseStateMedia | parseStateParamsKey | parseStateParamsValue

definition HasPrefix :: "byte list \<Rightarrow> byte list \<Rightarrow> bool" where
  "HasPrefix s p \<longleftrightarrow> length p \<le> length s \<and> take (length p) s = p"

definition HasSuffix :: "byte list \<Rightarrow> byte list \<Rightarrow> bool" where
  "HasSuffix s p \<longleftrightarrow> length p \<le> length s \<and> drop (length s - length p) s = p"

text \<open>The conversion of a byte to a string.\<close>

definition string_of_byte :: "byte \<Rightarrow> byte list" where
  "string_of_byte c =
     (if c < 0x80 then [c] else [0xC0 OR drop_bit 6 c, 0x80 OR (c AND 0x3F)])"

definition parse_finish :: "ChannelUri \<Rightarrow> parseState \<Rightarrow> byte list \<Rightarrow> byte list \<Rightarrow> string + ChannelUri" where
  "parse_finish uri state key value =
     (case state of
        parseStateMedia \<Rightarrow> Inr (uri\<lparr>uri_media := value\<rparr>)
      | parseStateParamsValue \<Rightarrow> Inr (uri\<lparr>uri_params := AList.update key value (uri_params uri)\<rparr>)
      | parseStateParamsKey \<Rightarrow> Inl ''no more input found'')"

fun parse_loop :: "ChannelUri \<Rightarrow> parseState \<Rightarrow> byte list \<Rightarrow> byte list \<Rightarrow> byte list \<Rightarrow> string + ChannelUri" where
  "parse_loop uri state key value [] = parse_finish uri state key value"
| "parse_loop uri state key value (c # uriStr) =
     (case state of
        parseStateMedia \<Rightarrow>
          if c = 0x3F then parse_loop (uri\<lparr>uri_media := value\<rparr>) parseStateParamsKey key [] uriStr
          else if c = 0x3A then Inl ''encountered ':' within media definition''
          else parse_loop uri state key (value @ string_of_byte c) uriStr
      | parseStateParamsKey \<Rightarrow>
          if c = 0x3D then parse_loop uri parseStateParamsValue value [] uriStr
          else parse_loop uri state key (value @ string_of_byte c) uriStr
      | parseStateParamsValue \<Rightarrow>
          if c = 0x7C then
            parse_loop (uri\<lparr>uri_params := AList.update key value (uri_params uri)\<rparr>) parseStateParamsKey key [] uriStr
          else parse_loop uri state key (value @ string_of_byte c) uriStr)"

definition ParseChannelUri :: "byte list \<Rightarrow> string + ChannelUri" where
  "ParseChannelUri uriStr =
     (let uri = \<lparr>uri_prefix = [], uri_media = [], uri_params = []\<rparr>;
          (uri, uriStr) =
            (if HasPrefix uriStr spyPrefix
             then (uri\<lparr>uri_prefix := SpyQualifier\<rparr>, drop (length spyPrefix) uriStr) else (uri, uriStr))
      in if \<not> HasPrefix uriStr aeronPrefix then Inl ''aeron URIs must start with 'aeron:' ''
         else parse_loop uri parseStateMedia [] [] (drop (length aeronPrefix) uriStr))"

definition ChannelUri_Clone :: "ChannelUri \<Rightarrow> ChannelUri" where
  "ChannelUri_Clone uri =
     \<lparr>uri_prefix = uri_prefix uri, uri_media = uri_media uri,
      uri_params = fold (\<lambda>(k, v) res. AList.update k v res) (uri_params uri) []\<rparr>"

definition ChannelUri_IsIpc :: "ChannelUri \<Rightarrow> bool" where
  "ChannelUri_IsIpc uri \<longleftrightarrow> uri_media uri = IpcMedia"

definition ChannelUri_IsUdp :: "ChannelUri \<Rightarrow> bool" where
  "ChannelUri_IsUdp uri \<longleftrightarrow> uri_media uri = UdpMedia"

definition ChannelUri_SetPrefix :: "ChannelUri \<Rightarrow> byte list \<Rightarrow> ChannelUri" where
  "ChannelUri_SetPrefix uri p = uri\<lparr>uri_prefix := p\<rparr>"

definition ChannelUri_SetMedia :: "ChannelUri \<Rightarrow> byte list \<Rightarrow> ChannelUri" where
  "ChannelUri_SetMedia uri media = uri\<lparr>uri_media := media\<rparr>"

definition ChannelUri_Get :: "ChannelUri \<Rightarrow> byte list \<Rightarrow> byte list" where
  "ChannelUri_Get uri key = (case map_of (uri_params uri) key of None \<Rightarrow> [] | Some v \<Rightarrow> v)"

definition ChannelUri_Set :: "ChannelUri \<Rightarrow> byte list \<Rightarrow> byte list \<Rightarrow> ChannelUri" where
  "ChannelUri_Set uri key value = uri\<lparr>uri_params := AList.update key value (uri_params uri)\<rparr>"

definition ChannelUri_Remove :: "ChannelUri \<Rightarrow> byte list \<Rightarrow> ChannelUri" where
  "ChannelUri_Remove uri key = uri\<lparr>uri_params := AList.delete key (uri_params uri)\<rparr>"

definition ChannelUri_SetControlMode :: "ChannelUri \<Rightarrow> byte list \<Rightarrow> ChannelUri" where
  "ChannelUri_SetControlMode uri controlMode = ChannelUri_Set uri MdcControlModeParamName controlMode"

text \<open>Decimal notation of an integer.\<close>

fun digits :: "nat \<Rightarrow> byte list" where
  "digits n = (if n < 10 then [] else digits (n div 10)) @ [0x30 + of_nat (n mod 10)]"

definition Itoa :: "int \<Rightarrow> byte list" where
  "Itoa n = (if n < 0 then 0x2D # digits (nat (- n)) else digits (nat n))"

definition ChannelUri_SetSessionID :: "ChannelUri \<Rightarrow> int \<Rightarrow> ChannelUri" where
  "ChannelUri_SetSessionID uri sessionID = ChannelUri_Set uri SessionIdParamName (Itoa sessionID)"

definition print_params :: "ChannelUri \<Rightarrow> byte list" where
  "print_params uri =
     (let sortedKeys = sort (map fst (uri_params uri))
      in concat (map (\<lambda>k. k @ [0x3D] @ ChannelUri_Get uri k @ [0x7C]) sortedKeys))"

definition ChannelUri_String :: "ChannelUri \<Rightarrow> byte list" where
  "ChannelUri_String uri =
     (let result =
            (if uri_prefix uri \<noteq> []
             then uri_prefix uri @ (if \<not> HasSuffix (uri_prefix uri) [0x3A] then [0x3A] else []) else []);
          result = result @ aeronPrefix @ uri_media uri
      in if length (uri_params uri) > 0 then butlast (result @ [0x3F] @ print_params uri) else result)"

declare digits.simps [simp del]

subsection \<open>Well-formed URIs\<close>

definition ascii :: "byte list \<Rightarrow> bool" where
  "ascii s \<longleftrightarrow> list_all (\<lambda>c. c < 0x80) s"

definition media_ok :: "byte list \<Rightarrow> bool" where
  "media_ok s \<longleftrightarrow> ascii s \<and> 0x3F \<notin> set s \<and> 0x3A \<notin> set s"

definition key_ok :: "byte list \<Rightarrow> bool" where
  "key_ok s \<longleftrightarrow> ascii s \<and> 0x3D \<notin> set s"

definition value_ok :: "byte list \<Rightarrow> bool" where
  "value_ok s \<longleftrightarrow> ascii s \<and> 0x7C \<notin> set s"

text \<open>The shape of a parsed URI: no component holds the separator that ends it.\<close>

definition uri_shape :: "ChannelUri \<Rightarrow> bool" where
  "uri_shape uri \<longleftrightarrow>
     (uri_prefix uri = [] \<or> uri_prefix uri = SpyQualifier) \<and>
     0x3F \<notin> set (uri_media uri) \<and> 0x3A \<notin> set (uri_media uri) \<and> distinct (map fst (uri_params uri)) \<and>
     (\<forall>k v. map_of (uri_params uri) k = Some v \<longrightarrow> 0x3D \<notin> set k \<and> 0x7C \<notin> set v)"

text \<open>What the parser makes of the bytes of a component.\<close>

definition reencoded :: "byte list \<Rightarrow> byte list" where
  "reencoded s = concat (map string_of_byte s)"

definition uri_wf :: "ChannelUri \<Rightarrow> bool" where
  "uri_wf uri \<longleftrightarrow>
     (uri_prefix uri = [] \<or> uri_prefix uri = SpyQualifier) \<and> media_ok (uri_media uri) \<and>
     distinct (map fst (uri_params uri)) \<and>
     (\<forall>k v. map_of (uri_params uri) k = Some v \<longrightarrow> key_ok k \<and> value_ok v)"

lemma ascii_simps [simp]:
  "ascii []" "ascii (c # s) \<longleftrightarrow> c < 0x80 \<and> ascii s" "ascii (s @ t) \<longleftrightarrow> ascii s \<and> ascii t"
  by (auto simp: ascii_def)

lemma string_of_ascii [simp]: "c < 0x80 \<Longrightarrow> string_of_byte c = [c]"
  by (simp add: string_of_byte_def)

lemma reencoded_simps [simp]:
  "reencoded [] = []" "reencoded (c # s) = string_of_byte c @ reencoded s"
  by (simp_all add: reencoded_def)

lemma reencoded_ascii [simp]: "ascii s \<Longrightarrow> reencoded s = s"
  by (induction s) auto

lemma length_string_of_byte: "length (string_of_byte c) = (if c < 0x80 then 1 else 2)"
  by (simp add: string_of_byte_def)

lemma length_reencoded: "length s \<le> length (reencoded s) \<and> (length (reencoded s) = length s \<longleftrightarrow> ascii s)"
  by (induction s) (auto simp: length_string_of_byte)

text \<open>A byte above ASCII becomes two bytes above ASCII, so no separator comes into a component.\<close>

lemma string_of_byte_high:
  assumes "d \<in> set (string_of_byte c)" and "d < 0x80"
  shows "d = c"
proof (cases "c < 0x80")
  case False
  have high: "\<not> (0x80 OR x < 0x80)" "\<not> (0xC0 OR x < 0x80)" for x :: byte
    by (simp_all add: not_less le_word_or2 order.trans [OF _ le_word_or2])
  show ?thesis using assms False high by (auto simp: string_of_byte_def)
qed (use assms in simp)

lemma parse_media_any:
  "0x3F \<notin> set s \<Longrightarrow> 0x3A \<notin> set s \<Longrightarrow> parse_loop uri parseStateMedia key acc (s @ rest) =
     parse_loop uri parseStateMedia key (acc @ reencoded s) rest"
  by (induction s arbitrary: acc) auto

lemma parse_key_any:
  "0x3D \<notin> set s \<Longrightarrow> parse_loop uri parseStateParamsKey key acc (s @ rest) =
     parse_loop uri parseStateParamsKey key (acc @ reencoded s) rest"
  by (induction s arbitrary: acc) auto

lemma parse_value_any:
  "0x7C \<notin> set s \<Longrightarrow> parse_loop uri parseStateParamsValue key acc (s @ rest) =
     parse_loop uri parseStateParamsValue key (acc @ reencoded s) rest"
  by (induction s arbitrary: acc) auto

lemma parse_media:
  "media_ok s \<Longrightarrow> parse_loop uri parseStateMedia key acc (s @ rest) =
     parse_loop uri parseStateMedia key (acc @ s) rest"
  using parse_media_any [of s] by (simp add: media_ok_def)

lemma parse_key:
  "key_ok s \<Longrightarrow> parse_loop uri parseStateParamsKey key acc (s @ rest) =
     parse_loop uri parseStateParamsKey key (acc @ s) rest"
  using parse_key_any [of s] by (simp add: key_ok_def)

lemma parse_value:
  "value_ok s \<Longrightarrow> parse_loop uri parseStateParamsValue key acc (s @ rest) =
     parse_loop uri parseStateParamsValue key (acc @ s) rest"
  using parse_value_any [of s] by (simp add: value_ok_def)

lemma parse_params:
  assumes "ks \<noteq> []" and "\<And>k. k \<in> set ks \<Longrightarrow> key_ok k \<and> value_ok (g k)"
  shows "parse_loop uri parseStateParamsKey key [] (butlast (concat (map (\<lambda>k. k @ [0x3D] @ g k @ [0x7C]) ks))) =
     Inr (uri\<lparr>uri_params := fold (\<lambda>k. AList.update k (g k)) ks (uri_params uri)\<rparr>)"
  using assms
proof (induction ks arbitrary: uri key rule: list_nonempty_induct)
  case (single k)
  have "butlast (k @ [0x3D] @ g k @ [0x7C]) = k @ 0x3D # g k @ []" by (simp add: butlast_append)
  then show ?case
    using single parse_key [of k uri key "[]" "0x3D # g k @ []"] parse_value [of "g k" uri k "[]" "[]"]
    by (simp add: parse_finish_def)
next
  case (cons k ks)
  let ?rest = "concat (map (\<lambda>k. k @ [0x3D] @ g k @ [0x7C]) ks)"
  have "?rest \<noteq> []" using cons.hyps by (cases ks) auto
  then have "butlast (concat (map (\<lambda>k. k @ [0x3D] @ g k @ [0x7C]) (k # ks))) =
      k @ 0x3D # g k @ 0x7C # butlast ?rest"
    by (simp add: butlast_append)
  then show ?case
    using cons parse_key [of k uri key "[]" "0x3D # g k @ 0x7C # butlast ?rest"]
      parse_value [of "g k" uri k "[]" "0x7C # butlast ?rest"]
    by simp
qed

lemma map_of_fold_update:
  "map_of (fold (\<lambda>k. AList.update k (g k)) ks al) k = (if k \<in> set ks then Some (g k) else map_of al k)"
  by (induction ks arbitrary: al) (auto simp: update_conv')

text \<open>Every parsed URI is well formed.\<close>

lemma parse_loop_wf:
  assumes "parse_loop uri state key acc s = Inr uri'" and "ascii s" and "uri_wf uri"
    and "case state of parseStateMedia \<Rightarrow> media_ok acc | parseStateParamsKey \<Rightarrow> key_ok acc
         | parseStateParamsValue \<Rightarrow> key_ok key \<and> value_ok acc"
  shows "uri_wf uri'"
  using assms
proof (induction uri state key acc s rule: parse_loop.induct)
  case (1 uri state key acc)
  then show ?case
    by (auto simp: parse_finish_def uri_wf_def update_conv' distinct_update split: parseState.splits if_splits)
next
  case (2 uri state key acc c uriStr)
  have put: "uri_wf (uri\<lparr>uri_params := AList.update key acc (uri_params uri)\<rparr>)" if "key_ok key" "value_ok acc"
    using 2(9) that by (auto simp: uri_wf_def update_conv' distinct_update)
  show ?case
  proof (cases state)
    case parseStateMedia
    then show ?thesis using 2 by (auto simp: media_ok_def key_ok_def uri_wf_def split: if_splits)
  next
    case parseStateParamsKey
    then show ?thesis using 2 by (auto simp: key_ok_def value_ok_def split: if_splits)
  next
    case parseStateParamsValue
    then show ?thesis using 2 put by (auto simp: key_ok_def value_ok_def split: if_splits)
  qed
qed

lemma ParseChannelUri_wf:
  assumes "ParseChannelUri s = Inr uri" and "ascii s"
  shows "uri_wf uri"
proof -
  have dr: "ascii (drop n s)" for n using assms(2) by (auto simp: ascii_def list_all_iff dest: in_set_dropD)
  have start: "uri_wf \<lparr>uri_prefix = p, uri_media = [], uri_params = []\<rparr>" if "p = [] \<or> p = SpyQualifier" for p
    using that by (simp add: uri_wf_def media_ok_def)
  have "media_ok []" by (simp add: media_ok_def)
  then show ?thesis
    using assms(1) dr start parse_loop_wf [of _ parseStateMedia "[]" "[]" _ uri]
    by (auto simp: ParseChannelUri_def Let_def split: if_splits)
qed

lemma parse_loop_shape:
  assumes "parse_loop uri state key acc s = Inr uri'" and "uri_shape uri"
    and "case state of parseStateMedia \<Rightarrow> 0x3F \<notin> set acc \<and> 0x3A \<notin> set acc
         | parseStateParamsKey \<Rightarrow> 0x3D \<notin> set acc
         | parseStateParamsValue \<Rightarrow> 0x3D \<notin> set key \<and> 0x7C \<notin> set acc"
  shows "uri_shape uri'"
  using assms
proof (induction uri state key acc s rule: parse_loop.induct)
  case (1 uri state key acc)
  then show ?case
    by (auto simp: parse_finish_def uri_shape_def update_conv' distinct_update split: parseState.splits if_splits)
next
  case (2 uri state key acc c uriStr)
  have put: "uri_shape (uri\<lparr>uri_params := AList.update key acc (uri_params uri)\<rparr>)"
    if "0x3D \<notin> set key" "0x7C \<notin> set acc"
    using 2(8) that by (auto simp: uri_shape_def update_conv' distinct_update)
  have sep: "d \<notin> set (string_of_byte c)" if "d \<noteq> c" "d < 0x80" for d using that string_of_byte_high by blast
  show ?case
  proof (cases state)
    case parseStateMedia
    then show ?thesis using 2 sep [of "0x3F"] sep [of "0x3A"] by (auto simp: uri_shape_def split: if_splits)
  next
    case parseStateParamsKey
    then show ?thesis using 2 sep [of "0x3D"] by (auto split: if_splits)
  next
    case parseStateParamsValue
    then show ?thesis using 2 put sep [of "0x7C"] by (auto split: if_splits)
  qed
qed

lemma ParseChannelUri_shape:
  assumes "ParseChannelUri s = Inr uri"
  shows "uri_shape uri"
proof -
  have start: "uri_shape \<lparr>uri_prefix = p, uri_media = [], uri_params = []\<rparr>" if "p = [] \<or> p = SpyQualifier" for p
    using that by (simp add: uri_shape_def)
  show ?thesis
    using assms start parse_loop_shape [of _ parseStateMedia "[]" "[]" _ uri]
    by (auto simp: ParseChannelUri_def Let_def split: if_splits)
qed

subsection \<open>Properties\<close>

text \<open>Two URIs with the same prefix, media and parameters.\<close>

definition same_uri :: "ChannelUri \<Rightarrow> ChannelUri \<Rightarrow> bool" where
  "same_uri u v \<longleftrightarrow>
     uri_prefix u = uri_prefix v \<and> uri_media u = uri_media v \<and> map_of (uri_params u) = map_of (uri_params v)"

lemma ParseChannelUri_prefix:
  "ParseChannelUri (aeronPrefix @ rest) =
     parse_loop \<lparr>uri_prefix = [], uri_media = [], uri_params = []\<rparr> parseStateMedia [] [] rest"
  "ParseChannelUri (spyPrefix @ aeronPrefix @ rest) =
     parse_loop \<lparr>uri_prefix = SpyQualifier, uri_media = [], uri_params = []\<rparr> parseStateMedia [] [] rest"
proof -
  have "HasPrefix (aeronPrefix @ rest) aeronPrefix" "HasPrefix (spyPrefix @ aeronPrefix @ rest) spyPrefix"
    by (simp_all add: HasPrefix_def)
  moreover have "aeronPrefix ! 5 \<noteq> spyPrefix ! 5" "length aeronPrefix = 6" "length spyPrefix = 10" by code_simp+
  then have "\<not> HasPrefix (aeronPrefix @ rest) spyPrefix"
    by (auto simp: HasPrefix_def nth_append dest: arg_cong [where f = "\<lambda>s. s ! 5"])
  ultimately show "ParseChannelUri (aeronPrefix @ rest) =
      parse_loop \<lparr>uri_prefix = [], uri_media = [], uri_params = []\<rparr> parseStateMedia [] [] rest"
    "ParseChannelUri (spyPrefix @ aeronPrefix @ rest) =
      parse_loop \<lparr>uri_prefix = SpyQualifier, uri_media = [], uri_params = []\<rparr> parseStateMedia [] [] rest"
    by (simp_all add: ParseChannelUri_def Let_def)
qed

lemma parse_printed_prefix:
  assumes "uri_prefix uri = [] \<or> uri_prefix uri = SpyQualifier"
    and "ChannelUri_String uri = (if uri_prefix uri = [] then [] else spyPrefix) @ aeronPrefix @ rest"
  shows "ParseChannelUri (ChannelUri_String uri) =
     parse_loop \<lparr>uri_prefix = uri_prefix uri, uri_media = [], uri_params = []\<rparr> parseStateMedia [] [] rest"
  using assms(1) unfolding assms(2) by (auto simp: ParseChannelUri_prefix)

lemma print_shape:
  assumes "uri_wf uri"
  shows "ChannelUri_String uri = (if uri_prefix uri = [] then [] else spyPrefix) @ aeronPrefix @ uri_media uri @
     (if uri_params uri = [] then [] else 0x3F # butlast (print_params uri))"
proof -
  have spy: "SpyQualifier \<noteq> []" "\<not> HasSuffix SpyQualifier [0x3A]" "SpyQualifier @ [0x3A] = spyPrefix" by code_simp+
  have "print_params uri \<noteq> []" if "uri_params uri \<noteq> []"
    using that by (cases "sort (map fst (uri_params uri))")
      (auto simp: print_params_def Let_def dest: arg_cong [where f = length])
  then show ?thesis
    using assms spy by (auto simp: ChannelUri_String_def uri_wf_def Let_def butlast_append)
qed

lemma parse_print:
  assumes wf: "uri_wf uri"
  shows "\<exists>uri'. ParseChannelUri (ChannelUri_String uri) = Inr uri' \<and> same_uri uri' uri"
proof -
  let ?ks = "sort (map fst (uri_params uri))" and ?u = "\<lparr>uri_prefix = uri_prefix uri, uri_media = [], uri_params = []\<rparr>"
  have media: "media_ok (uri_media uri)" and prefix: "uri_prefix uri = [] \<or> uri_prefix uri = SpyQualifier"
    using wf by (simp_all add: uri_wf_def)
  note parse = parse_printed_prefix [OF prefix print_shape [OF wf]]
  show ?thesis
  proof (cases "uri_params uri = []")
    case True
    then show ?thesis
      using parse parse_media [OF media, of ?u "[]" "[]" "[]"] by (auto simp: parse_finish_def same_uri_def)
  next
    case False
    have ks: "?ks \<noteq> []" using False by (auto dest: arg_cong [where f = length])
    have ok: "key_ok k \<and> value_ok (ChannelUri_Get uri k)" if "k \<in> set ?ks" for k
      using that wf by (auto simp: uri_wf_def ChannelUri_Get_def split: option.splits simp flip: dom_map_of_conv_image_fst)
    have "ParseChannelUri (ChannelUri_String uri) =
        Inr (?u\<lparr>uri_media := uri_media uri, uri_params := fold (\<lambda>k. AList.update k (ChannelUri_Get uri k)) ?ks []\<rparr>)"
      using parse False parse_media [OF media, of ?u "[]" "[]" "0x3F # butlast (print_params uri)"]
        parse_params [OF ks ok, of "?u\<lparr>uri_media := uri_media uri\<rparr>" "[]"]
      by (simp add: print_params_def)
    moreover have "map_of (fold (\<lambda>k. AList.update k (ChannelUri_Get uri k)) ?ks []) = map_of (uri_params uri)"
    proof (rule ext)
      fix k
      have "k \<in> set ?ks \<longleftrightarrow> map_of (uri_params uri) k \<noteq> None" by (simp add: map_of_eq_None_iff)
      then show "map_of (fold (\<lambda>k. AList.update k (ChannelUri_Get uri k)) ?ks []) k = map_of (uri_params uri) k"
        unfolding map_of_fold_update by (auto simp: ChannelUri_Get_def)
    qed
    ultimately show ?thesis by (simp add: same_uri_def)
  qed
qed

text \<open>
  (C30) Every channel string the parser accepts, whatever its bytes, gives a well-formed URI: the
  prefix is empty or the spy qualifier, the media has no \<open>?\<close> and no \<open>:\<close>, keys are distinct and
  have no \<open>=\<close>, values no \<open>|\<close>. When the string is ASCII so are the media, keys and values.
\<close>

theorem ParseChannelUri_well_formed:
  assumes "ParseChannelUri s = Inr uri"
  shows "uri_shape uri \<and> (ascii s \<longrightarrow> uri_wf uri)"
  using ParseChannelUri_shape [OF assms] ParseChannelUri_wf [OF assms] by blast

theorem ParseChannelUri_well_formed_witness:
  "\<exists>uri. ParseChannelUri (str ''aeron:udp?endpoint=a:1|mtu=8'') = Inr uri \<and> uri_shape uri \<and> uri_wf uri"
proof -
  let ?s = "str ''aeron:udp?endpoint=a:1|mtu=8''"
  have "isl (ParseChannelUri ?s) = False" "ascii ?s" by code_simp+
  then obtain uri where "ParseChannelUri ?s = Inr uri" by (cases "ParseChannelUri ?s") auto
  with \<open>ascii ?s\<close> show ?thesis using ParseChannelUri_well_formed by blast
qed

text \<open>
  (C29) Printing a parsed URI loses nothing: whatever URI an ASCII channel string was parsed to,
  its printed form is accepted by the parser again and gives the same prefix, media and
  parameters, although the printer sorts the parameters and drops overwritten ones.
\<close>

theorem ParseChannelUri_String_roundtrip:
  assumes "ParseChannelUri s = Inr uri" and "ascii s"
  shows "\<exists>uri'. ParseChannelUri (ChannelUri_String uri) = Inr uri' \<and> same_uri uri' uri"
  using parse_print [OF ParseChannelUri_wf [OF assms]] .

definition sample_uri :: "byte list" where
  "sample_uri = str ''aeron-spy:aeron:udp?mtu=8|endpoint=a:1|mtu=9''"

theorem ParseChannelUri_String_roundtrip_witness:
  "\<exists>uri. ParseChannelUri sample_uri = Inr uri \<and>
    (\<exists>uri'. ParseChannelUri (ChannelUri_String uri) = Inr uri' \<and> same_uri uri' uri)"
proof -
  have "isl (ParseChannelUri sample_uri) = False" "ascii sample_uri" by code_simp+
  then obtain uri where "ParseChannelUri sample_uri = Inr uri" by (cases "ParseChannelUri sample_uri") auto
  with \<open>ascii sample_uri\<close> show ?thesis using ParseChannelUri_String_roundtrip by blast
qed

text \<open>
  (C39) Bytes outside ASCII do not survive parsing. The parser converts each byte of the media, of
  a key and of a value to a string of its own, so a byte from \<open>0x80\<close> on becomes two: for a URI of
  one parameter the parsed media, key and value are the re-encoded ones, and the printed URI is the
  parsed string exactly when the media, the key and the value are ASCII.
\<close>

theorem ParseChannelUri_mangles_utf8:
  assumes "0x3F \<notin> set media" and "0x3A \<notin> set media" and "0x3D \<notin> set key" and "0x7C \<notin> set val"
  shows "\<exists>uri. ParseChannelUri (aeronPrefix @ media @ [0x3F] @ key @ [0x3D] @ val) = Inr uri \<and>
     uri = \<lparr>uri_prefix = [], uri_media = reencoded media, uri_params = [(reencoded key, reencoded val)]\<rparr> \<and>
     (ChannelUri_String uri = aeronPrefix @ media @ [0x3F] @ key @ [0x3D] @ val \<longleftrightarrow>
       ascii media \<and> ascii key \<and> ascii val)"
proof -
  let ?uri = "\<lparr>uri_prefix = [], uri_media = reencoded media, uri_params = [(reencoded key, reencoded val)]\<rparr>"
  have "parse_loop \<lparr>uri_prefix = [], uri_media = [], uri_params = []\<rparr> parseStateMedia [] [] (media @ 0x3F # key @ 0x3D # val) =
      parse_loop \<lparr>uri_prefix = [], uri_media = reencoded media, uri_params = []\<rparr> parseStateParamsKey [] [] (key @ 0x3D # val)"
    using parse_media_any [OF assms(1,2)] by simp
  also have "\<dots> = parse_loop \<lparr>uri_prefix = [], uri_media = reencoded media, uri_params = []\<rparr>
      parseStateParamsValue (reencoded key) [] (val @ [])"
    using parse_key_any [OF assms(3)] by simp
  also have "\<dots> = Inr ?uri"
    by (subst parse_value_any [OF assms(4)]) (simp add: parse_finish_def)
  finally have parsed: "ParseChannelUri (aeronPrefix @ media @ [0x3F] @ key @ [0x3D] @ val) = Inr ?uri"
    by (simp add: ParseChannelUri_prefix)
  have printed: "ChannelUri_String ?uri =
      aeronPrefix @ reencoded media @ [0x3F] @ reencoded key @ [0x3D] @ reencoded val"
    by (simp add: ChannelUri_String_def print_params_def ChannelUri_Get_def butlast_append)
  have len: "length (reencoded media) + length (reencoded key) + length (reencoded val) =
        length media + length key + length val \<longleftrightarrow> ascii media \<and> ascii key \<and> ascii val"
    using length_reencoded [of media] length_reencoded [of key] length_reencoded [of val] by linarith
  have "ChannelUri_String ?uri = aeronPrefix @ media @ [0x3F] @ key @ [0x3D] @ val \<longleftrightarrow>
      ascii media \<and> ascii key \<and> ascii val"
  proof
    assume "ChannelUri_String ?uri = aeronPrefix @ media @ [0x3F] @ key @ [0x3D] @ val"
    from arg_cong [OF this, of length] show "ascii media \<and> ascii key \<and> ascii val"
      unfolding printed using len by simp
  next
    assume "ascii media \<and> ascii key \<and> ascii val"
    then show "ChannelUri_String ?uri = aeronPrefix @ media @ [0x3F] @ key @ [0x3D] @ val"
      unfolding printed by simp
  qed
  then show ?thesis using parsed by blast
qed

theorem ParseChannelUri_mangles_utf8_witness:
  "\<exists>uri. ParseChannelUri (aeronPrefix @ [] @ [0x3F] @ [0x61] @ [0x3D] @ [0xC3, 0xA9]) = Inr uri \<and>
     uri = \<lparr>uri_prefix = [], uri_media = [], uri_params = [([0x61], [0xC3, 0x83, 0xC2, 0xA9])]\<rparr> \<and>
     ChannelUri_String uri \<noteq> aeronPrefix @ [] @ [0x3F] @ [0x61] @ [0x3D] @ [0xC3, 0xA9]"
proof -
  have "reencoded [0x61] = [0x61]" "reencoded [0xC3, 0xA9] = [0xC3, 0x83, 0xC2, 0xA9]"
    "\<not> ascii [0xC3, 0xA9]" by code_simp+
  then show ?thesis using ParseChannelUri_mangles_utf8 [of "[]" "[0x61]" "[0xC3, 0xA9]"] by auto
qed

end
