(* ===== verification/Driver_Events.thy ===== *)
theory Driver_Events
  imports Broadcast Commands Channel_Uri
begin

text \<open>
  \<open>aeron/driver/listeneradapter.go\<close>: the adapter that takes the driver's events from the broadcast
  buffer, decodes them and calls the method of the listener. The listener is a parameter; the
  calls it can receive are a datatype with one constructor per method of the interface.
\<close>

subsection \<open>The adapter\<close>

definition ev_OnError :: int where [simp]: "ev_OnError = 0x0F01"
definition ev_OnAvailableImage :: int where [simp]: "ev_OnAvailableImage = 0x0F02"
definition ev_OnPublicationReady :: int where [simp]: "ev_OnPublicationReady = 0x0F03"
definition ev_OnOperationSuccess :: int where [simp]: "ev_OnOperationSuccess = 0x0F04"
definition ev_OnUnavailableImage :: int where [simp]: "ev_OnUnavailableImage = 0x0F05"
definition ev_OnExclusivePublicationReady :: int where [simp]: "ev_OnExclusivePublicationReady = 0x0F06"
definition ev_OnSubscriptionReady :: int where [simp]: "ev_OnSubscriptionReady = 0x0F07"
definition ev_OnCounterReady :: int where [simp]: "ev_OnCounterReady = 0x0F08"
definition ev_OnUnavailableCounter :: int where [simp]: "ev_OnUnavailableCounter = 0x0F09"
definition ev_OnClientTimeout :: int where [simp]: "ev_OnClientTimeout = 0x0F0A"

text \<open>
  The arguments are in the order of the interface: stream, session, position limit counter,
  channel status indicator, log file, correlation id and registration id for a publication;
  stream, session, log file, source, position counter, subscription and correlation id for an image.
\<close>

datatype listener_call =
    OnNewPublication int int int int "byte list" int int
  | OnNewExclusivePublication int int int int "byte list" int int
  | OnAvailableImage int int "byte list" "byte list" int int int
  | OnUnavailableImage int int
  | OnOperationSuccess int
  | OnErrorResponse int int "byte list"
  | OnChannelEndpointError int "byte list"
  | OnSubscriptionReady int int
  | OnAvailableCounter int int
  | OnUnavailableCounter int int
  | OnClientTimeout int

fun strings_Contains :: "byte list \<Rightarrow> byte list \<Rightarrow> bool" where
  "strings_Contains [] sub = (sub = [])"
| "strings_Contains (b # s) sub = (take (length sub) (b # s) = sub \<or> strings_Contains s sub)"

definition decode_publication ::
  "(int \<Rightarrow> int \<Rightarrow> int \<Rightarrow> int \<Rightarrow> byte list \<Rightarrow> int \<Rightarrow> int \<Rightarrow> listener_call) \<Rightarrow> mem \<Rightarrow> buffer \<Rightarrow> int \<Rightarrow> listener_call res" where
  "decode_publication call m buf offset =
     bindR (publicationReady_Wrap m buf offset) (\<lambda>msg.
     let streamID = Int32Field_Get m (pready_streamID msg);
         sessionID = Int32Field_Get m (pready_sessionID msg);
         positionLimitCounterID = Int32Field_Get m (pready_publicationLimitOffset msg);
         channelStatusIndicatorID = Int32Field_Get m (pready_channelStatusIndicatorID msg);
         correlationID = Int64Field_Get m (pready_correlationID msg);
         registrationID = Int64Field_Get m (pready_registrationID msg)
     in bindR (StringField_Get m (pready_logFileName msg)) (\<lambda>logFileName.
        Inr (call streamID sessionID positionLimitCounterID channelStatusIndicatorID logFileName correlationID registrationID)))"

definition decode_image :: "mem \<Rightarrow> buffer \<Rightarrow> int \<Rightarrow> listener_call res" where
  "decode_image m buf offset =
     bindR (imageReadyHeader_Wrap m buf offset) (\<lambda>header.
     let streamID = Int32Field_Get m (iready_streamID header);
         sessionID = Int32Field_Get m (iready_sessionID header)
     in bindR (StringField_Get m (iready_logFile header)) (\<lambda>logFileName.
        bindR (StringField_Get m (iready_sourceIdentity header)) (\<lambda>sourceIdentity.
        let subsPosID = Int32Field_Get m (iready_subsPosID header);
            subsRegID = Int64Field_Get m (iready_subsRegistrationID header);
            correlationID = Int64Field_Get m (iready_correlationID header)
        in Inr (OnAvailableImage streamID sessionID logFileName sourceIdentity subsPosID subsRegID correlationID))))"

definition decode_error :: "mem \<Rightarrow> buffer \<Rightarrow> int \<Rightarrow> listener_call res" where
  "decode_error m buf offset =
     bindR (errorMessage_Wrap m buf offset) (\<lambda>msg.
     let code = Int32Field_Get m (err_errorCode msg);
         correlationID = Int64Field_Get m (err_offendingCommandCorrelationID msg)
     in if code = ErrorCodeChannelEndpointError then
          bindR (StringField_Get m (err_errorMessage msg)) (\<lambda>text. Inr (OnChannelEndpointError correlationID text))
        else bindR (StringField_Get m (err_errorMessage msg)) (\<lambda>text.
          Inr (if strings_Contains text (str ''Address already in use'') then OnChannelEndpointError correlationID text
               else OnErrorResponse correlationID code text)))"

definition decode_event :: "int \<Rightarrow> mem \<Rightarrow> buffer \<Rightarrow> int \<Rightarrow> listener_call option res" where
  "decode_event msgTypeID m buf offset =
     (if msgTypeID = ev_OnPublicationReady then
        bindR (decode_publication OnNewPublication m buf offset) (\<lambda>c. Inr (Some c))
      else if msgTypeID = ev_OnExclusivePublicationReady then
        bindR (decode_publication OnNewExclusivePublication m buf offset) (\<lambda>c. Inr (Some c))
      else if msgTypeID = ev_OnSubscriptionReady then
        bindR (subscriptionReady_Wrap buf offset) (\<lambda>msg.
        Inr (Some (OnSubscriptionReady (Int64Field_Get m (sready_correlationID msg))
                     (Int32Field_Get m (sready_channelStatusIndicatorID msg)))))
      else if msgTypeID = ev_OnAvailableImage then bindR (decode_image m buf offset) (\<lambda>c. Inr (Some c))
      else if msgTypeID = ev_OnOperationSuccess then
        bindR (CorrelatedMessage_Wrap buf offset) (\<lambda>msg.
        Inr (Some (OnOperationSuccess (Int64Field_Get m (cmsg_CorrelationID msg)))))
      else if msgTypeID = ev_OnUnavailableImage then
        bindR (ImageMessage_Wrap m buf offset) (\<lambda>msg.
        Inr (Some (OnUnavailableImage (Int64Field_Get m (imsg_CorrelationID msg))
                     (Int64Field_Get m (imsg_SubscriptionRegistrationID msg)))))
      else if msgTypeID = ev_OnError then bindR (decode_error m buf offset) (\<lambda>c. Inr (Some c))
      else if msgTypeID = ev_OnCounterReady then
        bindR (counterUpdate_Wrap buf offset) (\<lambda>msg.
        Inr (Some (OnAvailableCounter (Int64Field_Get m (cupd_correlationID msg)) (Int32Field_Get m (cupd_counterID msg)))))
      else if msgTypeID = ev_OnUnavailableCounter then
        bindR (counterUpdate_Wrap buf offset) (\<lambda>msg.
        Inr (Some (OnUnavailableCounter (Int64Field_Get m (cupd_correlationID msg)) (Int32Field_Get m (cupd_counterID msg)))))
      else if msgTypeID = ev_OnClientTimeout then
        bindR (clientTimeout_Wrap buf offset) (\<lambda>msg. Inr (Some (OnClientTimeout (Int64Field_Get m (ctmo_clientID msg)))))
      else Inr None)"

type_synonym 's listener = "listener_call \<Rightarrow> mem \<Rightarrow> 's \<Rightarrow> ('s \<times> mem) res"

definition adapter_handler :: "'s listener \<Rightarrow> 's broadcast_handler" where
  "adapter_handler listener msgTypeID buf offset len m s =
     bindR (decode_event msgTypeID m buf offset) (\<lambda>c. case c of None \<Rightarrow> Inr (s, m) | Some c \<Rightarrow> listener c m s)"

definition ReceiveMessages :: "(nat \<Rightarrow> mem \<Rightarrow> mem) \<Rightarrow> 's listener \<Rightarrow> CopyReceiver \<Rightarrow> mem \<Rightarrow> 's \<Rightarrow>
    (int \<times> CopyReceiver \<times> 's \<times> mem) res" where
  "ReceiveMessages env listener bcast m s = Receive env (adapter_handler listener) bcast m s"

subsection \<open>Events and their messages\<close>

text \<open>The messages a driver sends for an event: type id and fields.\<close>

inductive announces :: "listener_call \<Rightarrow> int \<Rightarrow> wire list \<Rightarrow> bool" where
  "announces (OnNewPublication stream session limit status fname cid rid) 0x0F03
     [I64 cid, I64 rid, I32 session, I32 stream, I32 limit, I32 status, Text fname]"
| "announces (OnNewExclusivePublication stream session limit status fname cid rid) 0x0F06
     [I64 cid, I64 rid, I32 session, I32 stream, I32 limit, I32 status, Text fname]"
| "announces (OnAvailableImage stream session fname src pos sub cid) 0x0F02
     [I64 cid, I32 session, I32 stream, I64 sub, I32 pos, Text fname, Text src]"
| "announces (OnUnavailableImage cid sub) 0x0F05 [I64 cid, I64 sub, I32 stream, Text channel]"
| "announces (OnOperationSuccess cid) 0x0F04 [I64 client, I64 cid]"
| "announces (OnChannelEndpointError cid reason) 0x0F01 [I64 cid, I32 4, Text reason]"
| "code \<noteq> 4 \<Longrightarrow> strings_Contains reason (str ''Address already in use'') \<Longrightarrow>
   announces (OnChannelEndpointError cid reason) 0x0F01 [I64 cid, I32 code, Text reason]"
| "code \<noteq> 4 \<Longrightarrow> \<not> strings_Contains reason (str ''Address already in use'') \<Longrightarrow>
   announces (OnErrorResponse cid code reason) 0x0F01 [I64 cid, I32 code, Text reason]"
| "announces (OnSubscriptionReady cid status) 0x0F07 [I64 cid, I32 status]"
| "announces (OnAvailableCounter cid counter) 0x0F08 [I64 cid, I32 counter]"
| "announces (OnUnavailableCounter cid counter) 0x0F09 [I64 cid, I32 counter]"
| "announces (OnClientTimeout client) 0x0F0A [I64 client]"

lemmas wrap_defs = publicationReady_Wrap_def imageReadyHeader_Wrap_def errorMessage_Wrap_def subscriptionReady_Wrap_def
  counterUpdate_Wrap_def clientTimeout_Wrap_def CorrelatedMessage_Wrap_def ImageMessage_Wrap_def

lemmas decode_defs = decode_event_def decode_publication_def decode_image_def decode_error_def wrap_defs
  Int32Field_Get_def Int64Field_Get_def Let_def

lemma decode_announced:
  assumes "announces e ty ws" and "wire_at m buf 0 ws" and "Capacity buf < 2147483648"
  shows "decode_event ty m buf 0 = Inr (Some e)"
  using assms
proof (induction rule: announces.induct)
  case (1 stream session limit status fname cid rid)
  then show ?case
    using StringField_wire [of 32 buf m fname "[]"] by (simp add: decode_defs Int64Field_Wrap_ok Int32Field_Wrap_ok)
next
  case (2 stream session limit status fname cid rid)
  then show ?case
    using StringField_wire [of 32 buf m fname "[]"] by (simp add: decode_defs Int64Field_Wrap_ok Int32Field_Wrap_ok)
next
  case (3 stream session fname src pos sub cid)
  then show ?case
    using StringField_wire [of 28 buf m fname "[Text src]"] StringField_wire [of "32 + int (length fname)" buf m src "[]"]
    by (simp add: decode_defs Int64Field_Wrap_ok Int32Field_Wrap_ok)
next
  case (4 cid sub stream channel)
  then show ?case
    using StringField_wire [of 20 buf m channel "[]"] by (simp add: decode_defs Int64Field_Wrap_ok Int32Field_Wrap_ok)
next
  case (6 cid reason)
  then show ?case
    using StringField_wire [of 12 buf m reason "[]"] by (simp add: decode_defs Int64Field_Wrap_ok Int32Field_Wrap_ok)
next
  case (7 code reason cid)
  then show ?case
    using StringField_wire [of 12 buf m reason "[]"] by (simp add: decode_defs Int64Field_Wrap_ok Int32Field_Wrap_ok)
next
  case (8 code reason cid)
  then show ?case
    using StringField_wire [of 12 buf m reason "[]"] by (simp add: decode_defs Int64Field_Wrap_ok Int32Field_Wrap_ok)
qed (simp_all add: decode_defs Int64Field_Wrap_ok Int32Field_Wrap_ok)

subsection \<open>Properties\<close>

text \<open>
  (C13) Every event of the driver reaches the listener once and with its own arguments: if the
  next message on the broadcast buffer announces an event, one call of \<open>ReceiveMessages\<close> calls
  exactly the listener method of that event with the fields of the message. This covers all
  ten message types, both kinds of errors included, and every interleaving with a
  transmitter that stays less than a lap ahead.
\<close>

theorem ReceiveMessages_dispatches:
  assumes wf: "recv_wf (cr_receiver bcast) k" and ir: "in_reach m (cr_receiver bcast) pos r"
    and env: "keeps_up env (cr_receiver bcast)" and scr: "scratch_ok bcast r"
    and nx: "0 \<le> nextRecord (cr_receiver bcast)" "nextRecord (cr_receiver bcast) < 4611686018427387904"
    and ev: "announces e (rr_type r) ws" "carries (rr_payload r) ws"
  shows "\<exists>m'. ReceiveMessages env listener bcast m s =
      bindR (listener e m' s) (\<lambda>(s, m).
      Inr (1, bcast\<lparr>cr_receiver := (cr_receiver bcast)\<lparr>cursor := pos, nextRecord := pos + aligned8 (rr_length r),
        recordOffset := pos mod 2 ^ k\<rparr>\<rparr>, s, m))"
proof -
  obtain m' where m': "read_bytes m' (Ptr (scratchBuffer bcast)) (nat (rr_length r - 8)) = rr_payload r"
    and rc: "Receive env (adapter_handler listener) bcast m s =
      bindR (adapter_handler listener (rr_type r) (scratchBuffer bcast) 0 (rr_length r - 8) m' s) (\<lambda>(s, m).
      Inr (1, bcast\<lparr>cr_receiver := (cr_receiver bcast)\<lparr>cursor := pos, nextRecord := pos + aligned8 (rr_length r),
        recordOffset := pos mod 2 ^ k\<rparr>\<rparr>, s, m))"
    using Receive_message [OF wf ir env scr nx, of "adapter_handler listener" s] by (elim exE conjE) (rule that; assumption)
  have len: "length (rr_payload r) = nat (rr_length r - 8)" using m' by (metis length_read_bytes)
  have "wire_at m' (scratchBuffer bcast) 0 ws"
    using ev(2) m' scr by (intro carries_wire_at) (auto simp: len scratch_ok_def)
  then have "decode_event (rr_type r) m' (scratchBuffer bcast) 0 = Inr (Some e)"
    using ev(1) scr by (intro decode_announced) (auto simp: scratch_ok_def)
  then show ?thesis using rc by (auto simp: ReceiveMessages_def adapter_handler_def)
qed

text \<open>
  An event of a type the client does not know, such as those of newer drivers, is skipped:
  the listener is not called and the receiver moves on.
\<close>

theorem ReceiveMessages_ignores_unknown:
  assumes wf: "recv_wf (cr_receiver bcast) k" and ir: "in_reach m (cr_receiver bcast) pos r"
    and env: "keeps_up env (cr_receiver bcast)" and scr: "scratch_ok bcast r"
    and nx: "0 \<le> nextRecord (cr_receiver bcast)" "nextRecord (cr_receiver bcast) < 4611686018427387904"
    and ty: "rr_type r < 0x0F01 \<or> 0x0F0A < rr_type r"
  shows "\<exists>bcast' m'. ReceiveMessages env listener bcast m s = Inr (1, bcast', s, m') \<and>
      nextRecord (cr_receiver bcast') = pos + aligned8 (rr_length r)"
proof -
  have "decode_event (rr_type r) m' (scratchBuffer bcast) 0 = Inr None" for m' using ty by (auto simp: decode_event_def)
  then have "adapter_handler listener (rr_type r) (scratchBuffer bcast) 0 len m' s = Inr (s, m')" for len m'
    by (simp add: adapter_handler_def)
  with Receive_message [OF wf ir env scr nx, of "adapter_handler listener" s]
  have "\<exists>m'. ReceiveMessages env listener bcast m s =
      Inr (1, bcast\<lparr>cr_receiver := (cr_receiver bcast)\<lparr>cursor := pos, nextRecord := pos + aligned8 (rr_length r),
        recordOffset := pos mod 2 ^ k\<rparr>\<rparr>, s, m')"
    unfolding ReceiveMessages_def by auto
  then show ?thesis by (elim exE) (rule exI, rule exI, rule conjI, assumption, simp)
qed

text \<open>A counter event: the message in the sample buffer is replaced by one of twelve bytes.\<close>

definition counter_event_mem :: mem where
  "counter_event_mem = store 4 (store 8 (store 4 (store 4 (store 8 (store 8 (\<lambda>_. 0) 72 24) 64 24) 0 20) 4 0x0F08) 8 41) 16 3"

definition counter_event :: ring_record where
  "counter_event = \<lparr>rr_length = 20, rr_type = 0x0F08, rr_payload = read_bytes counter_event_mem 8 12\<rparr>"

lemma counter_event_ok:
  "in_reach counter_event_mem sample_receiver 0 counter_event" "scratch_ok sample_copier counter_event"
  "carries (rr_payload counter_event) [I64 41, I32 3]"
proof -
  have fields: "get_i32 counter_event_mem 0 = 20" "get_i32 counter_event_mem 4 = 0x0F08" "get_i64 counter_event_mem 8 = 41"
    "get_i32 counter_event_mem 16 = 3" "get_i64 counter_event_mem 72 = 24" "get_i64 counter_event_mem 64 = 24"
    by (simp_all add: counter_event_mem_def cell_same cell_other wrap32_id wrap64_id)
  then show "in_reach counter_event_mem sample_receiver 0 counter_event"
    by (simp add: in_reach_def pending_def record_at_def sample_receiver_def counter_event_def bc_tail_def bc_intent_def
        aligned8_def Wrap_def)
  show "scratch_ok sample_copier counter_event"
    by (simp add: scratch_ok_def sample_copier_def counter_event_def sample_receiver_def Wrap_def)
  show "carries (rr_payload counter_event) [I64 41, I32 3]"
    using carries_read [of counter_event_mem "Wrap 8 12" "[I64 41, I32 3]" 12] fields by (simp add: counter_event_def Wrap_def)
qed

theorem ReceiveMessages_dispatches_witness:
  "\<exists>m'. ReceiveMessages alone (\<lambda>c m s. Inr (s @ [c], m)) sample_copier counter_event_mem [] =
      Inr (1, sample_copier\<lparr>cr_receiver := sample_receiver\<lparr>cursor := 0, nextRecord := 24, recordOffset := 0\<rparr>\<rparr>,
        [OnAvailableCounter 41 3], m')"
  using ReceiveMessages_dispatches [of sample_copier 6 counter_event_mem 0 counter_event alone "OnAvailableCounter 41 3"
      "[I64 41, I32 3]" "\<lambda>c m s. Inr (s @ [c], m)" "[]"]
  by (simp add: sample_receiver_ok counter_event_ok keeps_up_alone)
     (simp add: counter_event_def aligned8_def announces.intros)

theorem ReceiveMessages_ignores_unknown_witness:
  "\<exists>bcast' m'. ReceiveMessages alone (\<lambda>c m s. Inr (s @ [c], m)) sample_copier sample_bcast_mem [] = Inr (1, bcast', [], m') \<and>
      nextRecord (cr_receiver bcast') = 16"
  using ReceiveMessages_ignores_unknown [of sample_copier 6 sample_bcast_mem 0 sample_message alone
      "\<lambda>c m s. Inr (s @ [c], m)" "[]"]
  by (simp add: sample_receiver_ok keeps_up_alone) (simp add: sample_message_def aligned8_def)

end
