(* ===== verification/Counters.thy ===== *)
theory Counters
  imports Flyweight
begin

text \<open>
  \<open>aeron/counters\<close>: the command and control file with its five sections, and the reader of the
  counters in it. A counter is a record of 512 bytes in the meta data section (state, type,
  deadline, key, label) and one of 128 bytes in the values section. Callbacks
  thread a state of their own.
\<close>

subsection \<open>The command and control file\<close>

definition CurrentCncVersion :: int where [simp]: "CurrentCncVersion = 512"

record MetaDataFlyweight =
  CncVersion :: Int32Field
  toDriverBufLen :: Int32Field
  toClientBufLen :: Int32Field
  metadataBufLen :: Int32Field
  valuesBufLen :: Int32Field
  errorLogLen :: Int32Field
  ClientLivenessTo :: Int64Field
  DriverStartTimestamp :: Int64Field
  DriverPid :: Int64Field
  ToDriverBuf :: buffer
  ToClientsBuf :: buffer
  MetaDataBuf :: buffer
  ValuesBuf :: buffer
  ErrorBuf :: buffer
  cnc_size :: int

definition MetaDataFlyweight_Wrap :: "mem \<Rightarrow> buffer \<Rightarrow> int \<Rightarrow> MetaDataFlyweight res" where
  "MetaDataFlyweight_Wrap m buf offset =
     (let pos = offset in
      bindR (Int32Field_Wrap buf pos) (\<lambda>(version, n). let pos = pos + n in
      bindR (Int32Field_Wrap buf pos) (\<lambda>(driverLen, n). let pos = pos + n in
      bindR (Int32Field_Wrap buf pos) (\<lambda>(clientLen, n). let pos = pos + n in
      bindR (Int32Field_Wrap buf pos) (\<lambda>(metaLen, n). let pos = pos + n in
      bindR (Int32Field_Wrap buf pos) (\<lambda>(valuesLen, n). let pos = pos + n in
      bindR (Int32Field_Wrap buf pos) (\<lambda>(errorLen, n). let pos = pos + n in
      bindR (Int64Field_Wrap buf pos) (\<lambda>(livenessTo, n). let pos = pos + n in
      bindR (Int64Field_Wrap buf pos) (\<lambda>(startTimestamp, n). let pos = pos + n in
      bindR (Int64Field_Wrap buf pos) (\<lambda>(pid, n). let pos = pos + n;
        pos = AlignInt32 (wrap32 pos) (CacheLineLength * 2);
        (driverBuf, n) = RawDataField_Wrap buf pos (Int32Field_Get m driverLen); pos = pos + n;
        (clientsBuf, n) = RawDataField_Wrap buf pos (Int32Field_Get m clientLen); pos = pos + n;
        (metaBuf, n) = RawDataField_Wrap buf pos (Int32Field_Get m metaLen); pos = pos + n;
        (valuesBuf, n) = RawDataField_Wrap buf pos (Int32Field_Get m valuesLen); pos = pos + n;
        (errorBuf, n) = RawDataField_Wrap buf pos (Int32Field_Get m errorLen); pos = pos + n in
      Inr \<lparr>CncVersion = version, toDriverBufLen = driverLen, toClientBufLen = clientLen,
           metadataBufLen = metaLen, valuesBufLen = valuesLen, errorLogLen = errorLen,
           ClientLivenessTo = livenessTo, DriverStartTimestamp = startTimestamp, DriverPid = pid,
           ToDriverBuf = driverBuf, ToClientsBuf = clientsBuf, MetaDataBuf = metaBuf,
           ValuesBuf = valuesBuf, ErrorBuf = errorBuf, cnc_size = pos - offset\<rparr>))))))))))"

text \<open>The operating system's mapping of the file is a parameter: its error, or base and size.\<close>

definition MapFile :: "mem \<Rightarrow> (int \<times> int) outcome \<Rightarrow> MetaDataFlyweight outcome res" where
  "MapFile m mapped =
     (case mapped of
        Inl err \<Rightarrow> Inr (Inl err)
      | Inr (ptr, len) \<Rightarrow>
          bindR (MakeBuffer [PointerArg ptr, IntegerArg len]) (\<lambda>cncBuffer.
          bindR (MetaDataFlyweight_Wrap m cncBuffer 0) (\<lambda>meta.
          if CurrentCncVersion \<noteq> Int32Field_Get m (CncVersion meta)
          then Inr (Inl ''aeron cnc file version not understood'') else Inr (Inr meta))))"

subsection \<open>The counters reader\<close>

definition CounterLength :: int where "CounterLength = CacheLineLength * 2"
definition FullLabelLength :: int where "FullLabelLength = CacheLineLength * 6"
definition LabelOffset :: int where "LabelOffset = CacheLineLength * 2"
definition MetadataLength :: int where "MetadataLength = LabelOffset + FullLabelLength"
definition MaxLabelLength :: int where "MaxLabelLength = FullLabelLength - SizeOfInt32"
definition MaxKeyLength :: int where
  "MaxKeyLength = CacheLineLength * 2 - SizeOfInt32 * 2 - SizeOfInt64"
definition TypeIdOffset :: int where "TypeIdOffset = SizeOfInt32"
definition FreeForReuseDeadlineOffset :: int where
  "FreeForReuseDeadlineOffset = TypeIdOffset + SizeOfInt32"
definition KeyOffset :: int where "KeyOffset = FreeForReuseDeadlineOffset + SizeOfInt64"
definition RecordReclaimed :: int where "RecordReclaimed = - 1"
definition RecordUnused :: int where "RecordUnused = 0"
definition RecordAllocated :: int where "RecordAllocated = 1"
definition NullCounterId :: int where "NullCounterId = - 1"
definition RegistrationIdOffset :: int where "RegistrationIdOffset = SizeOfInt64"
definition OwnerIdOffset :: int where "OwnerIdOffset = RegistrationIdOffset + SizeOfInt64"

lemma counter_layout [simp]:
  "CounterLength = 128" "FullLabelLength = 384" "LabelOffset = 128" "MetadataLength = 512"
  "MaxLabelLength = 380" "MaxKeyLength = 112" "TypeIdOffset = 4" "FreeForReuseDeadlineOffset = 8"
  "KeyOffset = 16" "RecordReclaimed = - 1" "RecordUnused = 0" "RecordAllocated = 1"
  "NullCounterId = - 1" "RegistrationIdOffset = 8" "OwnerIdOffset = 16"
  by (simp_all add: CounterLength_def FullLabelLength_def LabelOffset_def MetadataLength_def
      MaxLabelLength_def MaxKeyLength_def TypeIdOffset_def FreeForReuseDeadlineOffset_def KeyOffset_def
      RecordReclaimed_def RecordUnused_def RecordAllocated_def NullCounterId_def
      RegistrationIdOffset_def OwnerIdOffset_def CacheLineLength_def SizeOfInt32_def SizeOfInt64_def)

record Reader =
  rd_metaData :: buffer
  rd_values :: buffer
  maxCounterID :: int

record Counter =
  ctr_Id :: int
  ctr_TypeId :: int
  ctr_Value :: int
  ctr_Label :: "byte list"

definition NewReader :: "buffer \<Rightarrow> buffer \<Rightarrow> Reader" where
  "NewReader values metaData =
     \<lparr>rd_metaData = metaData, rd_values = values,
      maxCounterID = Capacity values sdiv CounterLength - 1\<rparr>"

definition counterOffset :: "int \<Rightarrow> int" where
  "counterOffset counterId = wrap32 (counterId * CounterLength)"

definition labelValue :: "mem \<Rightarrow> Reader \<Rightarrow> int \<Rightarrow> byte list res" where
  "labelValue m reader metaDataOffset =
     bindR (GetInt32 m (rd_metaData reader) (wrap32 (metaDataOffset + LabelOffset))) (\<lambda>labelSize.
     GetBytesArray m (rd_metaData reader) (wrap32 (metaDataOffset + LabelOffset + 4)) labelSize)"

text \<open>The reused label slice has a capacity of \<open>FullLabelLength\<close>; slicing beyond it panics.\<close>

definition labelValueUnsafe :: "mem \<Rightarrow> Reader \<Rightarrow> int \<Rightarrow> byte list res" where
  "labelValueUnsafe m reader metaDataOffset =
     bindR (GetInt32 m (rd_metaData reader) (wrap32 (metaDataOffset + LabelOffset))) (\<lambda>labelSize.
     if labelSize < 0 \<or> labelSize > FullLabelLength then Inl (Panic ''slice bounds out of range'')
     else GetBytes m (rd_metaData reader) (wrap32 (metaDataOffset + LabelOffset + 4))
            (replicate (nat labelSize) 0))"

type_synonym 's counter_callback = "'s \<Rightarrow> Counter \<Rightarrow> 's res"

text \<open>One record of the scan: whether to go on, and the callback's state.\<close>

definition scan_record :: "mem \<Rightarrow> Reader \<Rightarrow> 's counter_callback \<Rightarrow> (byte list \<Rightarrow> byte list res) \<Rightarrow>
    int \<Rightarrow> int \<Rightarrow> 's \<Rightarrow> (bool \<times> 's) res" where
  "scan_record m reader cb bytesToString i cid s =
     bindR (GetInt32Volatile m (rd_metaData reader) i) (\<lambda>recordStatus.
     if recordStatus = RecordUnused then Inr (False, s)
     else if recordStatus = RecordAllocated then
       bindR (GetInt32 m (rd_metaData reader) (wrap32 (i + TypeIdOffset))) (\<lambda>typeId.
       bindR (labelValueUnsafe m reader i) (\<lambda>label.
       bindR (GetInt64Volatile m (rd_values reader) (counterOffset cid)) (\<lambda>value.
       bindR (bytesToString label) (\<lambda>label.
       bindR (cb s \<lparr>ctr_Id = cid, ctr_TypeId = typeId, ctr_Value = value, ctr_Label = label\<rparr>) (\<lambda>s.
       Inr (True, s))))))
     else Inr (True, s))"

partial_function (option) scan_loop :: "mem \<Rightarrow> Reader \<Rightarrow> 's counter_callback \<Rightarrow> (byte list \<Rightarrow> byte list res) \<Rightarrow>
    int \<Rightarrow> int \<Rightarrow> 's \<Rightarrow> 's res option" where
  "scan_loop m reader cb bytesToString i cid s =
     (if i < Capacity (rd_metaData reader) then
        (case scan_record m reader cb bytesToString i cid s of
           Inl e \<Rightarrow> Some (Inl e)
         | Inr (continue, s) \<Rightarrow>
             if continue then
               scan_loop m reader cb bytesToString (wrap32 (i + MetadataLength)) (wrap32 (cid + 1)) s
             else Some (Inr s))
      else Some (Inr s))"

definition Reader_Scan :: "mem \<Rightarrow> Reader \<Rightarrow> 's counter_callback \<Rightarrow> 's \<Rightarrow> 's res option" where
  "Reader_Scan m reader cb s = scan_loop m reader cb Inr 0 0 s"

definition Reader_ScanUnsafe :: "mem \<Rightarrow> Reader \<Rightarrow> 's counter_callback \<Rightarrow> 's \<Rightarrow> 's res option" where
  "Reader_ScanUnsafe m reader cb s =
     scan_loop m reader cb
       (\<lambda>label. if label = [] then Inl (Panic ''index out of range'') else Inr label) 0 0 s"

definition key_buffer :: "Reader \<Rightarrow> int \<Rightarrow> buffer" where
  "key_buffer reader metaDataOffset =
     Wrap (Ptr (rd_metaData reader) + wrap32 (metaDataOffset + KeyOffset)) MaxKeyLength"

function ScanForType_loop :: "mem \<Rightarrow> Reader \<Rightarrow> int \<Rightarrow> ('s \<Rightarrow> int \<Rightarrow> buffer \<Rightarrow> (bool \<times> 's) res) \<Rightarrow> int \<Rightarrow> 's \<Rightarrow>
    's res" where
  "ScanForType_loop m reader typeId callback cid s =
     (if cid < maxCounterID reader then
        let counterId = wrap32 cid; metaDataOffset = wrap32 (counterId * MetadataLength) in
        bindR (GetInt32Volatile m (rd_metaData reader) metaDataOffset) (\<lambda>recordStatus.
        if recordStatus = RecordUnused then Inr s
        else if recordStatus = RecordAllocated then
          bindR (GetInt32 m (rd_metaData reader) (wrap32 (metaDataOffset + 4))) (\<lambda>thisTypeId.
          if thisTypeId = typeId then
            bindR (callback s counterId (key_buffer reader metaDataOffset)) (\<lambda>(continue, s).
            if continue then ScanForType_loop m reader typeId callback (cid + 1) s else Inr s)
          else ScanForType_loop m reader typeId callback (cid + 1) s)
        else ScanForType_loop m reader typeId callback (cid + 1) s)
      else Inr s)"
  by pat_completeness auto
termination
  by (relation "measure (\<lambda>(m, reader, typeId, callback, cid, s). nat (maxCounterID reader - cid))") auto

definition ScanForType :: "mem \<Rightarrow> Reader \<Rightarrow> int \<Rightarrow> ('s \<Rightarrow> int \<Rightarrow> buffer \<Rightarrow> (bool \<times> 's) res) \<Rightarrow> 's \<Rightarrow> 's res" where
  "ScanForType m reader typeId callback s = ScanForType_loop m reader typeId callback 0 s"

function FindCounter_loop :: "mem \<Rightarrow> Reader \<Rightarrow> int \<Rightarrow> (buffer \<Rightarrow> bool res) option \<Rightarrow> int \<Rightarrow> int res" where
  "FindCounter_loop m reader typeId keyFilter cid =
     (if cid < maxCounterID reader then
        let metaDataOffset = wrap32 (wrap32 cid * MetadataLength) in
        bindR (GetInt32Volatile m (rd_metaData reader) metaDataOffset) (\<lambda>recordStatus.
        if recordStatus = RecordUnused then Inr NullCounterId
        else if recordStatus = RecordAllocated then
          bindR (GetInt32 m (rd_metaData reader) (wrap32 (metaDataOffset + 4))) (\<lambda>thisTypeId.
          if thisTypeId = typeId then
            bindR (case keyFilter of None \<Rightarrow> Inr True | Some f \<Rightarrow> f (key_buffer reader metaDataOffset)) (\<lambda>found.
            if found then Inr (wrap32 cid) else FindCounter_loop m reader typeId keyFilter (cid + 1))
          else FindCounter_loop m reader typeId keyFilter (cid + 1))
        else FindCounter_loop m reader typeId keyFilter (cid + 1))
      else Inr NullCounterId)"
  by pat_completeness auto
termination
  by (relation "measure (\<lambda>(m, reader, typeId, keyFilter, cid). nat (maxCounterID reader - cid))") auto

definition FindCounter :: "mem \<Rightarrow> Reader \<Rightarrow> int \<Rightarrow> (buffer \<Rightarrow> bool res) option \<Rightarrow> int res" where
  "FindCounter m reader typeId keyFilter = FindCounter_loop m reader typeId keyFilter 0"

definition validateCounterIdAndOffset :: "Reader \<Rightarrow> int \<Rightarrow> int \<Rightarrow> string option" where
  "validateCounterIdAndOffset reader counterId offset =
     (if counterId < 0 \<or> counterId \<ge> wrap32 (maxCounterID reader) then Some ''counterId''
      else if offset < 0 \<or> offset \<ge> MaxKeyLength then Some ''offset''
      else None)"

text \<open>The checks the three key readers share: the id, the end of the part, the record state.\<close>

definition checked_key_part :: "mem \<Rightarrow> Reader \<Rightarrow> int \<Rightarrow> int \<Rightarrow> (int \<Rightarrow> 'a outcome res) \<Rightarrow> 'a outcome res" where
  "checked_key_part m reader counterId part_end read =
     (case validateCounterIdAndOffset reader counterId part_end of
        Some err \<Rightarrow> Inr (Inl err)
      | None \<Rightarrow>
          let metaDataOffset = wrap32 (counterId * MetadataLength) in
          bindR (GetInt32Volatile m (rd_metaData reader) metaDataOffset) (\<lambda>recordStatus.
          if recordStatus \<noteq> RecordAllocated then Inr (Inl ''recordStatus'')
          else read metaDataOffset))"

definition GetKeyPartInt32 :: "mem \<Rightarrow> Reader \<Rightarrow> int \<Rightarrow> int \<Rightarrow> int outcome res" where
  "GetKeyPartInt32 m reader counterId offset =
     checked_key_part m reader counterId (wrap32 (offset + SizeOfInt32)) (\<lambda>metaDataOffset.
     bindR (GetInt32 m (rd_metaData reader) (wrap32 (metaDataOffset + KeyOffset + offset))) (\<lambda>v. Inr (Inr v)))"

definition GetKeyPartInt64 :: "mem \<Rightarrow> Reader \<Rightarrow> int \<Rightarrow> int \<Rightarrow> int outcome res" where
  "GetKeyPartInt64 m reader counterId offset =
     checked_key_part m reader counterId (wrap32 (offset + SizeOfInt64)) (\<lambda>metaDataOffset.
     bindR (GetInt64 m (rd_metaData reader) (wrap32 (metaDataOffset + KeyOffset + offset))) (\<lambda>v. Inr (Inr v)))"

definition GetKeyPartString :: "mem \<Rightarrow> Reader \<Rightarrow> int \<Rightarrow> int \<Rightarrow> byte list outcome res" where
  "GetKeyPartString m reader counterId offset =
     checked_key_part m reader counterId (wrap32 (offset + SizeOfInt32)) (\<lambda>metaDataOffset.
     let lengthOffset = wrap32 (metaDataOffset + KeyOffset + offset) in
     bindR (GetInt32 m (rd_metaData reader) lengthOffset) (\<lambda>len.
     if len < 0 \<or> wrap32 (offset + len) > MaxKeyLength then Inr (Inl ''length'')
     else bindR (GetBytesArray m (rd_metaData reader) (wrap32 (lengthOffset + 4)) len) (\<lambda>v. Inr (Inr v))))"

definition has_counter :: "Reader \<Rightarrow> int \<Rightarrow> bool" where
  "has_counter reader counterId \<longleftrightarrow> \<not> (counterId < 0 \<or> counterId \<ge> wrap32 (maxCounterID reader))"

definition GetCounterValue :: "mem \<Rightarrow> Reader \<Rightarrow> int \<Rightarrow> int res" where
  "GetCounterValue m reader counterId =
     (if \<not> has_counter reader counterId then Inr 0
      else GetInt64Volatile m (rd_values reader) (counterOffset counterId))"

definition GetCounterRegistrationId :: "mem \<Rightarrow> Reader \<Rightarrow> int \<Rightarrow> int res" where
  "GetCounterRegistrationId m reader counterId =
     (if \<not> has_counter reader counterId then Inr 0
      else GetInt64Volatile m (rd_values reader) (wrap32 (counterOffset counterId + RegistrationIdOffset)))"

definition GetCounterOwnerId :: "mem \<Rightarrow> Reader \<Rightarrow> int \<Rightarrow> int res" where
  "GetCounterOwnerId m reader counterId =
     (if \<not> has_counter reader counterId then Inr 0
      else GetInt64Volatile m (rd_values reader) (wrap32 (counterOffset counterId + OwnerIdOffset)))"

definition GetCounterTypeId :: "mem \<Rightarrow> Reader \<Rightarrow> int \<Rightarrow> int res" where
  "GetCounterTypeId m reader counterId =
     (if \<not> has_counter reader counterId then Inr (- 1)
      else GetInt32 m (rd_metaData reader) (wrap32 (counterId * MetadataLength + TypeIdOffset)))"

definition IsCounterAllocated :: "mem \<Rightarrow> Reader \<Rightarrow> int \<Rightarrow> bool res" where
  "IsCounterAllocated m reader counterId =
     (if has_counter reader counterId then
        bindR (GetInt32Volatile m (rd_metaData reader) (wrap32 (counterId * MetadataLength)))
          (\<lambda>status. Inr (status = RecordAllocated))
      else Inr False)"

subsection \<open>Counters\<close>

record ReadableCounter =
  rc_Reader :: Reader
  rc_RegistrationId :: int
  rc_CounterId :: int
  rc_metaDataOffset :: int
  rc_valueOffset :: int
  rc_isClosed :: bool

definition NewReadableRegisteredCounter :: "Reader \<Rightarrow> int \<Rightarrow> int \<Rightarrow> ReadableCounter outcome" where
  "NewReadableRegisteredCounter reader registrationId counterId =
     (if \<not> has_counter reader counterId then Inl ''counterId''
      else Inr \<lparr>rc_Reader = reader, rc_RegistrationId = registrationId, rc_CounterId = counterId,
                rc_metaDataOffset = wrap32 (counterId * MetadataLength),
                rc_valueOffset = wrap32 (counterId * CounterLength), rc_isClosed = False\<rparr>)"

definition NewReadableCounter :: "Reader \<Rightarrow> int \<Rightarrow> ReadableCounter outcome" where
  "NewReadableCounter reader counterId = NewReadableRegisteredCounter reader (- 1) counterId"

definition ReadableCounter_State :: "mem \<Rightarrow> ReadableCounter \<Rightarrow> int res" where
  "ReadableCounter_State m rc = GetInt32Volatile m (rd_metaData (rc_Reader rc)) (rc_metaDataOffset rc)"

definition ReadableCounter_Label :: "mem \<Rightarrow> ReadableCounter \<Rightarrow> byte list res" where
  "ReadableCounter_Label m rc = labelValue m (rc_Reader rc) (rc_metaDataOffset rc)"

definition ReadableCounter_Get :: "mem \<Rightarrow> ReadableCounter \<Rightarrow> int res" where
  "ReadableCounter_Get m rc = GetInt64Volatile m (rd_values (rc_Reader rc)) (rc_valueOffset rc)"

definition ReadableCounter_GetWeak :: "mem \<Rightarrow> ReadableCounter \<Rightarrow> int res" where
  "ReadableCounter_GetWeak m rc = GetInt64 m (rd_values (rc_Reader rc)) (rc_valueOffset rc)"

definition ReadableCounter_Close :: "ReadableCounter \<Rightarrow> ReadableCounter" where
  "ReadableCounter_Close rc = rc\<lparr>rc_isClosed := True\<rparr>"

record AtomicCounter =
  ac_Reader :: Reader
  ac_CounterId :: int
  ac_metaDataOffset :: int
  ac_valueOffset :: int

definition NewAtomicCounter :: "Reader \<Rightarrow> int \<Rightarrow> AtomicCounter outcome" where
  "NewAtomicCounter reader counterId =
     (if \<not> has_counter reader counterId then Inl ''counterId''
      else Inr \<lparr>ac_Reader = reader, ac_CounterId = counterId,
                ac_metaDataOffset = wrap32 (counterId * MetadataLength),
                ac_valueOffset = wrap32 (counterId * CounterLength)\<rparr>)"

definition AtomicCounter_State :: "mem \<Rightarrow> AtomicCounter \<Rightarrow> int res" where
  "AtomicCounter_State m ac = GetInt32Volatile m (rd_metaData (ac_Reader ac)) (ac_metaDataOffset ac)"

definition AtomicCounter_Label :: "mem \<Rightarrow> AtomicCounter \<Rightarrow> byte list res" where
  "AtomicCounter_Label m ac = labelValue m (ac_Reader ac) (ac_metaDataOffset ac)"

definition AtomicCounter_Get :: "mem \<Rightarrow> AtomicCounter \<Rightarrow> int res" where
  "AtomicCounter_Get m ac = GetInt64Volatile m (rd_values (ac_Reader ac)) (ac_valueOffset ac)"

definition AtomicCounter_GetWeak :: "mem \<Rightarrow> AtomicCounter \<Rightarrow> int res" where
  "AtomicCounter_GetWeak m ac = GetInt64 m (rd_values (ac_Reader ac)) (ac_valueOffset ac)"

definition AtomicCounter_Set :: "mem \<Rightarrow> AtomicCounter \<Rightarrow> int \<Rightarrow> mem res" where
  "AtomicCounter_Set m ac value = PutInt64Ordered m (rd_values (ac_Reader ac)) (ac_valueOffset ac) value"

definition AtomicCounter_SetWeak :: "mem \<Rightarrow> AtomicCounter \<Rightarrow> int \<Rightarrow> mem res" where
  "AtomicCounter_SetWeak m ac value = PutInt64 m (rd_values (ac_Reader ac)) (ac_valueOffset ac) value"

declare ScanForType_loop.simps [simp del] and FindCounter_loop.simps [simp del]

subsection \<open>Well-formed readers\<close>

definition reader_ok :: "Reader \<Rightarrow> bool" where
  "reader_ok reader \<longleftrightarrow>
     0 \<le> maxCounterID reader \<and>
     (maxCounterID reader + 1) * 512 \<le> Capacity (rd_metaData reader) \<and> Capacity (rd_metaData reader) < 2147483648 \<and>
     (maxCounterID reader + 1) * 128 \<le> Capacity (rd_values reader) \<and> Capacity (rd_values reader) < 2147483648"

definition counter_state :: "mem \<Rightarrow> Reader \<Rightarrow> int \<Rightarrow> int" where
  "counter_state m reader cid = get_i32 m (Ptr (rd_metaData reader) + cid * 512)"

definition counter_type :: "mem \<Rightarrow> Reader \<Rightarrow> int \<Rightarrow> int" where
  "counter_type m reader cid = get_i32 m (Ptr (rd_metaData reader) + cid * 512 + 4)"

lemma reader_ok_bounds:
  assumes "reader_ok reader" and "0 \<le> cid" and "cid \<le> maxCounterID reader"
  shows "wrap32 cid = cid" and "wrap32 (cid * 512) = cid * 512" and "wrap32 (cid * 128) = cid * 128"
    and "0 \<le> cid * 512" and "cid * 512 + 512 \<le> Capacity (rd_metaData reader)"
    and "0 \<le> cid * 128" and "cid * 128 + 128 \<le> Capacity (rd_values reader)"
  using assms by (auto simp: reader_ok_def wrap32_id)

lemma record_reads:
  assumes ok: "reader_ok reader" and cid: "0 \<le> cid" "cid \<le> maxCounterID reader"
  shows "GetInt32Volatile m (rd_metaData reader) (cid * 512) = Inr (counter_state m reader cid)"
    and "wrap32 (cid * 512 + 4) = cid * 512 + 4"
    and "GetInt32 m (rd_metaData reader) (cid * 512 + 4) = Inr (counter_type m reader cid)"
    and "GetInt64Volatile m (rd_values reader) (cid * 128) = Inr (get_i64 m (Ptr (rd_values reader) + cid * 128))"
  using reader_ok_bounds [OF assms] ok
  by (simp_all add: reader_ok_def GetInt32Volatile_ok GetInt32_ok GetInt64Volatile_ok wrap32_id
      counter_state_def counter_type_def add.assoc)

text \<open>
  The counters in use with ids from \<open>lo\<close> to \<open>hi\<close>: the allocated records before the first one
  that was never used.
\<close>

definition live_between :: "mem \<Rightarrow> Reader \<Rightarrow> int \<Rightarrow> int \<Rightarrow> int list" where
  "live_between m reader lo hi =
     filter (\<lambda>i. counter_state m reader i = RecordAllocated)
       (takeWhile (\<lambda>i. counter_state m reader i \<noteq> RecordUnused) [lo..hi])"

text \<open>The counters of a type, in the order of their ids.\<close>

definition typed_counters :: "mem \<Rightarrow> Reader \<Rightarrow> int \<Rightarrow> int list" where
  "typed_counters m reader typeId =
     filter (\<lambda>i. counter_type m reader i = typeId) (live_between m reader 0 (maxCounterID reader))"

text \<open>
  The ids the loops of \<open>ScanForType\<close> and \<open>FindCounter\<close> come to from \<open>cid\<close> on. Both stop before
  \<open>maxCounterID\<close>, which is the id of the last counter.
\<close>

definition typed_from :: "mem \<Rightarrow> Reader \<Rightarrow> int \<Rightarrow> int \<Rightarrow> int list" where
  "typed_from m reader typeId cid =
     filter (\<lambda>i. counter_type m reader i = typeId) (live_between m reader cid (maxCounterID reader - 1))"

text \<open>Whether a search takes a counter with this key; without a filter it takes every one.\<close>

definition accepts :: "(buffer \<Rightarrow> bool res) option \<Rightarrow> buffer \<Rightarrow> bool" where
  "accepts keyFilter key = (case keyFilter of None \<Rightarrow> True | Some f \<Rightarrow> f key = Inr True)"

text \<open>A counter as the scan reports it.\<close>

definition label_length :: "mem \<Rightarrow> Reader \<Rightarrow> int \<Rightarrow> int" where
  "label_length m reader i = get_i32 m (Ptr (rd_metaData reader) + i * 512 + 128)"

definition counter_at :: "mem \<Rightarrow> Reader \<Rightarrow> int \<Rightarrow> Counter" where
  "counter_at m reader i =
     \<lparr>ctr_Id = i, ctr_TypeId = counter_type m reader i,
      ctr_Value = get_i64 m (Ptr (rd_values reader) + i * 128),
      ctr_Label = read_bytes m (Ptr (rd_metaData reader) + i * 512 + 132) (nat (label_length m reader i))\<rparr>"

definition labels_ok :: "mem \<Rightarrow> Reader \<Rightarrow> bool" where
  "labels_ok m reader \<longleftrightarrow>
     list_all (\<lambda>i. counter_state m reader i = RecordAllocated \<longrightarrow>
         0 \<le> label_length m reader i \<and> label_length m reader i \<le> MaxLabelLength) [0..maxCounterID reader]"

text \<open>Visiting ids in order until a visit says to stop.\<close>

fun visit :: "('s \<Rightarrow> int \<Rightarrow> (bool \<times> 's) res) \<Rightarrow> int list \<Rightarrow> 's \<Rightarrow> 's res" where
  "visit f [] s = Inr s"
| "visit f (i # ids) s = bindR (f s i) (\<lambda>(continue, s). if continue then visit f ids s else Inr s)"

definition counter_key :: "Reader \<Rightarrow> int \<Rightarrow> buffer" where
  "counter_key reader cid = Wrap (Ptr (rd_metaData reader) + cid * 512 + 16) 112"

lemma key_buffer_counter:
  assumes "reader_ok reader" and "0 \<le> cid" and "cid \<le> maxCounterID reader"
  shows "key_buffer reader (cid * 512) = counter_key reader cid"
  using reader_ok_bounds [OF assms] assms(1)
  by (simp add: key_buffer_def counter_key_def wrap32_id reader_ok_def add.assoc)

lemma live_between_step:
  "live_between m reader lo hi =
     (if lo \<le> hi \<and> counter_state m reader lo \<noteq> RecordUnused then
        (if counter_state m reader lo = RecordAllocated then [lo] else []) @ live_between m reader (lo + 1) hi
      else [])"
  unfolding live_between_def by (subst upto.simps) auto

lemma typed_from_step:
  "typed_from m reader typeId cid =
     (if cid < maxCounterID reader \<and> counter_state m reader cid \<noteq> RecordUnused then
        (if counter_state m reader cid = RecordAllocated \<and> counter_type m reader cid = typeId then [cid] else []) @
        typed_from m reader typeId (cid + 1)
      else [])"
  unfolding typed_from_def by (subst live_between_step) auto

lemma live_between_last:
  assumes "lo \<le> hi"
  shows "live_between m reader lo hi = live_between m reader lo (hi - 1) @
     (if (\<forall>i\<in>{lo..hi - 1}. counter_state m reader i \<noteq> RecordUnused) \<and>
         counter_state m reader hi = RecordAllocated then [hi] else [])"
proof -
  let ?P = "\<lambda>i. counter_state m reader i \<noteq> RecordUnused"
  have up: "[lo..hi] = [lo..hi - 1] @ [hi]" using assms upto_rec2 by simp
  show ?thesis
  proof (cases "\<forall>i\<in>{lo..hi - 1}. ?P i")
    case True
    then have all: "\<forall>i\<in>set [lo..hi - 1]. ?P i" by simp
    have a: "takeWhile ?P ([lo..hi - 1] @ [hi]) = [lo..hi - 1] @ takeWhile ?P [hi]"
      by (rule takeWhile_append2) (use all in blast)
    have b: "takeWhile ?P [lo..hi - 1] = [lo..hi - 1]"
      unfolding takeWhile_eq_all_conv by (rule all)
    have "live_between m reader lo hi = filter (\<lambda>i. counter_state m reader i = RecordAllocated) ([lo..hi - 1] @ takeWhile ?P [hi])"
      unfolding live_between_def up a by (rule refl)
    moreover have "live_between m reader lo (hi - 1) = filter (\<lambda>i. counter_state m reader i = RecordAllocated) [lo..hi - 1]"
      unfolding live_between_def b by (rule refl)
    ultimately show ?thesis using True by simp
  next
    case False
    then have "takeWhile ?P ([lo..hi - 1] @ [hi]) = takeWhile ?P [lo..hi - 1]"
      using takeWhile_append1 [of _ "[lo..hi - 1]" ?P] by auto
    then have "live_between m reader lo hi = live_between m reader lo (hi - 1)"
      unfolding live_between_def up by simp
    then show ?thesis using False by simp
  qed
qed

lemma find_append: "find p (xs @ ys) = (case find p xs of None \<Rightarrow> find p ys | Some x \<Rightarrow> Some x)"
  by (induction xs) auto

lemma find_typed_from:
  assumes "0 \<le> maxCounterID reader"
  shows "(case find p (typed_from m reader typeId 0) of None \<Rightarrow> NullCounterId | Some i \<Rightarrow> i) =
     (case find p (typed_counters m reader typeId) of None \<Rightarrow> NullCounterId
      | Some i \<Rightarrow> if i = maxCounterID reader then NullCounterId else i)"
proof -
  have "i < maxCounterID reader" if "find p (typed_from m reader typeId 0) = Some i" for i
    using that by (auto simp: find_Some_iff typed_from_def live_between_def dest!: nth_mem set_takeWhileD)
  moreover have "find p (typed_counters m reader typeId) =
      (case find p (typed_from m reader typeId 0) of Some i \<Rightarrow> Some i
       | None \<Rightarrow> find p (filter (\<lambda>i. counter_type m reader i = typeId)
          (if (\<forall>i\<in>{0..maxCounterID reader - 1}. counter_state m reader i \<noteq> RecordUnused) \<and>
              counter_state m reader (maxCounterID reader) = RecordAllocated then [maxCounterID reader] else [])))"
    unfolding typed_counters_def typed_from_def live_between_last [OF assms] filter_append find_append by (rule refl)
  ultimately show ?thesis by (force split: option.splits if_splits)
qed

lemma scan_record_live:
  assumes ok: "reader_ok reader" and i: "0 \<le> i" "i \<le> maxCounterID reader" and "labels_ok m reader"
  shows "scan_record m reader cb Inr (i * 512) i s =
     (if counter_state m reader i = RecordUnused then Inr (False, s)
      else if counter_state m reader i = RecordAllocated then
        bindR (cb s (counter_at m reader i)) (\<lambda>s. Inr (True, s))
      else Inr (True, s))"
proof -
  note reads = record_reads [OF ok i] and b = reader_ok_bounds [OF ok i]
  have "labelValueUnsafe m reader (i * 512) =
      Inr (read_bytes m (Ptr (rd_metaData reader) + i * 512 + 132) (nat (label_length m reader i)))"
    if "counter_state m reader i = RecordAllocated"
  proof -
    have len: "0 \<le> label_length m reader i" "label_length m reader i \<le> 380"
      using assms(4) i that by (auto simp: labels_ok_def list_all_iff)
    have w: "wrap32 (i * 512 + 128) = i * 512 + 128" "wrap32 (i * 512 + 128 + 4) = i * 512 + 132"
      using b ok by (auto simp: reader_ok_def wrap32_id)
    show ?thesis
      using len b ok
      by (simp add: labelValueUnsafe_def w GetInt32_ok reader_ok_def GetBytes_def BoundsCheck_ok wrap32_id
          label_length_def add.assoc flip: map_read_bytes)
  qed
  then show ?thesis
    using reads b by (simp add: scan_record_def counterOffset_def counter_at_def)
qed

text \<open>
  A scan reports every counter in use, the last one included, when the metadata section has a
  record for each counter and no more.
\<close>

lemma scan_loop_visit:
  assumes ok: "reader_ok reader" and cap: "Capacity (rd_metaData reader) = (maxCounterID reader + 1) * 512"
    and labels: "labels_ok m reader" and "0 \<le> i" and "i \<le> maxCounterID reader + 1"
  shows "scan_loop m reader cb Inr (i * 512) i s =
     Some (visit (\<lambda>s i. bindR (cb s (counter_at m reader i)) (\<lambda>s. Inr (True, s)))
             (live_between m reader i (maxCounterID reader)) s)"
  using assms(4,5)
proof (induction "nat (maxCounterID reader + 1 - i)" arbitrary: i s)
  case 0
  then show ?case by (subst scan_loop.simps, subst live_between_step) (simp add: cap)
next
  case (Suc k)
  then have i: "0 \<le> i" "i \<le> maxCounterID reader" by simp_all
  have small: "(maxCounterID reader + 1) * 512 < 2147483648" using ok cap by (simp add: reader_ok_def)
  then have w: "wrap32 (i * 512 + 512) = (i + 1) * 512" "wrap32 (i + 1) = i + 1"
    using i by (auto simp: wrap32_id)
  have "i * 512 < Capacity (rd_metaData reader)" using i cap by simp
  moreover have "scan_loop m reader cb Inr ((i + 1) * 512) (i + 1) s =
     Some (visit (\<lambda>s i. bindR (cb s (counter_at m reader i)) (\<lambda>s. Inr (True, s)))
             (live_between m reader (i + 1) (maxCounterID reader)) s)" for s
    using Suc(2) i by (intro Suc(1)) auto
  ultimately show ?case
    using i
    by (subst scan_loop.simps, subst live_between_step)
       (auto simp: scan_record_live [OF ok i labels] w bindR_def split: sum.splits)
qed

lemma visit_collects:
  "visit (\<lambda>s i. bindR (Inr (s @ [g i])) (\<lambda>s. Inr (True, s))) ids s = Inr (s @ map g ids)"
  by (induction ids arbitrary: s) auto

lemma ScanForType_loop_visit:
  assumes "reader_ok reader" and "0 \<le> cid"
  shows "ScanForType_loop m reader typeId callback cid s =
     visit (\<lambda>s i. callback s i (counter_key reader i)) (typed_from m reader typeId cid) s"
  using assms
proof (induction m reader typeId callback cid s rule: ScanForType_loop.induct)
  case (1 m reader typeId callback cid s)
  show ?case
  proof (cases "cid < maxCounterID reader")
    case True
    then have le: "cid \<le> maxCounterID reader" by simp
    note facts = record_reads [OF 1(4,5) le] reader_ok_bounds [OF 1(4,5) le] key_buffer_counter [OF 1(4,5) le]
    note IH = 1(1-3) [OF True refl refl]
    show ?thesis
      by (subst ScanForType_loop.simps, subst typed_from_step)
         (use True 1(4,5) IH in \<open>auto simp: facts bindR_def Let_def split: sum.splits\<close>)
  next
    case False
    then show ?thesis by (subst ScanForType_loop.simps, subst typed_from_step) simp
  qed
qed

lemma FindCounter_loop_find:
  assumes "reader_ok reader" and "0 \<le> cid" and "\<And>f b. keyFilter = Some f \<Longrightarrow> \<exists>v. f b = Inr v"
  shows "FindCounter_loop m reader typeId keyFilter cid =
     Inr (case find (\<lambda>i. accepts keyFilter (counter_key reader i)) (typed_from m reader typeId cid) of
            None \<Rightarrow> NullCounterId | Some i \<Rightarrow> i)"
  using assms
proof (induction m reader typeId keyFilter cid rule: FindCounter_loop.induct)
  case (1 m reader typeId keyFilter cid)
  have filter: "(case keyFilter of None \<Rightarrow> Inr True | Some f \<Rightarrow> f b) = Inr (accepts keyFilter b)" for b
  proof (cases keyFilter)
    case (Some f)
    obtain v where "f b = Inr v" using 1(6) [OF Some, of b] by blast
    then show ?thesis using Some by (simp add: accepts_def)
  qed (simp add: accepts_def)
  show ?case
  proof (cases "cid < maxCounterID reader")
    case True
    then have le: "cid \<le> maxCounterID reader" by simp
    note facts = record_reads [OF 1(4,5) le] reader_ok_bounds [OF 1(4,5) le] key_buffer_counter [OF 1(4,5) le]
    note IH = 1(1-3) [OF True refl]
    show ?thesis
      by (subst FindCounter_loop.simps, subst typed_from_step)
         (use True 1(4,5,6) IH in \<open>simp add: facts Let_def filter\<close>)
  next
    case False
    then show ?thesis by (subst FindCounter_loop.simps, subst typed_from_step) simp
  qed
qed

subsection \<open>Properties\<close>

definition sample_reader :: Reader where
  "sample_reader = NewReader (Wrap 50000 512) (Wrap 40000 2048)"

definition full_reader :: Reader where
  "full_reader = NewReader (Wrap 50000 256) (Wrap 40000 1024)"

definition sample_counters :: mem where
  "sample_counters = store 8 (store 4 (store 4 (store 4 (\<lambda>_. 0) 40000 1) 40512 1) 40516 14) 50128 77"

lemma sample_reader_ok: "reader_ok sample_reader"
  by code_simp

text \<open>
  (C31) A search for a counter finds the first one: among the records before the first one never
  used, the allocated one of the type with the smallest id whose key passes the filter (any key
  when there is no filter), and NullCounterId if there is none. There is one exception: the search
  stops before the last counter, so when that is the first to match, the result is NullCounterId.
  The search always ends.
\<close>

theorem FindCounter_finds_first:
  assumes "reader_ok reader" and "\<And>f b. keyFilter = Some f \<Longrightarrow> \<exists>v. f b = Inr v"
  shows "FindCounter m reader typeId keyFilter =
     Inr (case find (\<lambda>i. accepts keyFilter (counter_key reader i)) (typed_counters m reader typeId) of
            None \<Rightarrow> NullCounterId
          | Some i \<Rightarrow> if i = maxCounterID reader then NullCounterId else i)"
proof -
  have "FindCounter m reader typeId keyFilter =
      Inr (case find (\<lambda>i. accepts keyFilter (counter_key reader i)) (typed_from m reader typeId 0) of
             None \<Rightarrow> NullCounterId | Some i \<Rightarrow> i)"
    unfolding FindCounter_def by (rule FindCounter_loop_find) (use assms in auto)
  then show ?thesis using find_typed_from assms(1) by (simp add: reader_ok_def)
qed

theorem FindCounter_finds_first_witness:
  "FindCounter sample_counters sample_reader 14 (Some (\<lambda>b. Inr (Capacity b = 112))) = Inr 1 \<and>
   FindCounter sample_counters sample_reader 14 None = Inr 1 \<and>
   FindCounter sample_counters full_reader 14 None = Inr NullCounterId"
proof -
  let ?f = "Some (\<lambda>b. Inr (Capacity b = 112)) :: (buffer \<Rightarrow> bool res) option"
  have ok: "reader_ok full_reader" by code_simp
  have found: "find (\<lambda>i. accepts ?f (counter_key sample_reader i)) (typed_counters sample_counters sample_reader 14) = Some 1"
    "find (\<lambda>i. accepts None (counter_key sample_reader i)) (typed_counters sample_counters sample_reader 14) = Some 1"
    "find (\<lambda>i. accepts None (counter_key full_reader i)) (typed_counters sample_counters full_reader 14) = Some 1"
    by code_simp+
  have max: "maxCounterID sample_reader \<noteq> 1" "maxCounterID full_reader = 1" by code_simp+
  have "\<exists>v. f b = Inr v" if "?f = Some f" for f b using that by auto
  then have "FindCounter sample_counters sample_reader 14 ?f = Inr 1"
    by (subst FindCounter_finds_first [OF sample_reader_ok]) (simp_all add: found max)
  then show ?thesis
    using FindCounter_finds_first [OF sample_reader_ok, of None sample_counters 14]
      FindCounter_finds_first [OF ok, of None sample_counters 14] by (simp add: found max)
qed

text \<open>
  Scanning for a type hands exactly the allocated counters of the type to the callback, in
  the order of their ids, with the key of each, until the callback asks to stop; a failure of
  the callback ends the scan with it.
\<close>

theorem ScanForType_visits:
  assumes "reader_ok reader"
  shows "ScanForType m reader typeId callback s =
     visit (\<lambda>s i. callback s i (counter_key reader i)) (typed_from m reader typeId 0) s"
  unfolding ScanForType_def by (rule ScanForType_loop_visit) (use assms in auto)

theorem ScanForType_visits_witness:
  "ScanForType sample_counters sample_reader 14 (\<lambda>s i b. Inr (True, s @ [i])) [] =
     visit (\<lambda>s i. Inr (True, s @ [i])) (typed_from sample_counters sample_reader 14 0) []"
  by (rule ScanForType_visits [OF sample_reader_ok])

text \<open>
  Counters do not interfere: a value set through one atomic counter is read back through any
  counter handle of the same id and through the reader, and the value of every other id stays.
\<close>

theorem AtomicCounter_Set_Get:
  assumes ok: "reader_ok reader" and ac: "NewAtomicCounter reader i = Inr ac" and rc: "NewReadableCounter reader j = Inr rc"
    and v: "in_i64 v"
  shows "\<exists>m'. AtomicCounter_Set m ac v = Inr m' \<and>
     ReadableCounter_Get m' rc = (if i = j then Inr v else ReadableCounter_Get m rc) \<and>
     GetCounterValue m' reader j = ReadableCounter_Get m' rc"
proof -
  have max: "wrap32 (maxCounterID reader) = maxCounterID reader"
    using ok by (auto simp: reader_ok_def wrap32_id)
  have ij: "0 \<le> i" "i \<le> maxCounterID reader" "0 \<le> j" "j \<le> maxCounterID reader" "has_counter reader j"
    and acD: "ac_Reader ac = reader" "ac_valueOffset ac = wrap32 (i * 128)"
    and rcD: "rc_Reader rc = reader" "rc_valueOffset rc = wrap32 (j * 128)"
    using ac rc by (auto simp: NewAtomicCounter_def NewReadableCounter_def NewReadableRegisteredCounter_def
        has_counter_def max split: if_splits)
  note bi = reader_ok_bounds [OF ok ij(1,2)] and bj = reader_ok_bounds [OF ok ij(3,4)]
  let ?p = "Ptr (rd_values reader)"
  have set: "AtomicCounter_Set m ac v = Inr (store 8 m (?p + i * 128) v)"
    using bi ok by (simp add: AtomicCounter_Set_def acD PutInt64Ordered_ok reader_ok_def)
  have get: "ReadableCounter_Get m rc = Inr (get_i64 m (?p + j * 128))" "GetCounterValue m reader j = ReadableCounter_Get m rc" for m
    using bj ij(5) record_reads(4) [OF ok ij(3,4)]
    by (simp_all add: ReadableCounter_Get_def rcD GetCounterValue_def counterOffset_def)
  have "get_i64 (store 8 m (?p + i * 128) v) (?p + j * 128) = (if i = j then v else get_i64 m (?p + j * 128))"
    using v by (auto simp: i64.get_put intro!: i64.get_put_other)
  then show ?thesis using set get by auto
qed

theorem AtomicCounter_Set_Get_witness:
  "\<exists>ac rc m'. NewAtomicCounter sample_reader 1 = Inr ac \<and> NewReadableCounter sample_reader 2 = Inr rc \<and>
     AtomicCounter_Set sample_counters ac 5 = Inr m' \<and>
     ReadableCounter_Get m' rc = (if 1 = (2::int) then Inr 5 else ReadableCounter_Get sample_counters rc) \<and>
     GetCounterValue m' sample_reader 2 = ReadableCounter_Get m' rc"
proof -
  obtain ac rc where h: "NewAtomicCounter sample_reader 1 = Inr ac" "NewReadableCounter sample_reader 2 = Inr rc"
    by (simp add: NewAtomicCounter_def NewReadableCounter_def NewReadableRegisteredCounter_def has_counter_def
        sample_reader_def NewReader_def Wrap_def wrap32_def signed_divide_int_def)
  then show ?thesis
    using AtomicCounter_Set_Get [OF sample_reader_ok h, of 5 sample_counters] by (auto simp: in_i64_def)
qed

text \<open>
  The layout of the command and control file: the length fields are at 4, 8, 12, 16 and 20,
  the sections start at 128 and follow each other without gap or overlap, each as long as its
  length field says. A mapping with another version is refused.
\<close>

theorem MapFile_layout:
  assumes "128 \<le> len" and "len < 2147483648"
    and "d = get_i32 m (ptr + 4)" and "c = get_i32 m (ptr + 8)" and "md = get_i32 m (ptr + 12)"
    and "v = get_i32 m (ptr + 16)" and "e = get_i32 m (ptr + 20)"
  shows "if get_i32 m ptr \<noteq> CurrentCncVersion then
       MapFile m (Inr (ptr, len)) = Inr (Inl ''aeron cnc file version not understood'')
     else \<exists>meta. MapFile m (Inr (ptr, len)) = Inr (Inr meta) \<and>
       ToDriverBuf meta = Wrap (ptr + 128) d \<and> ToClientsBuf meta = Wrap (ptr + 128 + d) c \<and>
       MetaDataBuf meta = Wrap (ptr + 128 + d + c) md \<and> ValuesBuf meta = Wrap (ptr + 128 + d + c + md) v \<and>
       ErrorBuf meta = Wrap (ptr + 128 + d + c + md + v) e \<and> cnc_size meta = 128 + d + c + md + v + e \<and>
       ClientLivenessTo meta = ptr + 24 \<and> DriverStartTimestamp meta = ptr + 32 \<and> DriverPid meta = ptr + 40"
proof -
  have "wrap32 len = len" using assms(1,2) by (intro wrap32_id) linarith+
  then have buf: "MakeBuffer [PointerArg ptr, IntegerArg len] = Inr (Wrap ptr len)" by (simp add: MakeBuffer_def)
  have al: "AlignInt32 48 128 = 128" by code_simp
  let ?b = "Wrap ptr len"
  have f32: "Int32Field_Wrap ?b p = Inr (ptr + p, 4)" if "0 \<le> p" "p \<le> 100" for p
    using Int32Field_Wrap_ok [of p ?b] that assms(1,2) by (simp add: Wrap_def)
  have f64: "Int64Field_Wrap ?b p = Inr (ptr + p, 8)" if "0 \<le> p" "p \<le> 100" for p
    using Int64Field_Wrap_ok [of p ?b] that assms(1,2) by (simp add: Wrap_def)
  obtain meta where "MetaDataFlyweight_Wrap m ?b 0 = Inr meta" and "CncVersion meta = ptr"
    "ToDriverBuf meta = Wrap (ptr + 128) d \<and> ToClientsBuf meta = Wrap (ptr + 128 + d) c \<and>
       MetaDataBuf meta = Wrap (ptr + 128 + d + c) md \<and> ValuesBuf meta = Wrap (ptr + 128 + d + c + md) v \<and>
       ErrorBuf meta = Wrap (ptr + 128 + d + c + md + v) e \<and> cnc_size meta = 128 + d + c + md + v + e \<and>
       ClientLivenessTo meta = ptr + 24 \<and> DriverStartTimestamp meta = ptr + 32 \<and> DriverPid meta = ptr + 40"
    by (simp add: MetaDataFlyweight_Wrap_def f32 f64 Let_def RawDataField_Wrap_def CacheLineLength_def al
        wrap32_id Int32Field_Get_def assms(3-7) Wrap_def [of _ "get_i32 m _"] add.assoc)
  then show ?thesis by (auto simp: MapFile_def buf Int32Field_Get_def)
qed

theorem MapFile_layout_witness:
  "if get_i32 (store 4 (\<lambda>_. 0) 0 512) 0 \<noteq> CurrentCncVersion then
       MapFile (store 4 (\<lambda>_. 0) 0 512) (Inr (0, 4096)) = Inr (Inl ''aeron cnc file version not understood'')
     else \<exists>meta. MapFile (store 4 (\<lambda>_. 0) 0 512) (Inr (0, 4096)) = Inr (Inr meta) \<and>
       ToDriverBuf meta = Wrap (0 + 128) 0 \<and> ToClientsBuf meta = Wrap (0 + 128 + 0) 0 \<and>
       MetaDataBuf meta = Wrap (0 + 128 + 0 + 0) 0 \<and> ValuesBuf meta = Wrap (0 + 128 + 0 + 0 + 0) 0 \<and>
       ErrorBuf meta = Wrap (0 + 128 + 0 + 0 + 0 + 0) 0 \<and> cnc_size meta = 128 + 0 + 0 + 0 + 0 + 0 \<and>
       ClientLivenessTo meta = 0 + 24 \<and> DriverStartTimestamp meta = 0 + 32 \<and> DriverPid meta = 0 + 40"
  by (rule MapFile_layout) code_simp+

text \<open>
  (C37) The last counter of the values section is out of the reader's reach: with room for exactly
  \<open>n + 1\<close> counters the reader takes \<open>n\<close> as the first invalid id, so that the value of counter \<open>n\<close> is
  reported as 0 whatever it is, no handle for it can be made and no search finds it, while a scan
  over all counters does report it, as its last one, with its type, value and label. The records
  before it have been used, and labels are at most as long as a record allows.
\<close>

theorem last_counter_unreadable:
  assumes "Capacity values = (n + 1) * 128" and "0 \<le> n" and "n < 4000000"
    and "Capacity metaData = (n + 1) * 512" and "reader = NewReader values metaData"
    and "\<forall>i\<in>{0..n}. counter_state m reader i \<noteq> RecordUnused"
    and "counter_state m reader n = RecordAllocated" and "labels_ok m reader"
  shows "GetCounterValue m reader n = Inr 0 \<and> NewReadableCounter reader n = Inl ''counterId'' \<and>
    FindCounter m reader typeId None \<noteq> Inr n \<and>
    (\<exists>cs. Reader_Scan m reader (\<lambda>s c. Inr (s @ [c])) [] = Some (Inr (cs @ [counter_at m reader n])))"
proof -
  have "(n + 1) * 128 sdiv 128 = n + 1" using assms(2) by (simp add: signed_divide_int_def sgn_if)
  then have max: "maxCounterID reader = n" by (simp add: assms(5) NewReader_def assms(1))
  have bufs: "rd_metaData reader = metaData" "rd_values reader = values" by (simp_all add: assms(5) NewReader_def)
  have ok: "reader_ok reader" using assms(1-4) by (simp add: reader_ok_def max bufs)
  have gone: "\<not> has_counter reader n" using assms(2,3) by (simp add: has_counter_def max wrap32_id)
  have "FindCounter m reader typeId None \<noteq> Inr n"
    using FindCounter_loop_find [of reader 0 None m typeId] find_typed_from [of reader _ m typeId] ok assms(2)
    by (auto simp: FindCounter_def max split: option.splits)
  moreover have "Reader_Scan m reader (\<lambda>s c. Inr (s @ [c])) [] =
      Some (Inr (map (counter_at m reader) (live_between m reader 0 n)))"
    using scan_loop_visit [OF ok _ assms(8), of 0 "\<lambda>s c. Inr (s @ [c])" "[]"] visit_collects [of "counter_at m reader" _ "[]"]
    by (simp add: Reader_Scan_def max bufs assms(2,4))
  moreover have "live_between m reader 0 n = live_between m reader 0 (n - 1) @ [n]"
    using live_between_last [OF assms(2), of m reader] assms(6,7) by auto
  ultimately show ?thesis
    using gone by (auto simp: GetCounterValue_def NewReadableCounter_def NewReadableRegisteredCounter_def)
qed

definition full_counters :: mem where
  "full_counters = write_bytes (store 4 sample_counters 40640 3) 40644 [0x61, 0x62, 0x63]"

theorem last_counter_unreadable_witness:
  "GetCounterValue full_counters full_reader 1 = Inr 0 \<and> NewReadableCounter full_reader 1 = Inl ''counterId'' \<and>
    FindCounter full_counters full_reader 14 None \<noteq> Inr 1 \<and>
    (\<exists>cs. Reader_Scan full_counters full_reader (\<lambda>s c. Inr (s @ [c])) [] =
      Some (Inr (cs @ [\<lparr>ctr_Id = 1, ctr_TypeId = 14, ctr_Value = 77, ctr_Label = [0x61, 0x62, 0x63]\<rparr>])))"
proof -
  have at: "counter_at full_counters full_reader 1 =
      \<lparr>ctr_Id = 1, ctr_TypeId = 14, ctr_Value = 77, ctr_Label = [0x61, 0x62, 0x63]\<rparr>" by code_simp
  show ?thesis
    unfolding at [symmetric] by (rule last_counter_unreadable [OF _ _ _ _ full_reader_def]) code_simp+
qed

end
