(* ===== verification/Subscription.thy ===== *)
theory Subscription
  imports Image_Polling Counters Channel_Uri "HOL-Library.Multiset"
begin

text \<open>
  \<open>aeron/subscription.go\<close> and \<open>aeron/imagelist.go\<close>: a subscription polls its images round robin.
  The image list is the current value of the atomically published slice. The conductor's
  counters reader is an argument; the operations that go through the conductor (closing, adding
  and removing destinations) are modelled with it. Handlers for image events are named by
  numbers, no handler being \<open>None\<close>.
\<close>

definition ChannelStatusNoIdAllocated :: int where [simp]: "ChannelStatusNoIdAllocated = - 1"
definition ChannelStatusErrored :: int where [simp]: "ChannelStatusErrored = - 1"
definition ChannelStatusInitializing :: int where [simp]: "ChannelStatusInitializing = 0"
definition ChannelStatusActive :: int where [simp]: "ChannelStatusActive = 1"
definition ChannelStatusClosing :: int where [simp]: "ChannelStatusClosing = 2"
definition LocalSocketAddressStatusCounterTypeId :: int where
  [simp]: "LocalSocketAddressStatusCounterTypeId = 14"

definition ChannelStatusString :: "int \<Rightarrow> string" where
  "ChannelStatusString channelStatus =
     (if channelStatus = ChannelStatusErrored then ''ChannelStatusErrored''
      else if channelStatus = ChannelStatusInitializing then ''ChannelStatusInitializing''
      else if channelStatus = ChannelStatusActive then ''ChannelStatusActive''
      else if channelStatus = ChannelStatusClosing then ''ChannelStatusClosing''
      else ''Unknown'')"

type_synonym ImageList = "image list"
type_synonym handler_id = nat

definition NewImageList :: ImageList where "NewImageList = []"

text \<open>\<open>Empty\<close>: the old list and the new one.\<close>

definition ImageList_Empty :: "ImageList \<Rightarrow> image list \<times> ImageList" where
  "ImageList_Empty l = (l, [])"

record Subscription =
  sub_channel :: "byte list"
  roundRobinIndex :: int
  sub_registrationID :: int
  sub_streamID :: int
  sub_channelStatusID :: int
  sub_images :: ImageList
  sub_isClosed :: bool
  sub_availableImageHandler :: "handler_id option"
  sub_unavailableImageHandler :: "handler_id option"

definition NewSubscription :: "byte list \<Rightarrow> int \<Rightarrow> int \<Rightarrow> int \<Rightarrow> handler_id option \<Rightarrow> handler_id option \<Rightarrow> Subscription" where
  "NewSubscription channel registrationID strID channelStatusID available unavailable =
     \<lparr>sub_channel = channel, roundRobinIndex = 0, sub_registrationID = registrationID,
      sub_streamID = strID, sub_channelStatusID = channelStatusID, sub_images = NewImageList,
      sub_isClosed = False, sub_availableImageHandler = available,
      sub_unavailableImageHandler = unavailable\<rparr>"

definition Subscription_ChannelStatus :: "mem \<Rightarrow> Reader \<Rightarrow> Subscription \<Rightarrow> int res" where
  "Subscription_ChannelStatus m reader sub =
     (if sub_isClosed sub then Inr ChannelStatusNoIdAllocated
      else if sub_channelStatusID sub = - 1 then Inr ChannelStatusActive
      else GetCounterValue m reader (sub_channelStatusID sub))"

subsection \<open>Polling\<close>

text \<open>The poll of one image, which \<open>Poll\<close> and \<open>ControlledPoll\<close> share the loops over.\<close>

type_synonym 's image_poll = "mem \<Rightarrow> image \<Rightarrow> int \<Rightarrow> 's \<Rightarrow> (int \<times> image \<times> mem \<times> 's) res option"

type_synonym 's polled = "(int \<times> image list \<times> mem \<times> 's) res option"

fun poll_range :: "'s image_poll \<Rightarrow> int \<Rightarrow> nat list \<Rightarrow> int \<Rightarrow> image list \<Rightarrow> mem \<Rightarrow> 's \<Rightarrow> 's polled" where
  "poll_range poll fragmentLimit [] fragmentsRead img m s = Some (Inr (fragmentsRead, img, m, s))"
| "poll_range poll fragmentLimit (i # ix) fragmentsRead img m s =
     (if fragmentsRead < fragmentLimit then
        (case poll m (img ! i) (fragmentLimit - fragmentsRead) s of
           None \<Rightarrow> None
         | Some (Inl e) \<Rightarrow> Some (Inl e)
         | Some (Inr (newFrags, im, m, s)) \<Rightarrow>
             poll_range poll fragmentLimit ix (fragmentsRead + newFrags) (img[i := im]) m s)
      else Some (Inr (fragmentsRead, img, m, s)))"

definition then_poll :: "'s polled \<Rightarrow> (int \<Rightarrow> image list \<Rightarrow> mem \<Rightarrow> 's \<Rightarrow> 's polled) \<Rightarrow> 's polled" where
  "then_poll r f =
     (case r of None \<Rightarrow> None | Some (Inl e) \<Rightarrow> Some (Inl e) | Some (Inr (n, img, m, s)) \<Rightarrow> f n img m s)"

definition next_round :: "int \<Rightarrow> int \<Rightarrow> int \<times> int" where
  "next_round roundRobin len = (if roundRobin \<ge> len then (0, 0) else (roundRobin, roundRobin + 1))"

definition Subscription_poll_with :: "'s image_poll \<Rightarrow> mem \<Rightarrow> Subscription \<Rightarrow> int \<Rightarrow> 's \<Rightarrow>
    (int \<times> Subscription \<times> mem \<times> 's) res option" where
  "Subscription_poll_with poll m sub fragmentLimit s =
     (let img = sub_images sub; len = length img
      in if len > 0 then
           (let (startingIndex, roundRobin) = next_round (roundRobinIndex sub) (int len);
                sub = sub\<lparr>roundRobinIndex := roundRobin\<rparr>
            in map_option (\<lambda>r. bindR r (\<lambda>(n, img, m, s). Inr (n, sub\<lparr>sub_images := img\<rparr>, m, s)))
                 (then_poll (poll_range poll fragmentLimit [nat startingIndex..<len] 0 img m s)
                   (poll_range poll fragmentLimit [0..<nat startingIndex])))
         else Some (Inr (0, sub, m, s)))"

definition Subscription_Poll :: "mem \<Rightarrow> Subscription \<Rightarrow> 's FragmentHandler \<Rightarrow> int \<Rightarrow> 's \<Rightarrow>
    (int \<times> Subscription \<times> mem \<times> 's) res option" where
  "Subscription_Poll m sub handler fragmentLimit s =
     Subscription_poll_with (\<lambda>m img. Image_Poll m img handler) m sub fragmentLimit s"

definition Subscription_ControlledPoll :: "mem \<Rightarrow> Subscription \<Rightarrow> 's ControlledFragmentHandler \<Rightarrow> int \<Rightarrow> 's \<Rightarrow>
    (int \<times> Subscription \<times> mem \<times> 's) res option" where
  "Subscription_ControlledPoll m sub handler fragmentLimit s =
     Subscription_poll_with (\<lambda>m img. Image_ControlledPoll m img handler) m sub fragmentLimit s"

subsection \<open>Images of a subscription\<close>

definition hasImage :: "Subscription \<Rightarrow> int \<Rightarrow> bool" where
  "hasImage sub sessID \<longleftrightarrow> list_ex (\<lambda>im. img_sessionID im = sessID) (sub_images sub)"

text \<open>\<open>addImage\<close> returns the list as it was before.\<close>

definition addImage :: "Subscription \<Rightarrow> image \<Rightarrow> image list \<times> Subscription" where
  "addImage sub im = (sub_images sub, sub\<lparr>sub_images := sub_images sub @ [im]\<rparr>)"

fun index_by :: "('a \<Rightarrow> bool) \<Rightarrow> 'a list \<Rightarrow> nat option" where
  "index_by p [] = None"
| "index_by p (x # xs) = (if p x then Some 0 else map_option Suc (index_by p xs))"

definition removeImage :: "Subscription \<Rightarrow> int \<Rightarrow> image option \<times> Subscription" where
  "removeImage sub correlationID =
     (let img = sub_images sub
      in case index_by (\<lambda>im. img_correlationID im = correlationID) img of
           None \<Rightarrow> (None, sub)
         | Some ix \<Rightarrow> (Some (img ! ix), sub\<lparr>sub_images := butlast (img[ix := last img])\<rparr>))"

definition Subscription_IsConnected :: "Subscription \<Rightarrow> bool" where
  "Subscription_IsConnected sub \<longleftrightarrow> list_ex (\<lambda>im. \<not> img_isClosed im) (sub_images sub)"

definition HasImages :: "Subscription \<Rightarrow> bool" where
  "HasImages sub \<longleftrightarrow> length (sub_images sub) > 0"

definition ImageCount :: "Subscription \<Rightarrow> int" where
  "ImageCount sub = int (length (sub_images sub))"

definition ImageBySessionID :: "Subscription \<Rightarrow> int \<Rightarrow> image option" where
  "ImageBySessionID sub sessID = find (\<lambda>im. img_sessionID im = sessID) (sub_images sub)"

definition IsConnectedTo :: "Subscription \<Rightarrow> Publication \<Rightarrow> bool" where
  "IsConnectedTo sub pub \<longleftrightarrow>
     sub_channel sub = pub_channel pub \<and> sub_streamID sub = pub_streamID pub \<and>
     list_ex (\<lambda>im. img_sessionID im = pub_sessionID pub) (sub_images sub)"

subsection \<open>Socket addresses\<close>

text \<open>The key of a local socket address counter, if it is an active one of this channel.\<close>

definition socket_address :: "mem \<Rightarrow> Reader \<Rightarrow> Subscription \<Rightarrow> int \<Rightarrow> buffer \<Rightarrow> byte list option res" where
  "socket_address m reader sub counterId keyBuffer =
     bindR (GetInt32 m keyBuffer 0) (\<lambda>channelStatusId.
     bindR (GetInt32 m keyBuffer 4) (\<lambda>len.
     if channelStatusId = sub_channelStatusID sub \<and> len > 0 then
       bindR (GetCounterValue m reader counterId) (\<lambda>value.
       if value = ChannelStatusActive then
         bindR (GetBytesArray m keyBuffer 8 len) (\<lambda>address. Inr (Some address))
       else Inr None)
     else Inr None))"

definition ResolvedEndpoint :: "mem \<Rightarrow> Reader \<Rightarrow> Subscription \<Rightarrow> byte list res" where
  "ResolvedEndpoint m reader sub =
     bindR (Subscription_ChannelStatus m reader sub) (\<lambda>status.
     if status \<noteq> ChannelStatusActive then Inr []
     else
       ScanForType m reader LocalSocketAddressStatusCounterTypeId (\<lambda>endpoint counterId keyBuffer.
         bindR (socket_address m reader sub counterId keyBuffer) (\<lambda>address.
         case address of Some a \<Rightarrow> Inr (False, a) | None \<Rightarrow> Inr (True, endpoint))) [])"

definition LocalSocketAddresses :: "mem \<Rightarrow> Reader \<Rightarrow> Subscription \<Rightarrow> byte list list res" where
  "LocalSocketAddresses m reader sub =
     bindR (Subscription_ChannelStatus m reader sub) (\<lambda>status.
     if status \<noteq> ChannelStatusActive then Inr []
     else
       ScanForType m reader LocalSocketAddressStatusCounterTypeId (\<lambda>bindings counterId keyBuffer.
         bindR (socket_address m reader sub counterId keyBuffer) (\<lambda>address.
         case address of Some a \<Rightarrow> Inr (True, bindings @ [a]) | None \<Rightarrow> Inr (True, bindings))) [])"

text \<open>From the last colon on; a negative start of a slice panics.\<close>

fun last_index :: "byte \<Rightarrow> byte list \<Rightarrow> nat option" where
  "last_index c [] = None"
| "last_index c (x # xs) =
     (case last_index c xs of Some i \<Rightarrow> Some (Suc i) | None \<Rightarrow> if x = c then Some 0 else None)"

definition from_last_colon :: "byte list \<Rightarrow> byte list res" where
  "from_last_colon s =
     (case last_index 0x3A s of None \<Rightarrow> Inl (Panic ''slice bounds out of range'') | Some i \<Rightarrow> Inr (drop i s))"

definition TryResolveChannelEndpointPort :: "mem \<Rightarrow> Reader \<Rightarrow> Subscription \<Rightarrow> byte list res" where
  "TryResolveChannelEndpointPort m reader sub =
     bindR (Subscription_ChannelStatus m reader sub) (\<lambda>status.
     if status \<noteq> ChannelStatusActive then Inr []
     else
       bindR (LocalSocketAddresses m reader sub) (\<lambda>addresses.
       if length addresses \<noteq> 1 then Inr (sub_channel sub)
       else
         case ParseChannelUri (sub_channel sub) of
           Inl err \<Rightarrow> Inr (sub_channel sub)
         | Inr uri \<Rightarrow>
             let endpoint = ChannelUri_Get uri EndpointParamName
             in if HasSuffix endpoint (str '':0'') then
                  bindR (from_last_colon (hd addresses)) (\<lambda>port.
                  Inr (ChannelUri_String
                    (ChannelUri_Set uri EndpointParamName (take (length endpoint - 2) endpoint @ port))))
                else Inr (sub_channel sub)))"

subsection \<open>How many fragments a poll reads\<close>

lemma Read_loop_count:
  "Read_loop handler m tb lim limit off n header s = Some r \<Longrightarrow> r = Inr (off', n', header', s') \<Longrightarrow>
   n \<le> n' \<and> n' \<le> max n limit"
proof (induction handler m tb lim limit off n header s r rule: Read_loop.raw_induct [rotated, consumes 1, case_names step])
  case (step loop handler m tb lim limit off n header s r)
  then show ?case
    by (fastforce simp: Let_def split: if_splits sum.splits)
qed

lemma ControlledPoll_step_count:
  assumes "ControlledPoll_step handler pos tb limit (m, off, n, ip, io, header, s) =
      Inr (continue, m', off', n', ip', io', header', s')"
  shows "n \<le> n' \<and> n' \<le> max n limit"
  using assms
  by (auto simp: ControlledPoll_step_def Let_def bindR_def split: if_splits sum.splits prod.splits)

lemma ControlledPoll_loop_count:
  "ControlledPoll_loop handler pos tb limit st = Some r \<Longrightarrow>
   st = (m, off, n, ip, io, header, s) \<Longrightarrow> r = Inr (m', off', n', ip', io', header', s') \<Longrightarrow>
   n \<le> n' \<and> n' \<le> max n limit"
proof (induction handler pos tb limit st r arbitrary: m off n ip io header s
    rule: ControlledPoll_loop.raw_induct [rotated, consumes 1, case_names step])
  case (step loop handler pos tb limit st r)
  show ?case
  proof (cases "ControlledPoll_step handler pos tb limit st")
    case (Inr y)
    obtain c m1 off1 n1 ip1 io1 h1 s1 where y: "y = (c, m1, off1, n1, ip1, io1, h1, s1)" by (metis prod_cases7)
    have "n \<le> n1 \<and> n1 \<le> max n limit" by (rule ControlledPoll_step_count [OF Inr [unfolded step(3) y]])
    moreover have "n1 \<le> n' \<and> n' \<le> max n1 limit"
      using step(1) [OF _ refl step(4)] step(2,4) Inr y by (cases c) auto
    ultimately show ?thesis by auto
  qed (use step in auto)
qed

text \<open>The interface a subscription polls its images through: the count respects the limit.\<close>

locale image_poller =
  fixes poll :: "'s image_poll"
  assumes count: "poll m img limit s = Some (Inr (n, img', m', s')) \<Longrightarrow> 0 \<le> n \<and> n \<le> max 0 limit"
begin

lemma poll_range_count:
  assumes "poll_range poll limit ix n img m s = Some (Inr (n', img', m', s'))"
  shows "n \<le> n' \<and> n' \<le> max n limit \<and> length img' = length img"
  using assms
proof (induction ix arbitrary: n img m s)
  case (Cons i ix)
  show ?case
  proof (cases "n < limit")
    case True
    then obtain k im m1 s1 where p: "poll m (img ! i) (limit - n) s = Some (Inr (k, im, m1, s1))"
      and rest: "poll_range poll limit ix (n + k) (img[i := im]) m1 s1 = Some (Inr (n', img', m', s'))"
      using Cons.prems by (auto split: option.splits sum.splits)
    show ?thesis using count [OF p] Cons.IH [OF rest] True by auto
  qed (use Cons.prems in auto)
qed simp

lemma subscription_count:
  assumes "Subscription_poll_with poll m sub limit s = Some (Inr (n, sub', m', s'))"
  shows "0 \<le> n \<and> n \<le> max 0 limit \<and> length (sub_images sub') = length (sub_images sub)"
  using assms
  by (auto simp: Subscription_poll_with_def then_poll_def bindR_eq_Inr Let_def
      split: if_splits option.splits sum.splits prod.splits dest!: poll_range_count)

end

interpretation plain: image_poller "\<lambda>m img. Image_Poll m img handler" for handler
proof
  fix m img limit s n img' m' s'
  assume "Image_Poll m img handler limit s = Some (Inr (n, img', m', s'))"
  then show "0 \<le> n \<and> n \<le> max 0 limit"
    by (auto simp: Image_Poll_def Read_def bindR_eq_Inr Let_def split: if_splits sum.splits prod.splits
        dest!: Read_loop_count [OF _ refl])
qed

interpretation controlled: image_poller "\<lambda>m img. Image_ControlledPoll m img handler" for handler
proof
  fix m img limit s n img' m' s'
  assume "Image_ControlledPoll m img handler limit s = Some (Inr (n, img', m', s'))"
  then show "0 \<le> n \<and> n \<le> max 0 limit"
    by (auto simp: Image_ControlledPoll_def bindR_eq_Inr Let_def split: if_splits sum.splits prod.splits
        dest!: ControlledPoll_loop_count [OF _ refl refl])
qed

subsection \<open>What a subscription delivers\<close>

text \<open>The counter of one image lies outside the terms and the counter of another.\<close>

definition separate :: "image \<Rightarrow> image \<Rightarrow> bool" where
  "separate a b \<longleftrightarrow>
     list_all (apart (subscriberPosition a)) (termBuffers b) \<and>
     (counter_addr (subscriberPosition a) + 8 \<le> counter_addr (subscriberPosition b) \<or>
      counter_addr (subscriberPosition b) + 8 \<le> counter_addr (subscriberPosition a))"

text \<open>The images \<open>ix\<close> stand at their positions, image \<open>i\<close> before the frames \<open>fss ! i\<close> of its term.\<close>

definition images_at :: "mem \<Rightarrow> image list \<Rightarrow> frame list list \<Rightarrow> nat list \<Rightarrow> bool" where
  "images_at m imgs fss ix \<longleftrightarrow>
     distinct ix \<and> (\<forall>i\<in>set ix. i < length imgs) \<and>
     (\<forall>i\<in>set ix. \<exists>k tc off. image_at m (imgs ! i) k tc off (fss ! i)) \<and>
     (\<forall>i < length imgs. \<forall>j < length imgs. i \<noteq> j \<longrightarrow> separate (imgs ! i) (imgs ! j))"

lemma moved_image_at:
  assumes at: "image_at m b k tc off fs" and moved: "moved_to m m' a position" and sep: "separate a b"
  shows "image_at m' b k tc off fs"
proof -
  have same: "m' x = m x" if "x < counter_addr (subscriberPosition a) \<or> counter_addr (subscriberPosition a) + 8 \<le> x" for x
    using moved that by (auto simp: moved_to_def)
  define tb where "tb = termBuffers b ! nat (tc mod 3)"
  have wf: "img_wf b k" and off: "0 \<le> off" "off mod 32 = 0" using at by (auto simp: image_at_def)
  obtain e where log: "log_at m (Ptr tb) off fs e" and e: "e \<le> 2 ^ k" and stops: "log_stops m tb (2 ^ k) e"
    using at by (auto simp: image_at_def tb_def)
  have k: "5 \<le> k" "k \<le> 30" using wf by (auto simp: img_wf_def)
  have "nat (tc mod 3) < length (termBuffers b)" using wf by (auto simp: img_wf_def)
  then have tb: "apart (subscriberPosition a) tb" "Capacity tb = 2 ^ k"
    using sep wf by (auto simp: separate_def img_wf_def list_all_length tb_def)
  have "log_at m' (Ptr tb) off fs e"
    using log by (rule log_at_cong) (use tb e off in \<open>auto simp: apart_def intro!: same\<close>)
  moreover have "log_stops m' tb (2 ^ k) e"
  proof (cases "2 ^ k \<le> e")
    case False
    then have "e + 4 \<le> 2 ^ k" using log_end_aligned [OF log off(2) e k] by simp
    moreover have "0 \<le> e" using log_at_le [OF log] off by simp
    ultimately have "get_i32 m' (Ptr tb + e) = get_i32 m (Ptr tb + e)"
      using tb by (intro i32.get_local) (auto simp: apart_def intro!: same)
    then show ?thesis using stops by (simp add: log_stops_def)
  qed (simp add: log_stops_def)
  moreover have "get_i64 m' (counter_addr (subscriberPosition b)) = get_i64 m (counter_addr (subscriberPosition b))"
    using sep by (intro i64.get_local) (auto simp: separate_def intro!: same)
  ultimately show ?thesis using at e unfolding image_at_def tb_def by auto
qed

text \<open>Only the header object of an image changes in a poll.\<close>

lemma Image_Poll_image:
  assumes "Image_Poll m img handler limit s = Some (Inr (n, img', m', s'))"
  shows "\<exists>h. img' = img\<lparr>img_header := h\<rparr>"
proof (cases "img_isClosed img")
  case True
  then have "img' = img\<lparr>img_header := img_header img\<rparr>" using assms by (simp add: Image_Poll_def)
  then show ?thesis by blast
next
  case False
  then show ?thesis
    using assms by (auto simp: Image_Poll_def bindR_eq_Inr Let_def split: sum.splits prod.splits)
qed

lemma image_at_header [simp]: "image_at m (img\<lparr>img_header := h\<rparr>) k tc off fs \<longleftrightarrow> image_at m img k tc off fs"
  by (simp add: image_at_def img_wf_def)

lemma separate_header [simp]:
  "separate (a\<lparr>img_header := h\<rparr>) b \<longleftrightarrow> separate a b" "separate a (b\<lparr>img_header := h\<rparr>) \<longleftrightarrow> separate a b"
  by (simp_all add: separate_def)

lemma images_at_polled:
  assumes at: "images_at m imgs fss (i # ix)" and moved: "moved_to m m' (imgs ! i) position"
  shows "images_at m' (imgs[i := (imgs ! i)\<lparr>img_header := h\<rparr>]) fss ix"
proof -
  have "\<exists>k tc off. image_at m' (imgs ! j) k tc off (fss ! j)" if "j \<in> set ix" for j
    using at that moved_image_at [OF _ moved] unfolding images_at_def by (metis distinct.simps(2) list.set_intros)
  moreover have "j \<noteq> i" if "j \<in> set ix" for j using at that by (auto simp: images_at_def)
  ultimately show ?thesis using at unfolding images_at_def by (auto simp: nth_list_update)
qed

lemma then_poll_simps [simp]:
  "then_poll None f = None" "then_poll (Some (Inl e)) f = Some (Inl e)"
  "then_poll (Some (Inr (n, img, m, s))) f = f n img m s"
  by (simp_all add: then_poll_def)

lemma poll_range_append:
  "then_poll (poll_range poll limit ix n img m s) (poll_range poll limit jx) = poll_range poll limit (ix @ jx) n img m s"
proof (induction ix arbitrary: n img m s)
  case (Cons i ix)
  show ?case
  proof (cases "n < limit")
    case True
    then show ?thesis by (auto simp: Cons.IH split: option.split sum.split)
  next
    case False
    then show ?thesis by (cases jx) auto
  qed
qed simp

context fragment_consumer
begin

lemma poll_range_delivers:
  assumes "images_at m imgs fss ix" and "invariant s"
  shows "\<exists>imgs' m' s'. poll_range (\<lambda>m img. Image_Poll m img handler) limit ix n imgs m s =
      Some (Inr (n + int (length (take (nat (limit - n)) (concat (map (\<lambda>i. data_frames (fss ! i)) ix)))), imgs', m', s')) \<and>
    invariant s' \<and>
    view s' = foldl consume (view s) (take (nat (limit - n)) (concat (map (\<lambda>i. data_frames (fss ! i)) ix)))"
  using assms
proof (induction ix arbitrary: n imgs m s)
  case (Cons i ix)
  let ?rest = "concat (map (\<lambda>i. data_frames (fss ! i)) ix)"
  show ?case
  proof (cases "n < limit")
    case True
    define ds where "ds = take (nat (limit - n)) (data_frames (fss ! i))"
    obtain k tc off where at: "image_at m (imgs ! i) k tc off (fss ! i)"
      using Cons.prems(1) by (auto simp: images_at_def)
    obtain off' im m1 s1 where p: "Image_Poll m (imgs ! i) handler (limit - n) s = Some (Inr (int (length ds), im, m1, s1))"
      and s1: "invariant s1" "view s1 = foldl consume (view s) ds"
      and moved: "moved_to m m1 (imgs ! i) (tc * 2 ^ k + off')"
      using image_poll [OF at Cons.prems(2) ds_def] by blast
    obtain h where im: "im = (imgs ! i)\<lparr>img_header := h\<rparr>" using Image_Poll_image [OF p] by blast
    have split: "take (nat (limit - n)) (data_frames (fss ! i) @ ?rest) =
        ds @ take (nat (limit - (n + int (length ds)))) ?rest"
      using True by (auto simp: ds_def min_def intro!: arg_cong2 [where f = take])
    show ?thesis
      using Cons.IH [OF images_at_polled [OF Cons.prems(1) moved, of h] s1(1), of "n + int (length ds)"]
        True p s1(2) split by (auto simp: im)
  qed (use Cons.prems(2) in simp)
qed simp

lemma subscription_delivers:
  assumes at: "images_at m (sub_images sub) fss [0..<length (sub_images sub)]" and "invariant s"
    and r: "0 \<le> roundRobinIndex sub" and start: "i = nat (fst (next_round (roundRobinIndex sub) (int (length (sub_images sub)))))"
    and ds: "ds = take (nat limit) (concat (map data_frames (drop i fss @ take i fss)))"
    and len: "length fss = length (sub_images sub)"
  shows "\<exists>sub' m' s'. Subscription_Poll m sub handler limit s = Some (Inr (int (length ds), sub', m', s')) \<and>
    invariant s' \<and> view s' = foldl consume (view s) ds"
proof (cases "sub_images sub = []")
  case True
  then show ?thesis using len assms(2) by (simp add: Subscription_Poll_def Subscription_poll_with_def ds)
next
  case False
  let ?n = "length (sub_images sub)"
  have i: "i < ?n" using False r by (auto simp: start next_round_def)
  have "map ((!) fss) [i..<?n] = drop i fss" "map ((!) fss) [0..<i] = take i fss"
    using len i by (auto intro: nth_equalityI)
  then have "map ((!) fss) ([i..<?n] @ [0..<i]) = drop i fss @ take i fss" by (simp only: map_append)
  moreover have "map (\<lambda>j. data_frames (fss ! j)) ix = map data_frames (map ((!) fss) ix)" for ix by simp
  ultimately have order: "map (\<lambda>j. data_frames (fss ! j)) ([i..<?n] @ [0..<i]) =
      map data_frames (drop i fss @ take i fss)" by (simp only:)
  have "images_at m (sub_images sub) fss ([i..<?n] @ [0..<i])"
    using at i by (auto simp: images_at_def)
  from poll_range_delivers [OF this assms(2), of limit 0, unfolded order]
  obtain imgs' m' s' where p: "poll_range (\<lambda>m img. Image_Poll m img handler) limit ([i..<?n] @ [0..<i]) 0 (sub_images sub) m s =
      Some (Inr (int (length ds), imgs', m', s'))" "invariant s'" "view s' = foldl consume (view s) ds"
    by (auto simp: ds)
  obtain st rr where nr: "next_round (roundRobinIndex sub) (int ?n) = (st, rr)" "i = nat st"
    using start by (cases "next_round (roundRobinIndex sub) (int ?n)") simp
  then show ?thesis
    using False p by (simp add: Subscription_Poll_def Subscription_poll_with_def Let_def poll_range_append)
qed

end

subsection \<open>Round robin\<close>

text \<open>Successive polls of a subscription, whatever their handlers, limits and memories.\<close>

inductive polled_times :: "'s itself \<Rightarrow> nat \<Rightarrow> Subscription \<Rightarrow> Subscription \<Rightarrow> bool" for ty :: "'s itself" where
  none: "polled_times ty 0 sub sub"
| poll: "\<lbrakk>polled_times ty t sub sub1; Subscription_Poll m sub1 handler limit (s :: 's) = Some (Inr (n, sub2, m', s'))\<rbrakk> \<Longrightarrow>
     polled_times ty (Suc t) sub sub2"

inductive_cases polled_timesE: "polled_times ty t sub sub'"

definition starting_index :: "Subscription \<Rightarrow> int" where
  "starting_index sub = fst (next_round (roundRobinIndex sub) (int (length (sub_images sub))))"

lemma Subscription_Poll_round:
  assumes "Subscription_Poll m sub handler limit s = Some (Inr (n, sub', m', s'))" and "sub_images sub \<noteq> []"
  shows "roundRobinIndex sub' = snd (next_round (roundRobinIndex sub) (int (length (sub_images sub))))"
    and "length (sub_images sub') = length (sub_images sub)"
proof -
  show "roundRobinIndex sub' = snd (next_round (roundRobinIndex sub) (int (length (sub_images sub))))"
    using assms
    by (auto simp: Subscription_Poll_def Subscription_poll_with_def bindR_eq_Inr Let_def split: prod.splits)
  show "length (sub_images sub') = length (sub_images sub)"
    using plain.subscription_count [OF assms(1) [unfolded Subscription_Poll_def]] by simp
qed

lemma polled_times_round:
  assumes "polled_times ty t sub sub'" and "sub_images sub \<noteq> []" and "0 \<le> roundRobinIndex sub"
    and "roundRobinIndex sub \<le> int (length (sub_images sub))"
  shows "length (sub_images sub') = length (sub_images sub) \<and>
    roundRobinIndex sub' = (roundRobinIndex sub + int t) mod (int (length (sub_images sub)) + 1)"
  using assms
proof (induction rule: polled_times.induct)
  case (none sub)
  then show ?case by simp
next
  case (poll t sub sub1 m handler limit s n sub2 m' s')
  let ?L = "int (length (sub_images sub))"
  have IH: "length (sub_images sub1) = length (sub_images sub)"
    "roundRobinIndex sub1 = (roundRobinIndex sub + int t) mod (?L + 1)" using poll by auto
  then have ne: "sub_images sub1 \<noteq> []" using poll.prems(1) by auto
  note step = Subscription_Poll_round [OF poll.hyps(2) ne]
  define r where "r = (roundRobinIndex sub + int t) mod (?L + 1)"
  have r: "0 \<le> r" "r \<le> ?L" using pos_mod_bound [of "?L + 1" "roundRobinIndex sub + int t"] by (simp_all add: r_def)
  have "(roundRobinIndex sub + int (Suc t)) mod (?L + 1) = (r + 1) mod (?L + 1)"
    unfolding r_def mod_add_left_eq by (simp add: ac_simps)
  also have "\<dots> = (if r = ?L then 0 else r + 1)" using r by simp
  also have "\<dots> = roundRobinIndex sub2" using step IH r by (simp add: r_def next_round_def)
  finally show ?case using step IH by simp
qed

lemma recorded_poll:
  assumes "images_at m (sub_images sub) fss [0..<length (sub_images sub)]" and "length fss = length (sub_images sub)"
    and "0 \<le> roundRobinIndex sub" and "i = nat (starting_index sub)"
    and "ds = take (nat limit) (concat (map data_frames (drop i fss @ take i fss)))"
  shows "\<exists>sub' m'. Subscription_Poll m sub record_fragment limit s =
      Some (Inr (int (length ds), sub', m', s @ map fr_payload ds))"
  using recorder.subscription_delivers [OF assms(1) TrueI assms(3) _ assms(5,2), of s] assms(4)
  by (auto simp: foldl_snoc starting_index_def)

lemma polled_times_starts:
  assumes "polled_times ty t sub sub'" and "0 \<le> roundRobinIndex sub"
    and "roundRobinIndex sub \<le> int (length (sub_images sub))" and "i < length (sub_images sub)"
    and t: "t = nat ((int i - roundRobinIndex sub) mod (int (length (sub_images sub)) + 1))"
  shows "length (sub_images sub') = length (sub_images sub)" and "roundRobinIndex sub' = int i" and "starting_index sub' = int i"
proof -
  let ?L = "int (length (sub_images sub))"
  have ne: "sub_images sub \<noteq> []" using assms(4) by auto
  have "int t = (int i - roundRobinIndex sub) mod (?L + 1)" unfolding t by simp
  then have "(roundRobinIndex sub + int t) mod (?L + 1) = int i"
    using assms(4) by (simp add: mod_add_right_eq)
  then show len: "length (sub_images sub') = length (sub_images sub)" and "roundRobinIndex sub' = int i"
    using polled_times_round [OF assms(1) ne assms(2,3)] by simp_all
  then show "starting_index sub' = int i" using assms(4) by (simp add: starting_index_def next_round_def)
qed

subsection \<open>Removing images\<close>

lemma index_by_Some: "index_by p xs = Some i \<Longrightarrow> i < length xs \<and> p (xs ! i)"
  by (induction xs arbitrary: i) (auto split: if_splits)

lemma index_by_None: "index_by p xs = None \<longleftrightarrow> (\<forall>x\<in>set xs. \<not> p x)"
  by (induction xs) auto

lemma mset_swap_remove:
  assumes "i < length xs"
  shows "add_mset (xs ! i) (mset (butlast (xs[i := last xs]))) = mset xs"
proof -
  let ?ys = "xs[i := last xs]"
  have ne: "xs \<noteq> []" "?ys \<noteq> []" using assms by auto
  have "last ?ys = last xs"
    using ne assms by (cases "i = length xs - 1") (simp_all add: last_conv_nth)
  then have "mset ?ys = add_mset (last xs) (mset (butlast ?ys))"
    using append_butlast_last_id [OF ne(2)] by (metis mset_append union_mset_add_mset_right add.right_neutral mset.simps)
  moreover have "mset ?ys = add_mset (last xs) (mset xs - {#xs ! i#})" using assms by (simp add: mset_update)
  ultimately have "mset (butlast ?ys) = mset xs - {#xs ! i#}" by simp
  then show ?thesis using assms by simp
qed

subsection \<open>Properties\<close>

text \<open>
  (C34) A poll of a subscription never reads more than it is asked for: plain and controlled
  polling return a count between 0 and the fragment limit, whatever the images hold, and keep
  the number of images.
\<close>

theorem Subscription_Poll_bounds:
  "(Subscription_Poll m sub handler limit s = Some (Inr (n, sub', m', s')) \<longrightarrow>
      0 \<le> n \<and> n \<le> max 0 limit \<and> ImageCount sub' = ImageCount sub) \<and>
   (Subscription_ControlledPoll m sub chandler limit s = Some (Inr (n, sub', m', s')) \<longrightarrow>
      0 \<le> n \<and> n \<le> max 0 limit \<and> ImageCount sub' = ImageCount sub)"
  unfolding Subscription_Poll_def Subscription_ControlledPoll_def ImageCount_def
  by (intro conjI impI; drule plain.subscription_count controlled.subscription_count; simp)

definition sample_subscription :: Subscription where
  "sample_subscription = (NewSubscription [] 1 22 (- 1) None None)\<lparr>sub_images := [sample_image]\<rparr>"

lemma sample_images_at:
  "images_at sample_frame_mem (sub_images sample_subscription) [[frame_at sample_frame_mem 4096]]
     [0..<length (sub_images sample_subscription)]"
  using sample_image_at by (auto simp: images_at_def sample_subscription_def NewSubscription_def)

theorem Subscription_Poll_bounds_witness:
  "\<exists>n sub' m' s'. Subscription_Poll sample_frame_mem sample_subscription record_fragment 10 [] = Some (Inr (n, sub', m', s')) \<and>
     0 \<le> n \<and> n \<le> max 0 10 \<and> ImageCount sub' = ImageCount sample_subscription \<and> n = 1 \<and> s' \<noteq> []"
proof -
  obtain sub' m' where p: "Subscription_Poll sample_frame_mem sample_subscription record_fragment 10 [] =
      Some (Inr (1, sub', m', [fr_payload (frame_at sample_frame_mem 4096)]))"
    using recorded_poll [OF sample_images_at, of 0 "[frame_at sample_frame_mem 4096]" 10 "[]"]
    by (auto simp: sample_subscription_def NewSubscription_def starting_index_def next_round_def sample_frame_log)
  then show ?thesis
    using conjunct1 [OF Subscription_Poll_bounds, of sample_frame_mem sample_subscription record_fragment 10 "[]" 1 sub' m']
    by blast
qed

text \<open>
  (C14) What a subscription delivers: with its images at their positions and their counters apart,
  one poll hands over the data frames of all images, image by image from the round robin index
  on and in log order within an image, up to the fragment limit over all of them.
\<close>

theorem Subscription_Poll_delivers:
  assumes "images_at m (sub_images sub) fss [0..<length (sub_images sub)]" and "length fss = length (sub_images sub)"
    and "0 \<le> roundRobinIndex sub" and "i = nat (starting_index sub)"
    and "ds = take (nat limit) (concat (map data_frames (drop i fss @ take i fss)))"
  shows "\<exists>sub' m'. Subscription_Poll m sub record_fragment limit s =
      Some (Inr (int (length ds), sub', m', s @ map fr_payload ds))"
  using assms by (rule recorded_poll)

theorem Subscription_Poll_delivers_witness:
  "\<exists>sub' m'. Subscription_Poll sample_frame_mem sample_subscription record_fragment 10 [] =
      Some (Inr (int (length [frame_at sample_frame_mem 4096]), sub', m',
        [] @ map fr_payload [frame_at sample_frame_mem 4096]))"
  by (rule Subscription_Poll_delivers [OF sample_images_at, where i = 0])
     (simp_all add: sample_subscription_def NewSubscription_def sample_frame_log starting_index_def next_round_def)

text \<open>
  (C21) Round robin is fair: as long as the list of images keeps its length \<open>L\<close>, every image is
  served first in one of any \<open>L + 1\<close> successive polls, whatever the polls before it were and
  returned. The number \<open>t\<close> of polls before image \<open>i\<close> has its turn is at most \<open>L\<close>, and the poll after
  them hands over the waiting fragments of image \<open>i\<close> before those of any other image, so a busy
  image cannot starve another.
\<close>

theorem Subscription_Poll_fair:
  assumes "0 \<le> roundRobinIndex sub" and "roundRobinIndex sub \<le> int (length (sub_images sub))"
    and "i < length (sub_images sub)"
    and "t = nat ((int i - roundRobinIndex sub) mod (int (length (sub_images sub)) + 1))"
  shows "t \<le> length (sub_images sub) \<and>
    (\<forall>sub' m fss limit s.
       polled_times ty t sub sub' \<and> images_at m (sub_images sub') fss [0..<length (sub_images sub)] \<and>
       length fss = length (sub_images sub) \<longrightarrow>
       (\<exists>n sub'' m'. Subscription_Poll m sub' record_fragment limit s = Some (Inr (n, sub'', m',
          s @ map fr_payload (take (nat limit)
            (data_frames (fss ! i) @ concat (map data_frames (drop (Suc i) fss @ take i fss))))))))"
proof (intro conjI allI impI)
  have "(int i - roundRobinIndex sub) mod (int (length (sub_images sub)) + 1) < int (length (sub_images sub)) + 1"
    by (intro pos_mod_bound) simp
  then show "t \<le> length (sub_images sub)" using assms(4) by linarith
next
  fix sub' m fss limit s
  assume h: "polled_times ty t sub sub' \<and> images_at m (sub_images sub') fss [0..<length (sub_images sub)] \<and>
    length fss = length (sub_images sub)"
  note start = polled_times_starts [OF conjunct1 [OF h] assms]
  have "drop i fss = fss ! i # drop (Suc i) fss" using h assms(3) by (simp add: Cons_nth_drop_Suc)
  then have "concat (map data_frames (drop i fss @ take i fss)) =
      data_frames (fss ! i) @ concat (map data_frames (drop (Suc i) fss @ take i fss))" by simp
  moreover have "\<exists>sub'' m'. Subscription_Poll m sub' record_fragment limit s =
      Some (Inr (int (length (take (nat limit) (concat (map data_frames (drop i fss @ take i fss))))), sub'', m',
        s @ map fr_payload (take (nat limit) (concat (map data_frames (drop i fss @ take i fss))))))"
    by (rule recorded_poll) (use h start in simp_all)
  ultimately show "\<exists>n sub'' m'. Subscription_Poll m sub' record_fragment limit s = Some (Inr (n, sub'', m',
      s @ map fr_payload (take (nat limit)
        (data_frames (fss ! i) @ concat (map data_frames (drop (Suc i) fss @ take i fss))))))" by auto
qed

text \<open>Two images, of which only the second has a frame waiting.\<close>

definition idle_image :: image where
  "idle_image = sample_image\<lparr>termBuffers := [Wrap 8192 128, Wrap 12288 128, Wrap 16384 128],
     subscriberPosition := \<lparr>pos_buffer = Wrap 65664 128, pos_id = 1, pos_offset = 0\<rparr>\<rparr>"

definition pair_subscription :: Subscription where
  "pair_subscription = (NewSubscription [] 1 22 (- 1) None None)\<lparr>sub_images := [idle_image, sample_image]\<rparr>"

lemma pair_images_at:
  "images_at sample_frame_mem [idle_image, sample_image] [[], [frame_at sample_frame_mem 4096]] [0..<2]"
proof -
  have "get_i64 sample_frame_mem 65664 = 0" "get_i32 sample_frame_mem 8192 = 0" by code_simp+
  moreover have "img_wf idle_image 7"
    by (simp add: idle_image_def img_wf_def sample_image_def Wrap_def apart_def counter_addr_def counter_ok_def)
  ultimately have "image_at sample_frame_mem idle_image 7 0 0 []"
    by (auto simp: image_at_def idle_image_def sample_image_def Wrap_def counter_addr_def log_stops_def)
  moreover have "separate idle_image sample_image" "separate sample_image idle_image"
    by (simp_all add: separate_def idle_image_def sample_image_def apart_def Wrap_def counter_addr_def)
  moreover have "[0..<2] = [0, 1::nat]" by (simp add: upt_rec)
  ultimately show ?thesis using sample_image_at by (auto simp: images_at_def less_Suc_eq numeral_2_eq_2)
qed

theorem Subscription_Poll_fair_witness:
  "\<exists>sub' n sub'' m'. polled_times TYPE(nat) 1 pair_subscription sub' \<and>
     Subscription_Poll sample_frame_mem sub' record_fragment 1 [] =
       Some (Inr (n, sub'', m', [fr_payload (frame_at sample_frame_mem 4096)]))"
proof -
  let ?sub = "pair_subscription\<lparr>roundRobinIndex := 1\<rparr>"
  have "Subscription_Poll sample_frame_mem pair_subscription (\<lambda>s _ _ _ _ _. Inr s) 0 (0::nat) =
      Some (Inr (0, ?sub, sample_frame_mem, 0))"
    by (simp add: Subscription_Poll_def Subscription_poll_with_def pair_subscription_def NewSubscription_def
        next_round_def Let_def upt_rec)
  from polled_times.poll [OF polled_times.none this]
  have once: "polled_times TYPE(nat) 1 pair_subscription ?sub" by simp
  have pair: "sub_images ?sub = [idle_image, sample_image]" "length (sub_images pair_subscription) = 2"
    "roundRobinIndex pair_subscription = 0"
    by (simp_all add: pair_subscription_def NewSubscription_def)
  have turn: "1 = nat ((int 1 - roundRobinIndex pair_subscription) mod (int (length (sub_images pair_subscription)) + 1))"
    by (simp add: pair)
  have "polled_times TYPE(nat) 1 pair_subscription ?sub \<and>
      images_at sample_frame_mem (sub_images ?sub) [[], [frame_at sample_frame_mem 4096]] [0..<length (sub_images pair_subscription)] \<and>
      length [[], [frame_at sample_frame_mem 4096]] = length (sub_images pair_subscription)"
    unfolding pair using once pair_images_at by simp
  from Subscription_Poll_fair [OF _ _ _ turn, THEN conjunct2, rule_format, OF _ _ _ this, of 1 "[]"]
  show ?thesis using once sample_frame_log(3) pair by auto
qed

text \<open>
  Removing an image takes out exactly one image with the given correlation id, if there is
  one, and keeps all others, although their order changes; otherwise nothing changes. When
  correlation ids are distinct, no image with the id is left.
\<close>

theorem removeImage_removes_one:
  "(case removeImage sub correlationID of
      (None, sub') \<Rightarrow> sub' = sub \<and> correlationID \<notin> img_correlationID ` set (sub_images sub)
    | (Some im, sub') \<Rightarrow>
        img_correlationID im = correlationID \<and> add_mset im (mset (sub_images sub')) = mset (sub_images sub) \<and>
        (distinct (map img_correlationID (sub_images sub)) \<longrightarrow>
           correlationID \<notin> img_correlationID ` set (sub_images sub')))"
proof (cases "index_by (\<lambda>im. img_correlationID im = correlationID) (sub_images sub)")
  case None
  moreover from this have "correlationID \<notin> img_correlationID ` set (sub_images sub)" by (auto simp: index_by_None)
  ultimately show ?thesis by (simp add: removeImage_def)
next
  case (Some ix)
  let ?img = "sub_images sub"
  have ix: "ix < length ?img" "img_correlationID (?img ! ix) = correlationID" using index_by_Some [OF Some] by auto
  note rest = mset_swap_remove [OF ix(1)]
  have "correlationID \<notin> img_correlationID ` set (butlast (?img[ix := last ?img]))"
    if "distinct (map img_correlationID ?img)"
  proof -
    have "mset (map img_correlationID ?img) =
        mset (correlationID # map img_correlationID (butlast (?img[ix := last ?img])))"
      using arg_cong [OF rest, of "image_mset img_correlationID"] ix(2) by simp
    from mset_eq_imp_distinct_iff [OF this] that show ?thesis by simp
  qed
  then show ?thesis using Some ix rest by (simp add: removeImage_def Let_def)
qed

theorem removeImage_removes_one_witness:
  "case removeImage sample_subscription 2 of
      (None, sub') \<Rightarrow> sub' = sample_subscription \<and> 2 \<notin> img_correlationID ` set (sub_images sample_subscription)
    | (Some im, sub') \<Rightarrow>
        img_correlationID im = 2 \<and> add_mset im (mset (sub_images sub')) = mset (sub_images sample_subscription) \<and>
        (distinct (map img_correlationID (sub_images sample_subscription)) \<longrightarrow>
           2 \<notin> img_correlationID ` set (sub_images sub'))"
  by (rule removeImage_removes_one)

end
