(* ===== verification/Conductor.thy ===== *)
theory Conductor
  imports Driver_Proxy Driver_Events Subscription "HOL-Library.AList"
begin

text \<open>
  \<open>aeron/clientconductor.go\<close>: the registrations of a client, the commands that create and release
  them, the driver's answers and the time-outs. Publications, subscriptions and counters handed
  to the application are objects in a store, named by their registration id, so that the
  conductor and the application share them; the calls of user handlers are a trace. The driver
  proxy is a record of functions, as the Go interface is; the clock, the mapping of log files
  and the outcome of unmapping are parameters. Each exported operation holds the admin lock
  throughout, so an interleaving of operations is a sequence of the functions below.
\<close>

subsection \<open>State\<close>

datatype registration_status = AwaitingMediaDriver | RegisteredMediaDriver | ErroredMediaDriver

definition keepaliveTimeoutNS :: int where "keepaliveTimeoutNS = 500000000"
definition resourceTimeoutNS :: int where "resourceTimeoutNS = 1000000000"
definition heartbeatTypeId :: int where "heartbeatTypeId = 11"
definition heartheatRegistrationIdOffset :: int where "heartheatRegistrationIdOffset = 0"

record publicationStateDefn =
  pd_regID :: int
  pd_origRegID :: int
  pd_timeOfRegistration :: int
  pd_streamID :: int
  pd_sessionID :: int
  pd_posLimitCounterID :: int
  pd_channelStatusIndicatorID :: int
  pd_errorCode :: int
  pd_status :: registration_status
  pd_channel :: "byte list"
  pd_errorMessage :: "byte list"
  pd_buffers :: "LogBuffers option"
  pd_publication :: "int option"

definition publicationStateDefn_Init :: "byte list \<Rightarrow> int \<Rightarrow> int \<Rightarrow> int \<Rightarrow> publicationStateDefn" where
  "publicationStateDefn_Init channel regID strID now =
     \<lparr>pd_regID = regID, pd_origRegID = 0, pd_timeOfRegistration = now, pd_streamID = strID, pd_sessionID = - 1,
      pd_posLimitCounterID = - 1, pd_channelStatusIndicatorID = 0, pd_errorCode = 0, pd_status = AwaitingMediaDriver,
      pd_channel = channel, pd_errorMessage = [], pd_buffers = None, pd_publication = None\<rparr>"

record subscriptionStateDefn =
  sd_regID :: int
  sd_timeOfRegistration :: int
  sd_streamID :: int
  sd_errorCode :: int
  sd_status :: registration_status
  sd_channel :: "byte list"
  sd_errorMessage :: "byte list"
  sd_availableImageHandler :: "handler_id option"
  sd_unavailableImageHandler :: "handler_id option"
  sd_subscription :: "int option"

definition subscriptionStateDefn_Init ::
  "byte list \<Rightarrow> int \<Rightarrow> int \<Rightarrow> int \<Rightarrow> handler_id option \<Rightarrow> handler_id option \<Rightarrow> subscriptionStateDefn" where
  "subscriptionStateDefn_Init ch regID sID now available unavailable =
     \<lparr>sd_regID = regID, sd_timeOfRegistration = now, sd_streamID = sID, sd_errorCode = 0, sd_status = AwaitingMediaDriver,
      sd_channel = ch, sd_errorMessage = [], sd_availableImageHandler = available,
      sd_unavailableImageHandler = unavailable, sd_subscription = None\<rparr>"

record counterStateDefn =
  kd_timeOfRegistration :: int
  kd_counterId :: int
  kd_errorCode :: int
  kd_errorMessage :: "byte list"
  kd_status :: registration_status
  kd_counter :: "int option"

definition counterStateDefn_Init :: "int \<Rightarrow> counterStateDefn" where
  "counterStateDefn_Init time =
     \<lparr>kd_timeOfRegistration = time, kd_counterId = 0, kd_errorCode = 0, kd_errorMessage = [], kd_status = AwaitingMediaDriver,
      kd_counter = None\<rparr>"

text \<open>\<open>aeron/counter.go\<close>: the counter object of the application.\<close>

record ClientCounter =
  kc_registrationId :: int
  kc_atomicCounter :: AtomicCounter
  kc_counterId :: int
  kc_isClosed :: bool

datatype linger_resource = LingerLog LogBuffers | LingerImage "image option"

datatype conductor_error =
    DriverInactive
  | ProxyError string
  | NoResponse int int int
  | RegistrationErrored int int "byte list"
  | RegistrationNotFound int
  | CounterError string
  | KeyLengthOutOfBounds int
  | LabelLengthOutOfBounds int
  | ServiceTimeout int int
  | KeepaliveTimeout int int
  | HeartbeatInactive
  | DriverMessage "byte list"
  | ClientTimeout int
  | CloseFailed string
  | ConductorPanic fault
  | NotStopped
  | ClosedSubscription

datatype conductor_call =
    NewPublicationCall "byte list" int int int
  | NewSubscriptionCall "byte list" int int
  | AvailableImageCall handler_id image
  | UnavailableImageCall handler_id "image option"
  | AvailableCounterCall handler_id int int
  | UnavailableCounterCall handler_id int int
  | ErrorCall conductor_error

type_synonym 'a answer = "conductor_error + 'a"

record ClientConductor =
  cc_pubs :: "publicationStateDefn option list"
  cc_subs :: "subscriptionStateDefn option list"
  cc_counters :: "(int \<times> counterStateDefn) list option"
  counterValuesBuffer :: buffer
  counterReader :: Reader
  lingeringResources :: "(int \<times> linger_resource) list"
  onNewPublicationHandler :: "handler_id option"
  onNewSubscriptionHandler :: "handler_id option"
  onAvailableImageHandler :: "handler_id option"
  onUnavailableImageHandler :: "handler_id option"
  availableCounterHandlers :: "(int \<times> handler_id) list"
  unavailableCounterHandlers :: "(int \<times> handler_id) list"
  errorHandler :: "handler_id option"
  cc_running :: bool
  conductorRunning :: bool
  driverActive :: bool
  timeOfLastKeepalive :: int
  timeOfLastCheckManagedResources :: int
  timeOfLastDoWork :: int
  driverTimeoutNs :: int
  interServiceTimeoutNs :: int
  publicationConnectionTimeoutNs :: int
  resourceLingerTimeoutNs :: int
  heartbeatTimestamp :: "AtomicCounter option"
  cc_publications :: "int \<Rightarrow> Publication option"
  cc_subscriptions :: "int \<Rightarrow> Subscription option"
  cc_counterObjects :: "int \<Rightarrow> ClientCounter option"
  cc_calls :: "conductor_call list"

text \<open>The methods of the \<open>DriverProxy\<close> interface, and the proxy as an implementation.\<close>

record DriverProxy =
  dp_ClientID :: int
  dp_TimeOfLastDriverKeepalive :: "mem \<Rightarrow> int res"
  dp_NextCorrelationID :: "mem \<Rightarrow> (int \<times> mem) res"
  dp_AddSubscription :: "byte list \<Rightarrow> int \<Rightarrow> mem \<Rightarrow> (int outcome \<times> mem) res"
  dp_RemoveSubscription :: "int \<Rightarrow> mem \<Rightarrow> (unit outcome \<times> mem) res"
  dp_AddPublication :: "byte list \<Rightarrow> int \<Rightarrow> mem \<Rightarrow> (int outcome \<times> mem) res"
  dp_AddExclusivePublication :: "byte list \<Rightarrow> int \<Rightarrow> mem \<Rightarrow> (int outcome \<times> mem) res"
  dp_RemovePublication :: "int \<Rightarrow> mem \<Rightarrow> (unit outcome \<times> mem) res"
  dp_ClientClose :: "mem \<Rightarrow> (unit outcome \<times> mem) res"
  dp_AddDestination :: "int \<Rightarrow> byte list \<Rightarrow> mem \<Rightarrow> (int outcome \<times> mem) res"
  dp_RemoveDestination :: "int \<Rightarrow> byte list \<Rightarrow> mem \<Rightarrow> (int outcome \<times> mem) res"
  dp_AddRcvDestination :: "int \<Rightarrow> byte list \<Rightarrow> mem \<Rightarrow> (int outcome \<times> mem) res"
  dp_RemoveRcvDestination :: "int \<Rightarrow> byte list \<Rightarrow> mem \<Rightarrow> (int outcome \<times> mem) res"
  dp_AddCounter :: "int \<Rightarrow> buffer \<Rightarrow> int \<Rightarrow> int \<Rightarrow> buffer \<Rightarrow> int \<Rightarrow> int \<Rightarrow> mem \<Rightarrow> (int outcome \<times> mem) res"
  dp_AddCounterByLabel :: "int \<Rightarrow> byte list \<Rightarrow> mem \<Rightarrow> (int outcome \<times> mem) res"
  dp_RemoveCounter :: "int \<Rightarrow> mem \<Rightarrow> (int outcome \<times> mem) res"

definition settle :: "'a res option \<Rightarrow> 'a res" where
  "settle r = (case r of None \<Rightarrow> Inl (Blocked ''claim of the command buffer'') | Some r \<Rightarrow> r)"

definition proxy_interface :: "(nat \<Rightarrow> mem \<Rightarrow> mem) \<Rightarrow> int \<Rightarrow> Proxy \<Rightarrow> DriverProxy" where
  "proxy_interface env heap driver =
     \<lparr>dp_ClientID = ClientID driver,
      dp_TimeOfLastDriverKeepalive = (\<lambda>m. TimeOfLastDriverKeepalive m driver),
      dp_NextCorrelationID = (\<lambda>m. Proxy_NextCorrelationID m driver),
      dp_AddSubscription = (\<lambda>ch st m. settle (AddSubscription env heap driver ch st m)),
      dp_RemoveSubscription = (\<lambda>rid m. settle (RemoveSubscription env heap driver rid m)),
      dp_AddPublication = (\<lambda>ch st m. settle (AddPublication env heap driver ch st m)),
      dp_AddExclusivePublication = (\<lambda>ch st m. settle (AddExclusivePublication env heap driver ch st m)),
      dp_RemovePublication = (\<lambda>rid m. settle (RemovePublication env heap driver rid m)),
      dp_ClientClose = (\<lambda>m. settle (ClientClose env heap driver m)),
      dp_AddDestination = (\<lambda>rid ch m. settle (AddDestination env heap driver rid ch m)),
      dp_RemoveDestination = (\<lambda>rid ch m. settle (RemoveDestination env heap driver rid ch m)),
      dp_AddRcvDestination = (\<lambda>rid ch m. settle (AddRcvDestination env heap driver rid ch m)),
      dp_RemoveRcvDestination = (\<lambda>rid ch m. settle (RemoveRcvDestination env heap driver rid ch m)),
      dp_AddCounter = (\<lambda>ty kb ko kl lb lo ll m. settle (AddCounter env heap driver ty kb ko kl lb lo ll m)),
      dp_AddCounterByLabel = (\<lambda>ty label m. settle (AddCounterByLabel env heap driver ty label m)),
      dp_RemoveCounter = (\<lambda>rid m. settle (RemoveCounter env heap driver rid m))\<rparr>"

subsection \<open>Helpers\<close>

definition onError :: "conductor_error \<Rightarrow> ClientConductor \<Rightarrow> ClientConductor res" where
  "onError err cc =
     (if errorHandler cc \<noteq> None then Inr (cc\<lparr>cc_calls := cc_calls cc @ [ErrorCall err]\<rparr>) else Inl (Fatal ''unhandled error''))"

definition getDriverStatus :: "ClientConductor \<Rightarrow> unit answer" where
  "getDriverStatus cc = (if driverActive cc then Inr () else Inl DriverInactive)"

text \<open>A send on the channel of lingering resources, which holds 1024 of them.\<close>

definition linger :: "int \<Rightarrow> linger_resource \<Rightarrow> ClientConductor \<Rightarrow> ClientConductor res" where
  "linger now r cc =
     (if length (lingeringResources cc) < 1024 then Inr (cc\<lparr>lingeringResources := lingeringResources cc @ [(now, r)]\<rparr>)
      else Inl (Blocked ''send on lingeringResources''))"

definition timeoutExceeded :: "int \<Rightarrow> int \<Rightarrow> int \<Rightarrow> 'a option answer" where
  "timeoutExceeded now timeOfRegistration driverTimeout =
     (if now > wrap64 (timeOfRegistration + driverTimeout) then Inl (NoResponse timeOfRegistration now driverTimeout) else Inr None)"

type_synonym log_files = "byte list \<Rightarrow> int \<times> (int \<Rightarrow> int \<Rightarrow> int option)"

definition map_log :: "log_files \<Rightarrow> byte list \<Rightarrow> LogBuffers res" where
  "map_log files name = (case files name of (logLength, mapExisting) \<Rightarrow> LogBuffers_Wrap logLength mapExisting)"

definition nil_panic :: "'a res" where
  "nil_panic = Inl (Panic ''nil pointer dereference'')"

subsection \<open>Adding and finding registrations\<close>

text \<open>
  The three functions that add a publication or subscription share their shape: the driver must
  be active, the command must be written, then the registration is appended.
\<close>

definition CC_AddPublication :: "DriverProxy \<Rightarrow> int \<Rightarrow> byte list \<Rightarrow> int \<Rightarrow> ClientConductor \<Rightarrow> mem \<Rightarrow>
    (int answer \<times> ClientConductor \<times> mem) res" where
  "CC_AddPublication dp now channel strID cc m =
     (case getDriverStatus cc of
        Inl e \<Rightarrow> Inr (Inl e, cc, m)
      | Inr _ \<Rightarrow>
          bindR (dp_AddPublication dp channel strID m) (\<lambda>(r, m).
          case r of
            Inl e \<Rightarrow> Inr (Inl (ProxyError e), cc, m)
          | Inr regID \<Rightarrow>
              Inr (Inr regID, cc\<lparr>cc_pubs := cc_pubs cc @ [Some (publicationStateDefn_Init channel regID strID now)]\<rparr>, m)))"

definition CC_AddExclusivePublication :: "DriverProxy \<Rightarrow> int \<Rightarrow> byte list \<Rightarrow> int \<Rightarrow> ClientConductor \<Rightarrow> mem \<Rightarrow>
    (int answer \<times> ClientConductor \<times> mem) res" where
  "CC_AddExclusivePublication dp now channel strID cc m =
     (case getDriverStatus cc of
        Inl e \<Rightarrow> Inr (Inl e, cc, m)
      | Inr _ \<Rightarrow>
          bindR (dp_AddExclusivePublication dp channel strID m) (\<lambda>(r, m).
          case r of
            Inl e \<Rightarrow> Inr (Inl (ProxyError e), cc, m)
          | Inr regID \<Rightarrow>
              Inr (Inr regID, cc\<lparr>cc_pubs := cc_pubs cc @ [Some (publicationStateDefn_Init channel regID strID now)]\<rparr>, m)))"

definition AddSubscriptionWithHandlers :: "DriverProxy \<Rightarrow> int \<Rightarrow> byte list \<Rightarrow> int \<Rightarrow> handler_id option \<Rightarrow> handler_id option \<Rightarrow>
    ClientConductor \<Rightarrow> mem \<Rightarrow> (int answer \<times> ClientConductor \<times> mem) res" where
  "AddSubscriptionWithHandlers dp now channel strID available unavailable cc m =
     (case getDriverStatus cc of
        Inl e \<Rightarrow> Inr (Inl e, cc, m)
      | Inr _ \<Rightarrow>
          bindR (dp_AddSubscription dp channel strID m) (\<lambda>(r, m).
          case r of
            Inl e \<Rightarrow> Inr (Inl (ProxyError e), cc, m)
          | Inr regID \<Rightarrow>
              Inr (Inr regID, cc\<lparr>cc_subs := cc_subs cc @
                [Some (subscriptionStateDefn_Init channel regID strID now available unavailable)]\<rparr>, m)))"

definition CC_AddSubscription :: "DriverProxy \<Rightarrow> int \<Rightarrow> byte list \<Rightarrow> int \<Rightarrow> ClientConductor \<Rightarrow> mem \<Rightarrow>
    (int answer \<times> ClientConductor \<times> mem) res" where
  "CC_AddSubscription dp now channel strID cc m =
     AddSubscriptionWithHandlers dp now channel strID (onAvailableImageHandler cc) (onUnavailableImageHandler cc) cc m"

text \<open>
  Finding a publication: nothing and no error while the driver has not answered. The object is
  created on the first call after the answer and kept.
\<close>

definition make_publication :: "publicationStateDefn \<Rightarrow> ClientConductor \<Rightarrow> mem \<Rightarrow> Publication res" where
  "make_publication pub cc m =
     (case pd_buffers pub of
        None \<Rightarrow> nil_panic
      | Some buffers \<Rightarrow>
          bindR (NewPublication m buffers) (\<lambda>publication.
          bindR (NewPosition m (counterValuesBuffer cc) (pd_posLimitCounterID pub)) (\<lambda>limit.
          Inr (publication\<lparr>pub_channel := pd_channel pub, pub_regID := pd_regID pub, pub_originalRegID := pd_origRegID pub,
                 pub_streamID := pd_streamID pub, pub_sessionID := pd_sessionID pub, pubLimit := limit,
                 pub_channelStatusIndicatorID := pd_channelStatusIndicatorID pub\<rparr>))))"

fun find_publication :: "int \<Rightarrow> int \<Rightarrow> nat \<Rightarrow> publicationStateDefn option list \<Rightarrow> ClientConductor \<Rightarrow> mem \<Rightarrow>
    (int option answer \<times> ClientConductor) res" where
  "find_publication now registrationID i [] cc m = Inr (Inl (RegistrationNotFound registrationID), cc)"
| "find_publication now registrationID i (None # ps) cc m = nil_panic"
| "find_publication now registrationID i (Some pub # ps) cc m =
     (if pd_regID pub \<noteq> registrationID then find_publication now registrationID (Suc i) ps cc m
      else if pd_publication pub \<noteq> None then Inr (Inr (pd_publication pub), cc)
      else case pd_status pub of
             AwaitingMediaDriver \<Rightarrow> Inr (timeoutExceeded now (pd_timeOfRegistration pub) (driverTimeoutNs cc), cc)
           | RegisteredMediaDriver \<Rightarrow>
               bindR (make_publication pub cc m) (\<lambda>publication.
               Inr (Inr (Some registrationID),
                    cc\<lparr>cc_pubs := (cc_pubs cc)[i := Some (pub\<lparr>pd_publication := Some registrationID\<rparr>)],
                       cc_publications := (cc_publications cc)(registrationID \<mapsto> publication)\<rparr>))
           | ErroredMediaDriver \<Rightarrow> Inr (Inl (RegistrationErrored registrationID (pd_errorCode pub) (pd_errorMessage pub)), cc))"

definition FindPublication :: "int \<Rightarrow> int \<Rightarrow> ClientConductor \<Rightarrow> mem \<Rightarrow> (int option answer \<times> ClientConductor) res" where
  "FindPublication now registrationID cc m = find_publication now registrationID 0 (cc_pubs cc) cc m"

fun find_subscription :: "int \<Rightarrow> int \<Rightarrow> subscriptionStateDefn option list \<Rightarrow> ClientConductor \<Rightarrow> int option answer res" where
  "find_subscription now registrationID [] cc = Inr (Inl (RegistrationNotFound registrationID))"
| "find_subscription now registrationID (None # ss) cc = nil_panic"
| "find_subscription now registrationID (Some sub # ss) cc =
     (if sd_regID sub \<noteq> registrationID then find_subscription now registrationID ss cc
      else case sd_status sub of
             AwaitingMediaDriver \<Rightarrow> Inr (timeoutExceeded now (sd_timeOfRegistration sub) (driverTimeoutNs cc))
           | RegisteredMediaDriver \<Rightarrow> Inr (Inr (sd_subscription sub))
           | ErroredMediaDriver \<Rightarrow> Inr (Inl (RegistrationErrored registrationID (sd_errorCode sub) (sd_errorMessage sub))))"

definition FindSubscription :: "int \<Rightarrow> int \<Rightarrow> ClientConductor \<Rightarrow> int option answer res" where
  "FindSubscription now registrationID cc = find_subscription now registrationID (cc_subs cc) cc"

subsection \<open>Counters\<close>

text \<open>After the client has been closed the map of counters is nil, and storing into it panics.\<close>

definition add_counter_state :: "int \<Rightarrow> int \<Rightarrow> ClientConductor \<Rightarrow> ClientConductor res" where
  "add_counter_state registrationId now cc =
     (case cc_counters cc of
        None \<Rightarrow> Inl (Panic ''assignment to entry in nil map'')
      | Some ks \<Rightarrow> Inr (cc\<lparr>cc_counters := Some (AList.update registrationId (counterStateDefn_Init now) ks)\<rparr>))"

definition CC_AddCounter :: "DriverProxy \<Rightarrow> int \<Rightarrow> int \<Rightarrow> buffer \<Rightarrow> int \<Rightarrow> int \<Rightarrow> buffer \<Rightarrow> int \<Rightarrow> int \<Rightarrow>
    ClientConductor \<Rightarrow> mem \<Rightarrow> (int answer \<times> ClientConductor \<times> mem) res" where
  "CC_AddCounter dp now typeId keyBuffer keyOffset keyLength labelBuffer labelOffset labelLength cc m =
     (case getDriverStatus cc of
        Inl e \<Rightarrow> Inr (Inl e, cc, m)
      | Inr _ \<Rightarrow>
          if keyLength < 0 \<or> keyLength > MaxKeyLength then Inr (Inl (KeyLengthOutOfBounds keyLength), cc, m)
          else if labelLength < 0 \<or> labelLength > MaxLabelLength then Inr (Inl (LabelLengthOutOfBounds labelLength), cc, m)
          else bindR (dp_AddCounter dp typeId keyBuffer keyOffset keyLength labelBuffer labelOffset labelLength m) (\<lambda>(r, m).
               case r of
                 Inl e \<Rightarrow> Inr (Inl (ProxyError e), cc, m)
               | Inr registrationId \<Rightarrow> bindR (add_counter_state registrationId now cc) (\<lambda>cc. Inr (Inr registrationId, cc, m))))"

definition CC_AddCounterByLabel :: "DriverProxy \<Rightarrow> int \<Rightarrow> int \<Rightarrow> byte list \<Rightarrow> ClientConductor \<Rightarrow> mem \<Rightarrow>
    (int answer \<times> ClientConductor \<times> mem) res" where
  "CC_AddCounterByLabel dp now typeId label cc m =
     (case getDriverStatus cc of
        Inl e \<Rightarrow> Inr (Inl e, cc, m)
      | Inr _ \<Rightarrow>
          if wrap32 (int (length label)) > MaxLabelLength then Inr (Inl (LabelLengthOutOfBounds (int (length label))), cc, m)
          else bindR (dp_AddCounterByLabel dp typeId label m) (\<lambda>(r, m).
               case r of
                 Inl e \<Rightarrow> Inr (Inl (ProxyError e), cc, m)
               | Inr registrationId \<Rightarrow> bindR (add_counter_state registrationId now cc) (\<lambda>cc. Inr (Inr registrationId, cc, m))))"

definition NewCounter :: "int \<Rightarrow> ClientConductor \<Rightarrow> int \<Rightarrow> ClientCounter outcome" where
  "NewCounter registrationId cc counterId =
     (case NewAtomicCounter (counterReader cc) counterId of
        Inl e \<Rightarrow> Inl e
      | Inr ac \<Rightarrow> Inr \<lparr>kc_registrationId = registrationId, kc_atomicCounter = ac, kc_counterId = counterId, kc_isClosed = False\<rparr>)"

definition CC_FindCounter :: "int \<Rightarrow> int \<Rightarrow> ClientConductor \<Rightarrow> int option answer \<times> ClientConductor" where
  "CC_FindCounter now registrationID cc =
     (case Option.bind (cc_counters cc) (\<lambda>ks. map_of ks registrationID) of
        None \<Rightarrow> (Inl (RegistrationNotFound registrationID), cc)
      | Some kd \<Rightarrow>
          if kd_counter kd \<noteq> None then (Inr (kd_counter kd), cc)
          else case kd_status kd of
                 AwaitingMediaDriver \<Rightarrow> (timeoutExceeded now (kd_timeOfRegistration kd) (driverTimeoutNs cc), cc)
               | RegisteredMediaDriver \<Rightarrow>
                   (case NewCounter registrationID cc (kd_counterId kd) of
                      Inl e \<Rightarrow> (Inl (CounterError e), cc)
                    | Inr counter \<Rightarrow>
                        (Inr (Some registrationID),
                         cc\<lparr>cc_counters := map_option (AList.update registrationID (kd\<lparr>kd_counter := Some registrationID\<rparr>)) (cc_counters cc),
                            cc_counterObjects := (cc_counterObjects cc)(registrationID \<mapsto> counter)\<rparr>))
               | ErroredMediaDriver \<Rightarrow> (Inl (RegistrationErrored registrationID (kd_errorCode kd) (kd_errorMessage kd)), cc))"

subsection \<open>Counter handlers\<close>

text \<open>
  Removal moves the last handler to the place of the removed one. Handlers are compared as
  interface values; the unavailable handlers are compared by the addresses of two variables,
  which are never equal.
\<close>

definition drop_handler :: "(int \<times> handler_id \<Rightarrow> bool) \<Rightarrow> (int \<times> handler_id) list \<Rightarrow> (int \<times> handler_id) list option" where
  "drop_handler p hs = (case index_by p hs of None \<Rightarrow> None | Some i \<Rightarrow> Some (butlast (hs[i := last hs])))"

definition AddAvailableCounterHandler :: "DriverProxy \<Rightarrow> handler_id \<Rightarrow> ClientConductor \<Rightarrow> mem \<Rightarrow> (int \<times> ClientConductor \<times> mem) res" where
  "AddAvailableCounterHandler dp h cc m =
     bindR (dp_NextCorrelationID dp m) (\<lambda>(registrationID, m).
     Inr (registrationID, cc\<lparr>availableCounterHandlers := availableCounterHandlers cc @ [(registrationID, h)]\<rparr>, m))"

definition RemoveAvailableCounterHandlerById :: "int \<Rightarrow> ClientConductor \<Rightarrow> bool \<times> ClientConductor" where
  "RemoveAvailableCounterHandlerById registrationId cc =
     (case drop_handler (\<lambda>(r, _). r = registrationId) (availableCounterHandlers cc) of
        None \<Rightarrow> (False, cc) | Some hs \<Rightarrow> (True, cc\<lparr>availableCounterHandlers := hs\<rparr>))"

definition RemoveAvailableCounterHandler :: "handler_id \<Rightarrow> ClientConductor \<Rightarrow> bool \<times> ClientConductor" where
  "RemoveAvailableCounterHandler h cc =
     (case drop_handler (\<lambda>(_, h'). h' = h) (availableCounterHandlers cc) of
        None \<Rightarrow> (False, cc) | Some hs \<Rightarrow> (True, cc\<lparr>availableCounterHandlers := hs\<rparr>))"

definition AddUnavailableCounterHandler :: "DriverProxy \<Rightarrow> handler_id \<Rightarrow> ClientConductor \<Rightarrow> mem \<Rightarrow> (int \<times> ClientConductor \<times> mem) res" where
  "AddUnavailableCounterHandler dp h cc m =
     bindR (dp_NextCorrelationID dp m) (\<lambda>(registrationID, m).
     Inr (registrationID, cc\<lparr>unavailableCounterHandlers := unavailableCounterHandlers cc @ [(registrationID, h)]\<rparr>, m))"

definition RemoveUnavailableCounterHandlerById :: "int \<Rightarrow> ClientConductor \<Rightarrow> bool \<times> ClientConductor" where
  "RemoveUnavailableCounterHandlerById registrationId cc =
     (case drop_handler (\<lambda>(r, _). r = registrationId) (unavailableCounterHandlers cc) of
        None \<Rightarrow> (False, cc) | Some hs \<Rightarrow> (True, cc\<lparr>unavailableCounterHandlers := hs\<rparr>))"

definition same_variable :: "int \<times> handler_id \<Rightarrow> handler_id \<Rightarrow> bool" where
  "same_variable pair h = False"

definition RemoveUnavailableCounterHandler :: "handler_id \<Rightarrow> ClientConductor \<Rightarrow> bool \<times> ClientConductor" where
  "RemoveUnavailableCounterHandler h cc =
     (case drop_handler (\<lambda>pair. same_variable pair h) (unavailableCounterHandlers cc) of
        None \<Rightarrow> (False, cc) | Some hs \<Rightarrow> (True, cc\<lparr>unavailableCounterHandlers := hs\<rparr>))"

subsection \<open>Releasing\<close>

text \<open>
  The loops run over the indices of the slice and read the array as it is then: a released entry
  is replaced by the last one and that place by nil.
\<close>

fun release_pubs :: "DriverProxy \<Rightarrow> int \<Rightarrow> int \<Rightarrow> nat list \<Rightarrow> publicationStateDefn option list \<Rightarrow> nat \<Rightarrow> ClientConductor \<Rightarrow> mem \<Rightarrow>
    (unit answer \<times> publicationStateDefn option list \<times> nat \<times> ClientConductor \<times> mem) res" where
  "release_pubs dp now regID [] arr cnt cc m = Inr (Inr (), arr, cnt, cc, m)"
| "release_pubs dp now regID (i # is) arr cnt cc m =
     (case arr ! i of
        None \<Rightarrow> release_pubs dp now regID is arr cnt cc m
      | Some pub \<Rightarrow>
          if pd_regID pub = regID then
            bindR (dp_RemovePublication dp regID m) (\<lambda>(r, m).
            case r of
              Inl e \<Rightarrow> Inr (Inl (ProxyError e), arr, cnt, cc, m)
            | Inr _ \<Rightarrow>
                (case pd_buffers pub of
                   None \<Rightarrow> nil_panic
                 | Some buffers \<Rightarrow>
                     let arr = (arr[i := arr ! (cnt - 1)])[cnt - 1 := None]; (n, buffers) = DecRef buffers
                     in bindR (if n = 0 then linger now (LingerLog buffers) cc else Inr cc) (\<lambda>cc.
                        release_pubs dp now regID is arr (cnt - 1) cc m)))
          else release_pubs dp now regID is arr cnt cc m)"

text \<open>The array behind the slice is returned as well; the caller that ranges over it sees the changes.\<close>

definition release_publication_array :: "DriverProxy \<Rightarrow> int \<Rightarrow> int \<Rightarrow> ClientConductor \<Rightarrow> mem \<Rightarrow>
    (unit answer \<times> publicationStateDefn option list \<times> ClientConductor \<times> mem) res" where
  "release_publication_array dp now regID cc m =
     (case getDriverStatus cc of
        Inl e \<Rightarrow> Inr (Inl e, cc_pubs cc, cc, m)
      | Inr _ \<Rightarrow>
          bindR (release_pubs dp now regID [0..<length (cc_pubs cc)] (cc_pubs cc) (length (cc_pubs cc)) cc m) (\<lambda>(r, arr, cnt, cc, m).
          case r of
            Inl e \<Rightarrow> Inr (Inl e, arr, cc\<lparr>cc_pubs := arr\<rparr>, m)
          | Inr _ \<Rightarrow> Inr (Inr (), arr, cc\<lparr>cc_pubs := take cnt arr\<rparr>, m)))"

definition releasePublication :: "DriverProxy \<Rightarrow> int \<Rightarrow> int \<Rightarrow> ClientConductor \<Rightarrow> mem \<Rightarrow> (unit answer \<times> ClientConductor \<times> mem) res" where
  "releasePublication dp now regID cc m =
     bindR (release_publication_array dp now regID cc m) (\<lambda>(r, arr, cc, m). Inr (r, cc, m))"

text \<open>\<open>Publication.Close\<close>, \<open>Subscription.Close\<close> and \<open>Counter.Close\<close>: the first call releases the registration.\<close>

definition Publication_Close :: "DriverProxy \<Rightarrow> int \<Rightarrow> int \<Rightarrow> ClientConductor \<Rightarrow> mem \<Rightarrow>
    (unit answer \<times> publicationStateDefn option list \<times> ClientConductor \<times> mem) res" where
  "Publication_Close dp now ref cc m =
     (case cc_publications cc ref of
        None \<Rightarrow> Inr (Inr (), cc_pubs cc, cc, m)
      | Some pub \<Rightarrow>
          if \<not> pub_isClosed pub then
            release_publication_array dp now (pub_regID pub)
              (cc\<lparr>cc_publications := (cc_publications cc)(ref \<mapsto> pub\<lparr>pub_isClosed := True\<rparr>)\<rparr>) m
          else Inr (Inr (), cc_pubs cc, cc, m))"

fun release_images :: "int \<Rightarrow> handler_id option \<Rightarrow> image list \<Rightarrow> ClientConductor \<Rightarrow> ClientConductor res" where
  "release_images now handler [] cc = Inr cc"
| "release_images now handler (im # ims) cc =
     (let cc = (case handler of None \<Rightarrow> cc | Some h \<Rightarrow> cc\<lparr>cc_calls := cc_calls cc @ [UnavailableImageCall h (Some im)]\<rparr>)
      in bindR (linger now (LingerImage (Some im)) cc) (\<lambda>cc. release_images now handler ims cc))"

definition unavailable_handler :: "subscriptionStateDefn \<Rightarrow> ClientConductor \<Rightarrow> handler_id option" where
  "unavailable_handler sub cc =
     Option.bind (sd_subscription sub) (\<lambda>ref. Option.bind (cc_subscriptions cc ref) sub_unavailableImageHandler)"

fun release_subs :: "DriverProxy \<Rightarrow> int \<Rightarrow> int \<Rightarrow> image list \<Rightarrow> nat list \<Rightarrow> subscriptionStateDefn option list \<Rightarrow> nat \<Rightarrow>
    ClientConductor \<Rightarrow> mem \<Rightarrow> (unit answer \<times> subscriptionStateDefn option list \<times> nat \<times> ClientConductor \<times> mem) res" where
  "release_subs dp now regID images [] arr cnt cc m = Inr (Inr (), arr, cnt, cc, m)"
| "release_subs dp now regID images (i # is) arr cnt cc m =
     (case arr ! i of
        None \<Rightarrow> release_subs dp now regID images is arr cnt cc m
      | Some sub \<Rightarrow>
          if sd_regID sub = regID then
            bindR (dp_RemoveSubscription dp regID m) (\<lambda>(r, m).
            case r of
              Inl e \<Rightarrow> Inr (Inl (ProxyError e), arr, cnt, cc, m)
            | Inr _ \<Rightarrow>
                let arr = (arr[i := arr ! (cnt - 1)])[cnt - 1 := None]
                in bindR (release_images now (unavailable_handler sub cc) images cc) (\<lambda>cc.
                   release_subs dp now regID images is arr (cnt - 1) cc m))
          else release_subs dp now regID images is arr cnt cc m)"

definition release_subscription_array :: "DriverProxy \<Rightarrow> int \<Rightarrow> int \<Rightarrow> image list \<Rightarrow> ClientConductor \<Rightarrow> mem \<Rightarrow>
    (unit answer \<times> subscriptionStateDefn option list \<times> ClientConductor \<times> mem) res" where
  "release_subscription_array dp now regID images cc m =
     (case getDriverStatus cc of
        Inl e \<Rightarrow> Inr (Inl e, cc_subs cc, cc, m)
      | Inr _ \<Rightarrow>
          bindR (release_subs dp now regID images [0..<length (cc_subs cc)] (cc_subs cc) (length (cc_subs cc)) cc m)
            (\<lambda>(r, arr, cnt, cc, m).
          case r of
            Inl e \<Rightarrow> Inr (Inl e, arr, cc\<lparr>cc_subs := arr\<rparr>, m)
          | Inr _ \<Rightarrow> Inr (Inr (), arr, cc\<lparr>cc_subs := take cnt arr\<rparr>, m)))"

definition releaseSubscription :: "DriverProxy \<Rightarrow> int \<Rightarrow> int \<Rightarrow> image list \<Rightarrow> ClientConductor \<Rightarrow> mem \<Rightarrow>
    (unit answer \<times> ClientConductor \<times> mem) res" where
  "releaseSubscription dp now regID images cc m =
     bindR (release_subscription_array dp now regID images cc m) (\<lambda>(r, arr, cc, m). Inr (r, cc, m))"

definition Subscription_Close :: "DriverProxy \<Rightarrow> int \<Rightarrow> int \<Rightarrow> ClientConductor \<Rightarrow> mem \<Rightarrow>
    (unit answer \<times> subscriptionStateDefn option list \<times> ClientConductor \<times> mem) res" where
  "Subscription_Close dp now ref cc m =
     (case cc_subscriptions cc ref of
        None \<Rightarrow> nil_panic
      | Some sub \<Rightarrow>
          if \<not> sub_isClosed sub then
            (case ImageList_Empty (sub_images sub) of (images, rest) \<Rightarrow>
               release_subscription_array dp now (sub_registrationID sub) images
                 (cc\<lparr>cc_subscriptions := (cc_subscriptions cc)(ref \<mapsto> sub\<lparr>sub_isClosed := True, sub_images := rest\<rparr>)\<rparr>) m)
          else Inr (Inr (), cc_subs cc, cc, m))"

definition releaseCounter :: "DriverProxy \<Rightarrow> int \<Rightarrow> ClientConductor \<Rightarrow> mem \<Rightarrow> (unit answer \<times> ClientConductor \<times> mem) res" where
  "releaseCounter dp registrationId cc m =
     (case getDriverStatus cc of
        Inl e \<Rightarrow> Inr (Inl e, cc, m)
      | Inr _ \<Rightarrow>
          if Option.bind (cc_counters cc) (\<lambda>ks. map_of ks registrationId) \<noteq> None then
            let cc = cc\<lparr>cc_counters := map_option (AList.delete registrationId) (cc_counters cc)\<rparr>
            in bindR (dp_RemoveCounter dp registrationId m) (\<lambda>(r, m).
               Inr (case r of Inl e \<Rightarrow> Inl (ProxyError e) | Inr _ \<Rightarrow> Inr (), cc, m))
          else Inr (Inr (), cc, m))"

definition Counter_Close :: "DriverProxy \<Rightarrow> int \<Rightarrow> ClientConductor \<Rightarrow> mem \<Rightarrow> (unit answer \<times> ClientConductor \<times> mem) res" where
  "Counter_Close dp ref cc m =
     (case cc_counterObjects cc ref of
        None \<Rightarrow> nil_panic
      | Some c \<Rightarrow>
          if \<not> kc_isClosed c then
            releaseCounter dp (kc_registrationId c)
              (cc\<lparr>cc_counterObjects := (cc_counterObjects cc)(ref \<mapsto> c\<lparr>kc_isClosed := True\<rparr>)\<rparr>) m
          else Inr (Inr (), cc, m))"

subsection \<open>Destinations\<close>

definition destination_command :: "(mem \<Rightarrow> (int outcome \<times> mem) res) \<Rightarrow> ClientConductor \<Rightarrow> mem \<Rightarrow> (unit answer \<times> mem) res" where
  "destination_command send cc m =
     (case getDriverStatus cc of
        Inl e \<Rightarrow> Inr (Inl e, m)
      | Inr _ \<Rightarrow> bindR (send m) (\<lambda>(r, m). Inr (case r of Inl e \<Rightarrow> Inl (ProxyError e) | Inr _ \<Rightarrow> Inr (), m)))"

definition CC_AddDestination :: "DriverProxy \<Rightarrow> int \<Rightarrow> byte list \<Rightarrow> ClientConductor \<Rightarrow> mem \<Rightarrow> (unit answer \<times> mem) res" where
  "CC_AddDestination dp registrationID channel = destination_command (dp_AddDestination dp registrationID channel)"

definition CC_RemoveDestination :: "DriverProxy \<Rightarrow> int \<Rightarrow> byte list \<Rightarrow> ClientConductor \<Rightarrow> mem \<Rightarrow> (unit answer \<times> mem) res" where
  "CC_RemoveDestination dp registrationID channel = destination_command (dp_RemoveDestination dp registrationID channel)"

definition CC_AddRcvDestination :: "DriverProxy \<Rightarrow> int \<Rightarrow> byte list \<Rightarrow> ClientConductor \<Rightarrow> mem \<Rightarrow> (unit answer \<times> mem) res" where
  "CC_AddRcvDestination dp registrationID channel = destination_command (dp_AddRcvDestination dp registrationID channel)"

definition CC_RemoveRcvDestination :: "DriverProxy \<Rightarrow> int \<Rightarrow> byte list \<Rightarrow> ClientConductor \<Rightarrow> mem \<Rightarrow> (unit answer \<times> mem) res" where
  "CC_RemoveRcvDestination dp registrationID channel = destination_command (dp_RemoveRcvDestination dp registrationID channel)"

text \<open>\<open>Subscription.AddDestination\<close> and \<open>Subscription.RemoveDestination\<close>.\<close>

definition with_open_subscription :: "int \<Rightarrow> (int \<Rightarrow> ClientConductor \<Rightarrow> mem \<Rightarrow> (unit answer \<times> mem) res) \<Rightarrow> ClientConductor \<Rightarrow> mem \<Rightarrow>
    (unit answer \<times> mem) res" where
  "with_open_subscription ref send cc m =
     (case cc_subscriptions cc ref of
        None \<Rightarrow> nil_panic
      | Some sub \<Rightarrow> if sub_isClosed sub then Inr (Inl ClosedSubscription, m) else send (sub_registrationID sub) cc m)"

definition Subscription_AddDestination :: "DriverProxy \<Rightarrow> int \<Rightarrow> byte list \<Rightarrow> ClientConductor \<Rightarrow> mem \<Rightarrow> (unit answer \<times> mem) res" where
  "Subscription_AddDestination dp ref endpointChannel =
     with_open_subscription ref (\<lambda>regID. CC_AddRcvDestination dp regID endpointChannel)"

definition Subscription_RemoveDestination :: "DriverProxy \<Rightarrow> int \<Rightarrow> byte list \<Rightarrow> ClientConductor \<Rightarrow> mem \<Rightarrow> (unit answer \<times> mem) res" where
  "Subscription_RemoveDestination dp ref endpointChannel =
     with_open_subscription ref (\<lambda>regID. CC_RemoveRcvDestination dp regID endpointChannel)"

end
