(* ===== verification/Conductor_Events.thy ===== *)
theory Conductor_Events
  imports Conductor
begin

text \<open>
  \<open>aeron/clientconductor.go\<close>, second half: the conductor as the listener of the driver's events,
  its time-outs, closing, and its loop.
\<close>

subsection \<open>Answers of the driver\<close>

text \<open>
  A handler runs over the whole slice of registrations. Its body updates the registration and the
  rest of the conductor; a nil registration is dereferenced.
\<close>

fun for_each :: "('d \<Rightarrow> 's \<Rightarrow> ('d \<times> 's) res) \<Rightarrow> 'd option list \<Rightarrow> 's \<Rightarrow> ('d option list \<times> 's) res" where
  "for_each body [] s = Inr ([], s)"
| "for_each body (None # ds) s = nil_panic"
| "for_each body (Some d # ds) s =
     bindR (body d s) (\<lambda>(d, s). bindR (for_each body ds s) (\<lambda>(ds, s). Inr (Some d # ds, s)))"

definition each_pub :: "(publicationStateDefn \<Rightarrow> ClientConductor \<Rightarrow> (publicationStateDefn \<times> ClientConductor) res) \<Rightarrow>
    ClientConductor \<Rightarrow> ClientConductor res" where
  "each_pub body cc = bindR (for_each body (cc_pubs cc) cc) (\<lambda>(pubs, cc). Inr (cc\<lparr>cc_pubs := pubs\<rparr>))"

definition each_sub :: "(subscriptionStateDefn \<Rightarrow> ClientConductor \<Rightarrow> (subscriptionStateDefn \<times> ClientConductor) res) \<Rightarrow>
    ClientConductor \<Rightarrow> ClientConductor res" where
  "each_sub body cc = bindR (for_each body (cc_subs cc) cc) (\<lambda>(subs, cc). Inr (cc\<lparr>cc_subs := subs\<rparr>))"

definition call :: "handler_id option \<Rightarrow> (handler_id \<Rightarrow> conductor_call) \<Rightarrow> ClientConductor \<Rightarrow> ClientConductor" where
  "call handler c cc = (case handler of None \<Rightarrow> cc | Some h \<Rightarrow> cc\<lparr>cc_calls := cc_calls cc @ [c h]\<rparr>)"

definition registered_publication :: "log_files \<Rightarrow> int \<Rightarrow> int \<Rightarrow> int \<Rightarrow> byte list \<Rightarrow> int \<Rightarrow> publicationStateDefn \<Rightarrow>
    publicationStateDefn res" where
  "registered_publication files sessID posLimitCounterID statusID logFileName origRegID pub =
     bindR (map_log files logFileName) (\<lambda>buffers.
     Inr (pub\<lparr>pd_status := RegisteredMediaDriver, pd_sessionID := sessID, pd_posLimitCounterID := posLimitCounterID,
              pd_channelStatusIndicatorID := statusID, pd_buffers := Some (snd (IncRef buffers)), pd_origRegID := origRegID\<rparr>))"

definition CC_OnNewPublication :: "log_files \<Rightarrow> int \<Rightarrow> int \<Rightarrow> int \<Rightarrow> int \<Rightarrow> byte list \<Rightarrow> int \<Rightarrow> int \<Rightarrow> ClientConductor \<Rightarrow>
    ClientConductor res" where
  "CC_OnNewPublication files strID sessID posLimit statusID logFileName regID origRegID =
     each_pub (\<lambda>pub cc.
       if pd_regID pub = regID then
         bindR (registered_publication files sessID posLimit statusID logFileName origRegID pub) (\<lambda>pub.
         Inr (pub, call (onNewPublicationHandler cc) (\<lambda>_. NewPublicationCall (pd_channel pub) strID sessID regID) cc))
       else Inr (pub, cc))"

definition CC_OnNewExclusivePublication :: "log_files \<Rightarrow> int \<Rightarrow> int \<Rightarrow> int \<Rightarrow> int \<Rightarrow> byte list \<Rightarrow> int \<Rightarrow> int \<Rightarrow> ClientConductor \<Rightarrow>
    ClientConductor res" where
  "CC_OnNewExclusivePublication files strID sessID posLimit statusID logFileName regID origRegID =
     each_pub (\<lambda>pub cc.
       if pd_regID pub = regID then
         bindR (registered_publication files sessID posLimit statusID logFileName origRegID pub) (\<lambda>pub.
         Inr (pub, call (onNewPublicationHandler cc) (\<lambda>_. NewPublicationCall (pd_channel pub) strID sessID regID) cc))
       else Inr (pub, cc))"

definition CC_OnAvailableCounter :: "int \<Rightarrow> int \<Rightarrow> ClientConductor \<Rightarrow> ClientConductor" where
  "CC_OnAvailableCounter registrationId counterId cc =
     (let cc = (case Option.bind (cc_counters cc) (\<lambda>ks. map_of ks registrationId) of
                  None \<Rightarrow> cc
                | Some kd \<Rightarrow>
                    if kd_status kd = AwaitingMediaDriver then
                      cc\<lparr>cc_counters := map_option (AList.update registrationId
                         (kd\<lparr>kd_counterId := counterId, kd_status := RegisteredMediaDriver\<rparr>)) (cc_counters cc)\<rparr>
                    else cc)
      in cc\<lparr>cc_calls := cc_calls cc @ map (\<lambda>(_, h). AvailableCounterCall h registrationId counterId) (availableCounterHandlers cc)\<rparr>)"

definition CC_OnUnavailableCounter :: "int \<Rightarrow> int \<Rightarrow> ClientConductor \<Rightarrow> ClientConductor" where
  "CC_OnUnavailableCounter registrationId counterId cc =
     cc\<lparr>cc_calls := cc_calls cc @ map (\<lambda>(_, h). UnavailableCounterCall h registrationId counterId) (unavailableCounterHandlers cc)\<rparr>"

definition CC_OnClientTimeout :: "DriverProxy \<Rightarrow> int \<Rightarrow> ClientConductor \<Rightarrow> ClientConductor res" where
  "CC_OnClientTimeout dp clientID cc =
     (if clientID = dp_ClientID dp then bindR (onError (ClientTimeout clientID) cc) (\<lambda>cc. Inr (cc\<lparr>cc_running := False\<rparr>))
      else Inr cc)"

definition CC_OnSubscriptionReady :: "int \<Rightarrow> int \<Rightarrow> ClientConductor \<Rightarrow> ClientConductor res" where
  "CC_OnSubscriptionReady correlationID statusID =
     each_sub (\<lambda>sub cc.
       if sd_regID sub = correlationID then
         let subscription = NewSubscription (sd_channel sub) correlationID (sd_streamID sub) statusID
               (sd_availableImageHandler sub) (sd_unavailableImageHandler sub);
             cc = cc\<lparr>cc_subscriptions := (cc_subscriptions cc)(correlationID \<mapsto> subscription)\<rparr>
         in Inr (sub\<lparr>sd_status := RegisteredMediaDriver, sd_subscription := Some correlationID\<rparr>,
                 call (onNewSubscriptionHandler cc) (\<lambda>_. NewSubscriptionCall (sd_channel sub) (sd_streamID sub) correlationID) cc)
       else Inr (sub, cc))"

definition DefaultImageFactory :: "log_files \<Rightarrow> mem \<Rightarrow> int \<Rightarrow> int \<Rightarrow> byte list \<Rightarrow> int \<Rightarrow> byte list \<Rightarrow> buffer \<Rightarrow> int \<Rightarrow> image res" where
  "DefaultImageFactory files m sessID corrID logFilename subRegId source values subscriberPositionID =
     bindR (map_log files logFilename) (\<lambda>buffers.
     bindR (NewImage m sessID corrID buffers) (\<lambda>im.
     bindR (NewPosition m values subscriberPositionID) (\<lambda>pos.
     bindR (Position_get m pos) (\<lambda>_.
     Inr (im\<lparr>subscriptionRegistrationID := subRegId, sourceIdentity := source, subscriberPosition := pos\<rparr>)))))"

definition subscription_object :: "subscriptionStateDefn \<Rightarrow> ClientConductor \<Rightarrow> (int \<times> Subscription) option" where
  "subscription_object sd cc =
     Option.bind (sd_subscription sd) (\<lambda>ref. map_option (Pair ref) (cc_subscriptions cc ref))"

definition CC_OnAvailableImage :: "log_files \<Rightarrow> mem \<Rightarrow> int \<Rightarrow> int \<Rightarrow> byte list \<Rightarrow> byte list \<Rightarrow> int \<Rightarrow> int \<Rightarrow> int \<Rightarrow> ClientConductor \<Rightarrow>
    ClientConductor res" where
  "CC_OnAvailableImage files m strID sessID logFilename source posID subsRegID corrID =
     each_sub (\<lambda>sd cc.
       case subscription_object sd cc of
         None \<Rightarrow> Inr (sd, cc)
       | Some (ref, sub) \<Rightarrow>
           if sd_regID sd = subsRegID then
             bindR (DefaultImageFactory files m sessID corrID logFilename (sd_regID sd) source (counterValuesBuffer cc) posID) (\<lambda>im.
             let sub = snd (addImage sub im);
                 cc = cc\<lparr>cc_subscriptions := (cc_subscriptions cc)(ref \<mapsto> sub)\<rparr>
             in Inr (sd, call (sub_availableImageHandler sub) (\<lambda>h. AvailableImageCall h im) cc))
           else Inr (sd, cc))"

text \<open>An image the subscription does not have is announced to the handler and queued as nil.\<close>

definition CC_OnUnavailableImage :: "int \<Rightarrow> int \<Rightarrow> int \<Rightarrow> ClientConductor \<Rightarrow> ClientConductor res" where
  "CC_OnUnavailableImage now corrID subRegID =
     each_sub (\<lambda>sd cc.
       if sd_regID sd = subRegID then
         (case subscription_object sd cc of
            None \<Rightarrow> Inr (sd, cc)
          | Some (ref, sub) \<Rightarrow>
              (case removeImage sub corrID of (im, sub) \<Rightarrow>
                 let cc = cc\<lparr>cc_subscriptions := (cc_subscriptions cc)(ref \<mapsto> sub)\<rparr>;
                     cc = call (sub_unavailableImageHandler sub) (\<lambda>h. UnavailableImageCall h im) cc
                 in bindR (linger now (LingerImage im) cc) (\<lambda>cc. Inr (sd, cc))))
       else Inr (sd, cc))"

definition CC_OnOperationSuccess :: "int \<Rightarrow> ClientConductor \<Rightarrow> ClientConductor" where
  "CC_OnOperationSuccess corrID cc = cc"

definition CC_OnChannelEndpointError :: "int \<Rightarrow> byte list \<Rightarrow> ClientConductor \<Rightarrow> ClientConductor res" where
  "CC_OnChannelEndpointError corrID reason cc =
     (let statusIndicatorId = wrap32 corrID in
      bindR (each_pub (\<lambda>pd cc.
        bindR (case Option.bind (pd_publication pd) (cc_publications cc) of
                 None \<Rightarrow> Inr cc
               | Some pub \<Rightarrow> if pub_channelStatusIndicatorID pub = statusIndicatorId then onError (DriverMessage reason) cc else Inr cc)
          (\<lambda>cc. Inr (pd, cc))) cc)
      (each_sub (\<lambda>sd cc.
        bindR (case subscription_object sd cc of
                 None \<Rightarrow> Inr cc
               | Some (_, sub) \<Rightarrow> if sub_channelStatusID sub = statusIndicatorId then onError (DriverMessage reason) cc else Inr cc)
          (\<lambda>cc. Inr (sd, cc)))))"

fun errored_publication :: "int \<Rightarrow> int \<Rightarrow> byte list \<Rightarrow> publicationStateDefn option list \<Rightarrow> publicationStateDefn option list option res" where
  "errored_publication corrID code reason [] = Inr None"
| "errored_publication corrID code reason (None # ps) = nil_panic"
| "errored_publication corrID code reason (Some pd # ps) =
     (if pd_regID pd = corrID
      then Inr (Some (Some (pd\<lparr>pd_status := ErroredMediaDriver, pd_errorCode := code, pd_errorMessage := reason\<rparr>) # ps))
      else bindR (errored_publication corrID code reason ps) (\<lambda>r. Inr (map_option ((#) (Some pd)) r)))"

definition CC_OnErrorResponse :: "int \<Rightarrow> int \<Rightarrow> byte list \<Rightarrow> ClientConductor \<Rightarrow> ClientConductor res" where
  "CC_OnErrorResponse corrID code reason cc =
     (case Option.bind (cc_counters cc) (\<lambda>ks. map_of ks corrID) of
        Some kd \<Rightarrow> Inr (cc\<lparr>cc_counters := map_option (AList.update corrID
            (kd\<lparr>kd_status := ErroredMediaDriver, kd_errorCode := code, kd_errorMessage := reason\<rparr>)) (cc_counters cc)\<rparr>)
      | None \<Rightarrow>
          bindR (errored_publication corrID code reason (cc_pubs cc)) (\<lambda>pubs.
          case pubs of
            Some ps \<Rightarrow> Inr (cc\<lparr>cc_pubs := ps\<rparr>)
          | None \<Rightarrow>
              each_sub (\<lambda>sd cc.
                Inr (if sd_regID sd = corrID
                     then sd\<lparr>sd_status := ErroredMediaDriver, sd_errorCode := code, sd_errorMessage := reason\<rparr> else sd, cc)) cc))"

text \<open>The conductor as the listener of the driver's events.\<close>

fun conductor_listener :: "DriverProxy \<Rightarrow> log_files \<Rightarrow> int \<Rightarrow> listener_call \<Rightarrow> mem \<Rightarrow> ClientConductor \<Rightarrow> (ClientConductor \<times> mem) res" where
  "conductor_listener dp files now (OnNewPublication st se po ch lf cid rid) m cc =
     bindR (CC_OnNewPublication files st se po ch lf cid rid cc) (\<lambda>cc. Inr (cc, m))"
| "conductor_listener dp files now (OnNewExclusivePublication st se po ch lf cid rid) m cc =
     bindR (CC_OnNewExclusivePublication files st se po ch lf cid rid cc) (\<lambda>cc. Inr (cc, m))"
| "conductor_listener dp files now (OnAvailableImage st se lf src po sub cid) m cc =
     bindR (CC_OnAvailableImage files m st se lf src po sub cid cc) (\<lambda>cc. Inr (cc, m))"
| "conductor_listener dp files now (OnUnavailableImage cid sub) m cc =
     bindR (CC_OnUnavailableImage now cid sub cc) (\<lambda>cc. Inr (cc, m))"
| "conductor_listener dp files now (OnOperationSuccess cid) m cc = Inr (CC_OnOperationSuccess cid cc, m)"
| "conductor_listener dp files now (OnErrorResponse cid code reason) m cc =
     bindR (CC_OnErrorResponse cid code reason cc) (\<lambda>cc. Inr (cc, m))"
| "conductor_listener dp files now (OnChannelEndpointError cid reason) m cc =
     bindR (CC_OnChannelEndpointError cid reason cc) (\<lambda>cc. Inr (cc, m))"
| "conductor_listener dp files now (OnSubscriptionReady cid status) m cc =
     bindR (CC_OnSubscriptionReady cid status cc) (\<lambda>cc. Inr (cc, m))"
| "conductor_listener dp files now (OnAvailableCounter rid cid) m cc = Inr (CC_OnAvailableCounter rid cid cc, m)"
| "conductor_listener dp files now (OnUnavailableCounter rid cid) m cc = Inr (CC_OnUnavailableCounter rid cid cc, m)"
| "conductor_listener dp files now (OnClientTimeout client) m cc =
     bindR (CC_OnClientTimeout dp client cc) (\<lambda>cc. Inr (cc, m))"

subsection \<open>Closing\<close>

definition close_resource :: "(int \<Rightarrow> string option) \<Rightarrow> mem \<Rightarrow> linger_resource \<Rightarrow> string option res" where
  "close_resource close m r =
     (case r of
        LingerLog buffers \<Rightarrow> bindR (LogBuffers_Close close buffers) (\<lambda>(err, _). Inr err)
      | LingerImage None \<Rightarrow> Inr None
      | LingerImage (Some im) \<Rightarrow> bindR (Image_Close close m im) (\<lambda>(err, _). Inr err))"

definition report :: "conductor_error option \<Rightarrow> ClientConductor \<Rightarrow> ClientConductor res" where
  "report err cc = (case err of None \<Rightarrow> Inr cc | Some e \<Rightarrow> onError e cc)"

text \<open>
  Both loops take resources from the channel until it is empty. A resource that has not expired
  goes to the back of the channel and ends the check.
\<close>

fun check_managed :: "(int \<Rightarrow> string option) \<Rightarrow> mem \<Rightarrow> int \<Rightarrow> (int \<times> linger_resource) list \<Rightarrow> ClientConductor \<Rightarrow> ClientConductor res" where
  "check_managed close m now [] cc = Inr (cc\<lparr>lingeringResources := []\<rparr>)"
| "check_managed close m now ((lastTime, r) # rs) cc =
     (if resourceLingerTimeoutNs cc < wrap64 (now - lastTime) then
        bindR (close_resource close m r) (\<lambda>err.
        bindR (report (map_option CloseFailed err) cc) (check_managed close m now rs))
      else linger lastTime r (cc\<lparr>lingeringResources := rs\<rparr>))"

definition onCheckManagedResources :: "(int \<Rightarrow> string option) \<Rightarrow> mem \<Rightarrow> int \<Rightarrow> ClientConductor \<Rightarrow> ClientConductor res" where
  "onCheckManagedResources close m now cc = check_managed close m now (lingeringResources cc) cc"

fun force_close :: "(int \<Rightarrow> string option) \<Rightarrow> mem \<Rightarrow> (int \<times> linger_resource) list \<Rightarrow> ClientConductor \<Rightarrow> ClientConductor res" where
  "force_close close m [] cc = Inr (cc\<lparr>lingeringResources := []\<rparr>)"
| "force_close close m ((lastTime, r) # rs) cc =
     bindR (close_resource close m r) (\<lambda>err.
     bindR (report (map_option CloseFailed err) cc) (force_close close m rs))"

definition forceCloseResources :: "(int \<Rightarrow> string option) \<Rightarrow> mem \<Rightarrow> ClientConductor \<Rightarrow> ClientConductor res" where
  "forceCloseResources close m cc = force_close close m (lingeringResources cc) cc"

definition isPublicationConnected :: "int \<Rightarrow> int \<Rightarrow> ClientConductor \<Rightarrow> bool" where
  "isPublicationConnected now timeOfLastStatusMessage cc \<longleftrightarrow>
     now \<le> wrap64 (wrap64 (timeOfLastStatusMessage * 1000000) + publicationConnectionTimeoutNs cc)"

text \<open>
  Closing everything runs over the indices of the slice as it is at the start. Closing an element
  moves the last one of the current slice into its place, in the same array. The counters are
  taken in the order of the association list, which is one of the orders Go allows.
\<close>

definition answer_error :: "unit answer \<Rightarrow> conductor_error option" where
  "answer_error r = (case r of Inl e \<Rightarrow> Some e | Inr _ \<Rightarrow> None)"

fun close_pubs :: "DriverProxy \<Rightarrow> int \<Rightarrow> nat list \<Rightarrow> publicationStateDefn option list \<Rightarrow> ClientConductor \<Rightarrow> mem \<Rightarrow>
    (ClientConductor \<times> mem) res" where
  "close_pubs dp now [] arr cc m = Inr (cc, m)"
| "close_pubs dp now (i # is) arr cc m =
     (case Option.bind (arr ! i) pd_publication of
        None \<Rightarrow> close_pubs dp now is arr cc m
      | Some ref \<Rightarrow>
          bindR (Publication_Close dp now ref cc m) (\<lambda>(r, front, cc, m).
          bindR (report (answer_error r) cc) (\<lambda>cc.
          close_pubs dp now is (front @ drop (length front) arr) cc m)))"

fun close_subs :: "DriverProxy \<Rightarrow> int \<Rightarrow> nat list \<Rightarrow> subscriptionStateDefn option list \<Rightarrow> ClientConductor \<Rightarrow> mem \<Rightarrow>
    (ClientConductor \<times> mem) res" where
  "close_subs dp now [] arr cc m = Inr (cc, m)"
| "close_subs dp now (i # is) arr cc m =
     (case Option.bind (arr ! i) sd_subscription of
        None \<Rightarrow> close_subs dp now is arr cc m
      | Some ref \<Rightarrow>
          bindR (Subscription_Close dp now ref cc m) (\<lambda>(r, front, cc, m).
          bindR (report (answer_error r) cc) (\<lambda>cc.
          close_subs dp now is (front @ drop (length front) arr) cc m)))"

fun close_counters :: "DriverProxy \<Rightarrow> (int \<times> counterStateDefn) list \<Rightarrow> ClientConductor \<Rightarrow> mem \<Rightarrow> (ClientConductor \<times> mem) res" where
  "close_counters dp [] cc m = Inr (cc, m)"
| "close_counters dp ((_, kd) # ks) cc m =
     (case kd_counter kd of
        None \<Rightarrow> close_counters dp ks cc m
      | Some ref \<Rightarrow>
          bindR (Counter_Close dp ref cc m) (\<lambda>(r, cc, m).
          bindR (report (answer_error r) cc) (\<lambda>cc. close_counters dp ks cc m)))"

definition closeAllResources :: "DriverProxy \<Rightarrow> int \<Rightarrow> ClientConductor \<Rightarrow> mem \<Rightarrow> (ClientConductor \<times> mem) res" where
  "closeAllResources dp now cc m =
     (if cc_running cc then
        let cc = cc\<lparr>cc_running := False\<rparr> in
        bindR (close_pubs dp now [0..<length (cc_pubs cc)] (cc_pubs cc) cc m) (\<lambda>(cc, m).
        let cc = cc\<lparr>cc_pubs := []\<rparr> in
        bindR (close_subs dp now [0..<length (cc_subs cc)] (cc_subs cc) cc m) (\<lambda>(cc, m).
        let cc = cc\<lparr>cc_subs := []\<rparr> in
        bindR (close_counters dp (case cc_counters cc of None \<Rightarrow> [] | Some ks \<Rightarrow> ks) cc m) (\<lambda>(cc, m).
        Inr (cc\<lparr>cc_counters := None\<rparr>, m))))
      else Inr (cc, m))"

text \<open>\<open>stopped\<close> tells whether the loop of the conductor ends within the five seconds that \<open>Close\<close> waits.\<close>

definition CC_Close :: "DriverProxy \<Rightarrow> int \<Rightarrow> bool \<Rightarrow> ClientConductor \<Rightarrow> mem \<Rightarrow> (unit answer \<times> ClientConductor \<times> mem) res" where
  "CC_Close dp now stopped cc m =
     (let running = cc_running cc in
      bindR (closeAllResources dp now cc m) (\<lambda>(cc, m).
      bindR (if running then bindR (dp_ClientClose dp m) (\<lambda>(_, m). Inr m) else Inr m) (\<lambda>m.
      let cc = (if stopped then cc\<lparr>conductorRunning := False\<rparr> else cc)
      in Inr (if conductorRunning cc then Inl NotStopped else Inr (), cc, m))))"

subsection \<open>Time-outs and the loop\<close>

definition heartbeat :: "DriverProxy \<Rightarrow> int \<Rightarrow> ClientConductor \<Rightarrow> mem \<Rightarrow> (unit answer \<times> ClientConductor \<times> mem) res" where
  "heartbeat dp now cc m =
     (case heartbeatTimestamp cc of
        Some ac \<Rightarrow>
          bindR (GetKeyPartInt64 m (counterReader cc) (ac_CounterId ac) heartheatRegistrationIdOffset) (\<lambda>registrationID.
          if registrationID = Inr (dp_ClientID dp) then
            bindR (AtomicCounter_Set m ac (now sdiv 1000000)) (\<lambda>m. Inr (Inr (), cc, m))
          else bindR (closeAllResources dp now cc m) (\<lambda>(cc, m). Inr (Inl HeartbeatInactive, cc, m)))
      | None \<Rightarrow>
          bindR (FindCounter m (counterReader cc) heartbeatTypeId (Some (\<lambda>keyBuffer.
                   bindR (GetInt64 m keyBuffer heartheatRegistrationIdOffset) (\<lambda>v. Inr (v = dp_ClientID dp))))) (\<lambda>counterId.
          if counterId \<noteq> NullCounterId then
            (case NewAtomicCounter (counterReader cc) counterId of
               Inl _ \<Rightarrow> Inr (Inr (), cc\<lparr>heartbeatTimestamp := None\<rparr>, m)
             | Inr ac \<Rightarrow>
                 bindR (AtomicCounter_Set m ac (now sdiv 1000000)) (\<lambda>m.
                 Inr (Inr (), cc\<lparr>heartbeatTimestamp := Some ac\<rparr>, m)))
          else Inr (Inr (), cc, m)))"

definition check_keepalive :: "DriverProxy \<Rightarrow> int \<Rightarrow> ClientConductor \<Rightarrow> mem \<Rightarrow> (int answer \<times> ClientConductor \<times> mem) res" where
  "check_keepalive dp now cc m =
     (if now > wrap64 (timeOfLastKeepalive cc + keepaliveTimeoutNS) then
        bindR (dp_TimeOfLastDriverKeepalive dp m) (\<lambda>t.
        let age = wrap64 (wrap64 (t * 1000000) + driverTimeoutNs cc) in
        if now > age then
          Inr (Inl (KeepaliveTimeout age (driverTimeoutNs cc)), cc\<lparr>driverActive := False\<rparr>, m)
        else bindR (heartbeat dp now cc m) (\<lambda>(r, cc, m).
             case r of Inl e \<Rightarrow> Inr (Inl e, cc, m) | Inr _ \<Rightarrow> Inr (Inr 1, cc\<lparr>timeOfLastKeepalive := now\<rparr>, m)))
      else Inr (Inr 0, cc, m))"

definition onHeartbeatCheckTimeouts :: "DriverProxy \<Rightarrow> (int \<Rightarrow> string option) \<Rightarrow> int \<Rightarrow> ClientConductor \<Rightarrow> mem \<Rightarrow>
    (int answer \<times> ClientConductor \<times> mem) res" where
  "onHeartbeatCheckTimeouts dp close now cc m =
     (if now > wrap64 (timeOfLastDoWork cc + interServiceTimeoutNs cc) then
        bindR (closeAllResources dp now cc m) (\<lambda>(cc, m).
        Inr (Inl (ServiceTimeout now (timeOfLastDoWork cc)), cc, m))
      else
        bindR (check_keepalive dp now (cc\<lparr>timeOfLastDoWork := now\<rparr>) m) (\<lambda>(r, cc, m).
        case r of
          Inl e \<Rightarrow> Inr (Inl e, cc, m)
        | Inr result \<Rightarrow>
            if now > wrap64 (timeOfLastCheckManagedResources cc + resourceTimeoutNS) then
              bindR (onCheckManagedResources close m now cc) (\<lambda>cc.
              Inr (Inr 1, cc\<lparr>timeOfLastCheckManagedResources := now\<rparr>, m))
            else Inr (Inr result, cc, m)))"

text \<open>
  One round of the loop reads an event and checks the time-outs. The clock is read once per round;
  \<open>env\<close> is what the driver does to the memory while the event is read.
\<close>

definition doWork :: "DriverProxy \<Rightarrow> log_files \<Rightarrow> (int \<Rightarrow> string option) \<Rightarrow> (nat \<Rightarrow> mem \<Rightarrow> mem) \<Rightarrow> int \<Rightarrow> CopyReceiver \<Rightarrow>
    ClientConductor \<Rightarrow> mem \<Rightarrow> (int answer \<times> CopyReceiver \<times> ClientConductor \<times> mem) res" where
  "doWork dp files close env now bcast cc m =
     bindR (ReceiveMessages env (conductor_listener dp files now) bcast m cc) (\<lambda>(workCount, bcast, cc, m).
     bindR (onHeartbeatCheckTimeouts dp close now cc m) (\<lambda>(r, cc, m).
     Inr (case r of Inl e \<Rightarrow> Inl e | Inr heartbeats \<Rightarrow> Inr (workCount + heartbeats), bcast, cc, m)))"

text \<open>
  The loop runs until the client is closed or a round fails. Before round \<open>k\<close> the other goroutines
  change the conductor and the memory by \<open>others k\<close>; the clock shows \<open>clock k\<close>. A round that blocks
  for good never returns, and neither does the loop.
\<close>

partial_function (option) run_loop :: "DriverProxy \<Rightarrow> log_files \<Rightarrow> (int \<Rightarrow> string option) \<Rightarrow> (nat \<Rightarrow> nat \<Rightarrow> mem \<Rightarrow> mem) \<Rightarrow> (nat \<Rightarrow> int) \<Rightarrow>
    (nat \<Rightarrow> ClientConductor \<times> mem \<Rightarrow> ClientConductor \<times> mem) \<Rightarrow> nat \<Rightarrow> CopyReceiver \<Rightarrow> ClientConductor \<Rightarrow> mem \<Rightarrow>
    (ClientConductor \<times> mem) res option" where
  "run_loop dp files close env clock others k bcast cc m =
     (case others k (cc, m) of (cc, m) \<Rightarrow>
      if \<not> cc_running cc then Some (Inr (cc, m))
      else
        (case doWork dp files close (env k) (clock k) bcast cc m of
           Inl (Blocked what) \<Rightarrow> None
         | Inl f \<Rightarrow> Some (Inl f)
         | Inr (Inl e, bcast, cc, m) \<Rightarrow> Some (bindR (onError e cc) (\<lambda>cc. Inr (cc, m)))
         | Inr (Inr workCount, bcast, cc, m) \<Rightarrow> run_loop dp files close env clock others (Suc k) bcast cc m))"

definition run :: "DriverProxy \<Rightarrow> log_files \<Rightarrow> (int \<Rightarrow> string option) \<Rightarrow> (nat \<Rightarrow> nat \<Rightarrow> mem \<Rightarrow> mem) \<Rightarrow> (nat \<Rightarrow> int) \<Rightarrow>
    (nat \<Rightarrow> ClientConductor \<times> mem \<Rightarrow> ClientConductor \<times> mem) \<Rightarrow> int \<Rightarrow> CopyReceiver \<Rightarrow> ClientConductor \<Rightarrow> mem \<Rightarrow>
    (ClientConductor \<times> mem) res option" where
  "run dp files close env clock others now bcast cc m =
     map_option (\<lambda>r. bindR r (\<lambda>(cc, m).
       bindR (forceCloseResources close m cc) (\<lambda>cc. Inr (cc\<lparr>conductorRunning := False\<rparr>, m))))
     (run_loop dp files close env clock others 0 bcast
        (cc\<lparr>timeOfLastKeepalive := now, timeOfLastCheckManagedResources := now, timeOfLastDoWork := now,
            conductorRunning := True\<rparr>) m)"

definition CC_Start :: "ClientConductor \<Rightarrow> ClientConductor" where
  "CC_Start cc = cc\<lparr>cc_running := True\<rparr>"

definition CC_Init :: "int \<Rightarrow> int \<Rightarrow> int \<Rightarrow> int \<Rightarrow> buffer \<Rightarrow> buffer \<Rightarrow> ClientConductor \<Rightarrow> ClientConductor" where
  "CC_Init interServiceTo driverTo pubConnectionTo lingerTo valuesBuf metaDataBuf cc =
     cc\<lparr>cc_running := True, driverActive := True, interServiceTimeoutNs := interServiceTo, driverTimeoutNs := driverTo,
        publicationConnectionTimeoutNs := pubConnectionTo, resourceLingerTimeoutNs := lingerTo,
        counterValuesBuffer := valuesBuf, counterReader := NewReader valuesBuf metaDataBuf, lingeringResources := [],
        cc_pubs := [], cc_subs := [], cc_counters := Some [], availableCounterHandlers := [], unavailableCounterHandlers := []\<rparr>"

end
