(* ===== verification/Proxy_Contract.thy ===== *)
theory Proxy_Contract
  imports Conductor
begin

text \<open>
  What the conductor relies on of its driver proxy: every command and every handler registration
  uses up one correlation id, the next one, and leaves the proxy ready for the following one.
  The contract is a locale over the \<open>DriverProxy\<close> interface and is interpreted on the proxy of
  \<open>aeron/driver/proxy.go\<close> over the ring buffer. How many commands the positions and ids still
  allow for is counted, since both are 64-bit numbers that only grow.
\<close>

subsection \<open>The contract\<close>

definition uses_id :: "(nat \<Rightarrow> mem \<Rightarrow> bool) \<Rightarrow> (mem \<Rightarrow> int) \<Rightarrow> nat \<Rightarrow> mem \<Rightarrow> ('a \<times> mem) res \<Rightarrow> bool" where
  "uses_id ready next_id n m r \<longleftrightarrow> (\<exists>x m'. r = Inr (x, m') \<and> ready n m' \<and> next_id m' = next_id m + 1)"

definition gives_id :: "(nat \<Rightarrow> mem \<Rightarrow> bool) \<Rightarrow> (mem \<Rightarrow> int) \<Rightarrow> nat \<Rightarrow> mem \<Rightarrow> (int outcome \<times> mem) res \<Rightarrow> bool" where
  "gives_id ready next_id n m r \<longleftrightarrow>
     uses_id ready next_id n m r \<and> (\<forall>i m'. r = Inr (Inr i, m') \<longrightarrow> i = next_id m)"

lemma uses_idD: "uses_id ready next_id n m (Inr (x, m')) \<Longrightarrow> ready n m' \<and> next_id m' = next_id m + 1"
  by (simp add: uses_id_def)

lemma gives_idD:
  assumes "gives_id ready next_id n m (Inr (x, m'))"
  shows "ready n m'" and "next_id m' = next_id m + 1" and "x = Inr i \<Longrightarrow> i = next_id m"
  using assms by (auto simp: gives_id_def uses_id_def)

locale driver_proxy =
  fixes dp :: DriverProxy and ready :: "nat \<Rightarrow> mem \<Rightarrow> bool" and next_id :: "mem \<Rightarrow> int"
    and reader :: Reader and counter_args :: "buffer \<Rightarrow> int \<Rightarrow> int \<Rightarrow> buffer \<Rightarrow> int \<Rightarrow> int \<Rightarrow> bool"
  assumes next_id_range: "in_i64 (next_id m)"
    and ready_less: "ready (Suc n) m \<Longrightarrow> ready n m"
    and NextCorrelationID_law: "ready (Suc n) m \<Longrightarrow>
      \<exists>m'. dp_NextCorrelationID dp m = Inr (next_id m, m') \<and> ready n m' \<and> next_id m' = next_id m + 1"
    and AddPublication_law: "ready (Suc n) m \<Longrightarrow> channel_ok ch \<Longrightarrow> in_i32 st \<Longrightarrow>
      gives_id ready next_id n m (dp_AddPublication dp ch st m)"
    and AddExclusivePublication_law: "ready (Suc n) m \<Longrightarrow> channel_ok ch \<Longrightarrow> in_i32 st \<Longrightarrow>
      gives_id ready next_id n m (dp_AddExclusivePublication dp ch st m)"
    and AddSubscription_law: "ready (Suc n) m \<Longrightarrow> channel_ok ch \<Longrightarrow> in_i32 st \<Longrightarrow>
      gives_id ready next_id n m (dp_AddSubscription dp ch st m)"
    and AddCounter_law: "ready (Suc n) m \<Longrightarrow> counter_args kb ko kl lb lo ll \<Longrightarrow> in_i32 ty \<Longrightarrow>
      gives_id ready next_id n m (dp_AddCounter dp ty kb ko kl lb lo ll m)"
    and AddCounterByLabel_law: "ready (Suc n) m \<Longrightarrow> channel_ok label \<Longrightarrow> in_i32 ty \<Longrightarrow>
      gives_id ready next_id n m (dp_AddCounterByLabel dp ty label m)"
    and RemovePublication_law: "ready (Suc n) m \<Longrightarrow> in_i64 rid \<Longrightarrow> uses_id ready next_id n m (dp_RemovePublication dp rid m)"
    and RemoveSubscription_law: "ready (Suc n) m \<Longrightarrow> in_i64 rid \<Longrightarrow> uses_id ready next_id n m (dp_RemoveSubscription dp rid m)"
    and RemoveCounter_law: "ready (Suc n) m \<Longrightarrow> in_i64 rid \<Longrightarrow> uses_id ready next_id n m (dp_RemoveCounter dp rid m)"
    and ClientClose_law: "ready (Suc n) m \<Longrightarrow> uses_id ready next_id n m (dp_ClientClose dp m)"
    and AddDestination_law: "ready (Suc n) m \<Longrightarrow> in_i64 rid \<Longrightarrow> channel_ok ch \<Longrightarrow>
      uses_id ready next_id n m (dp_AddDestination dp rid ch m)"
    and RemoveDestination_law: "ready (Suc n) m \<Longrightarrow> in_i64 rid \<Longrightarrow> channel_ok ch \<Longrightarrow>
      uses_id ready next_id n m (dp_RemoveDestination dp rid ch m)"
    and AddRcvDestination_law: "ready (Suc n) m \<Longrightarrow> in_i64 rid \<Longrightarrow> channel_ok ch \<Longrightarrow>
      uses_id ready next_id n m (dp_AddRcvDestination dp rid ch m)"
    and RemoveRcvDestination_law: "ready (Suc n) m \<Longrightarrow> in_i64 rid \<Longrightarrow> channel_ok ch \<Longrightarrow>
      uses_id ready next_id n m (dp_RemoveRcvDestination dp rid ch m)"
    and counter_set_law: "ready n m \<Longrightarrow> NewAtomicCounter reader i = Inr ac \<Longrightarrow> AtomicCounter_Set m ac v = Inr m' \<Longrightarrow>
      ready n m' \<and> next_id m' = next_id m"

subsection \<open>The proxy keeps it\<close>

definition proxy_ready :: "int \<Rightarrow> Proxy \<Rightarrow> Reader \<Rightarrow> nat \<Rightarrow> mem \<Rightarrow> bool" where
  "proxy_ready heap driver reader n m \<longleftrightarrow>
     (let rb = toDriverCommandBuffer driver
      in (\<exists>k rs. rb_inv m rb k rs) \<and> rb_tail m rb + int n * 2048 < 4611686016279904256 \<and> heap_ok rb heap \<and>
         512 \<le> maxMsgLength rb \<and> in_i64 (px_clientID driver) \<and> correlation m rb + int n < 9223372036854775808 \<and>
         reader_ok reader \<and> apart_from (rd_values reader) (rb_buffer rb))"

abbreviation proxy_next :: "Proxy \<Rightarrow> mem \<Rightarrow> int" where
  "proxy_next driver m \<equiv> correlation m (toDriverCommandBuffer driver)"

definition proxy_counter_args :: "int \<Rightarrow> Proxy \<Rightarrow> buffer \<Rightarrow> int \<Rightarrow> int \<Rightarrow> buffer \<Rightarrow> int \<Rightarrow> int \<Rightarrow> bool" where
  "proxy_counter_args heap driver kb ko kl lb lo ll \<longleftrightarrow>
     counter_source heap kb ko kl \<and> counter_source heap lb lo ll \<and> align4 (24 + kl) + 4 + ll \<le> 512"

lemma with_correlation_ready:
  assumes "proxy_ready heap driver reader (Suc n) m" and ty: "1 \<le> ty" "in_i32 ty" and len: "0 \<le> len" "len \<le> 512"
    and fill: "\<And>m1. blank m1 heap \<Longrightarrow> \<exists>m2. f (proxy_next driver m) (Wrap heap 512) m1 = Inr (ty, len, m2) \<and>
        (\<forall>x. x < heap \<or> heap + 512 \<le> x \<longrightarrow> m2 x = m1 x)"
  shows "\<exists>o1 m'. with_correlation alone heap driver f m = Some (Inr (proxy_next driver m, o1, m')) \<and>
    proxy_ready heap driver reader n m' \<and> proxy_next driver m' = proxy_next driver m + 1"
proof -
  let ?rb = "toDriverCommandBuffer driver"
  obtain k rs where r: "rb_inv m ?rb k rs" "rb_tail m ?rb + int (Suc n) * 2048 < 4611686016279904256" "heap_ok ?rb heap"
    "512 \<le> maxMsgLength ?rb" "in_i64 (px_clientID driver)" "correlation m ?rb + int (Suc n) < 9223372036854775808"
    "reader_ok reader" "apart_from (rd_values reader) (rb_buffer ?rb)"
    using assms(1) by (auto simp: proxy_ready_def Let_def)
  have t: "rb_tail m ?rb < 4611686016279904256" using r(2) by simp
  obtain payload o1 m' where w: "length payload = nat len" "command_outcome m ?rb k rs ty payload o1 m'"
    "with_correlation alone heap driver f m = Some (Inr (proxy_next driver m, o1, m'))"
    using with_correlation_written [OF r(1) refl t r(3,4) ty len, of f "\<lambda>_. True"] fill by blast
  have "- 9223372036854775808 \<le> proxy_next driver m" by (simp add: correlation_def get_i64_def wrap64_def)
  then have c: "wrap64 (proxy_next driver m + 1) = proxy_next driver m + 1" using r(6) by (intro wrap64_id) auto
  have "aligned8 (len + 8) < 528" using aligned8_bounds(2) [of "len + 8"] len by linarith
  then have "rb_tail m' ?rb \<le> rb_tail m ?rb + 2048" using w(1,2) len by (auto simp: command_outcome_def Let_def)
  moreover have "\<exists>rs. rb_inv m' ?rb k rs" using w(2) by (auto simp: command_outcome_def Let_def split: if_splits)
  moreover have "proxy_next driver m' = proxy_next driver m + 1" using w(2) c by (auto simp: command_outcome_def Let_def)
  ultimately show ?thesis using w(3) r(2-8) by (auto simp: proxy_ready_def Let_def)
qed

lemma fills_ready:
  assumes "proxy_ready heap driver reader (Suc n) m" and "1 \<le> ty" and "in_i32 ty"
    and "fills (f (proxy_next driver m)) heap ty ws"
  shows "\<exists>o1 m'. with_correlation alone heap driver f m = Some (Inr (proxy_next driver m, o1, m')) \<and>
    proxy_ready heap driver reader n m' \<and> proxy_next driver m' = proxy_next driver m + 1"
  using assms(4) wire_end_ge [of 0 ws]
  by (intro with_correlation_ready [OF assms(1-3), of "wire_end 0 ws"]) (auto simp: fills_def)

lemma command_ready:
  assumes "proxy_ready heap driver reader (Suc n) m" and "command_ok c"
  shows "\<exists>o1 m'. with_correlation alone heap driver (command_filler (px_clientID driver) c) m = Some (Inr (proxy_next driver m, o1, m')) \<and>
    proxy_ready heap driver reader n m' \<and> proxy_next driver m' = proxy_next driver m + 1"
proof -
  obtain ty ws where w: "command_wire (px_clientID driver) (proxy_next driver m) c = (ty, ws)" by fastforce
  have "1 \<le> ty" "in_i32 ty" using w by (cases c; auto simp: in_i32_def)+
  moreover have "in_i64 (px_clientID driver)" using assms(1) by (simp add: proxy_ready_def Let_def)
  ultimately show ?thesis
    using command_fills [OF assms(2) _ _ w, of heap] by (intro fills_ready [OF assms(1)]) (auto simp: correlation_def)
qed

lemma AddCounter_ready:
  assumes "proxy_ready heap driver reader (Suc n) m" and "proxy_counter_args heap driver kb ko kl lb lo ll" and "in_i32 ty"
  shows "\<exists>o1 m'. with_correlation alone heap driver (fill_counter (px_clientID driver) ty kb ko kl lb lo ll) m =
      Some (Inr (proxy_next driver m, o1, m')) \<and>
    proxy_ready heap driver reader n m' \<and> proxy_next driver m' = proxy_next driver m + 1"
proof -
  note args = assms(2) [unfolded proxy_counter_args_def]
  have "in_i64 (px_clientID driver)" using assms(1) by (simp add: proxy_ready_def Let_def)
  moreover have "0 \<le> kl" "0 \<le> ll" using args by (auto simp: counter_source_def)
  moreover have "28 + kl + ll \<le> 512" using args align4_bounds(1) [of "24 + kl"] by linarith
  moreover have "in_i64 (proxy_next driver m)" by (simp add: correlation_def)
  ultimately show ?thesis
  proof (intro with_correlation_ready [OF assms(1), of cmd_AddCounter "28 + kl + ll"])
    fix m1 assume "blank m1 heap" "in_i64 (px_clientID driver)" "in_i64 (proxy_next driver m)"
    from fill_counter_ok [OF this assms(3) _ refl _ refl refl] args
    show "\<exists>m2. fill_counter (px_clientID driver) ty kb ko kl lb lo ll (proxy_next driver m) (Wrap heap 512) m1 =
        Inr (cmd_AddCounter, 28 + kl + ll, m2) \<and> (\<forall>x. x < heap \<or> heap + 512 \<le> x \<longrightarrow> m2 x = m1 x)" by blast
  qed (auto simp: in_i32_def)
qed

lemma settled:
  assumes "\<exists>o1 m'. w = Some (Inr (proxy_next driver m, o1, m')) \<and>
    proxy_ready heap driver reader n m' \<and> proxy_next driver m' = proxy_next driver m + 1"
  shows "gives_id (proxy_ready heap driver reader) (proxy_next driver) n m (settle (id_or_error w))"
    and "uses_id (proxy_ready heap driver reader) (proxy_next driver) n m (settle (id_or_error w))"
    and "uses_id (proxy_ready heap driver reader) (proxy_next driver) n m (settle (only_error w))"
    and "uses_id (proxy_ready heap driver reader) (proxy_next driver) n m
      (settle (map_option (\<lambda>r. bindR r (\<lambda>(correlationID, o1, m). Inr (g correlationID o1, m))) w))"
  using assms by (auto simp: gives_id_def uses_id_def settle_def id_or_error_def only_error_def split: sum.splits)

lemmas command_settled = settled [OF command_ready]

lemma NextCorrelationID_ready:
  assumes "proxy_ready heap driver reader (Suc n) m"
  shows "\<exists>m'. Proxy_NextCorrelationID m driver = Inr (proxy_next driver m, m') \<and>
    proxy_ready heap driver reader n m' \<and> proxy_next driver m' = proxy_next driver m + 1"
proof -
  let ?rb = "toDriverCommandBuffer driver" and ?a = "rb_base (toDriverCommandBuffer driver) + correlationIDCounterIndex (toDriverCommandBuffer driver)"
  obtain k rs where inv: "rb_inv m ?rb k rs" using assms by (auto simp: proxy_ready_def Let_def)
  have wf: "rb_wf ?rb k" using inv by (simp add: rb_inv_def)
  then have k: "5 \<le> k" "k \<le> 30" by (auto simp: rb_wf_def)
  note b = pow2_range [OF k]
  define m' where "m' = store 8 m ?a (proxy_next driver m + 1)"
  have "Proxy_NextCorrelationID m driver = Inr (proxy_next driver m, m')"
    using wf b by (simp add: Proxy_NextCorrelationID_def NextCorrelationID_def GetAndAddInt64_ok rb_wf_def m'_def correlation_def)
  moreover have "- 9223372036854775808 \<le> proxy_next driver m" by (simp add: correlation_def get_i64_def wrap64_def)
  then have "wrap64 (proxy_next driver m + 1) = proxy_next driver m + 1"
    using assms by (intro wrap64_id) (auto simp: proxy_ready_def Let_def)
  then have "proxy_next driver m' = proxy_next driver m + 1" unfolding m'_def by (simp add: correlation_def i64.get_put)
  moreover have "m' x = m x" if "x < rb_base ?rb + 2 ^ k + 512" for x
    using wf that by (auto simp: m'_def rb_wf_def store_outside)
  then have "rb_inv m' ?rb k rs" "rb_tail m' ?rb = rb_tail m ?rb" using rb_inv_cong(1,2) [OF inv] by blast+
  ultimately show ?thesis using assms by (auto simp: proxy_ready_def Let_def)
qed

lemma counter_set_ready:
  assumes r: "proxy_ready heap driver reader n m" and ac: "NewAtomicCounter reader i = Inr ac" and m': "AtomicCounter_Set m ac v = Inr m'"
  shows "proxy_ready heap driver reader n m' \<and> proxy_next driver m' = proxy_next driver m"
proof -
  let ?rb = "toDriverCommandBuffer driver" and ?p = "Ptr (rd_values reader)"
  obtain k rs where inv: "rb_inv m ?rb k rs" and ok: "reader_ok reader" and ap: "apart_from (rd_values reader) (rb_buffer ?rb)"
    using r by (auto simp: proxy_ready_def Let_def)
  have wf: "rb_wf ?rb k" using inv by (simp add: rb_inv_def)
  then have k: "5 \<le> k" "k \<le> 30" by (auto simp: rb_wf_def)
  note b = pow2_range [OF k]
  have i: "0 \<le> i" "i \<le> maxCounterID reader" "ac_Reader ac = reader" "ac_valueOffset ac = wrap32 (i * 128)"
    using ac ok by (auto simp: NewAtomicCounter_def has_counter_def reader_ok_def wrap32_id split: if_splits)
  note bi = reader_ok_bounds [OF ok i(1,2)]
  have "m' = store 8 m (?p + i * 128) v"
    using m' bi ok by (simp add: AtomicCounter_Set_def i PutInt64Ordered_ok reader_ok_def)
  then have same: "m' x = m x" if "rb_base ?rb \<le> x" "x < rb_base ?rb + Capacity (rb_buffer ?rb)" for x
    using that ap bi i ok by (auto simp: apart_from_def reader_ok_def intro!: store_outside)
  then have "m' x = m x" if "rb_base ?rb \<le> x" "x < rb_base ?rb + 2 ^ k + 512" for x
    using that wf by (auto simp: rb_wf_def)
  note kept = rb_inv_cong(1,2) [OF inv this]
  have "proxy_next driver m' = proxy_next driver m"
    unfolding correlation_def using wf b by (intro i64.get_local same) (auto simp: rb_wf_def)
  then show ?thesis using r kept by (auto simp: proxy_ready_def Let_def)
qed

lemmas proxy_op_defs = AddSubscription_def RemoveSubscription_def AddPublication_def AddExclusivePublication_def
  RemovePublication_def ClientClose_def AddDestination_def RemoveDestination_def AddRcvDestination_def
  RemoveRcvDestination_def AddCounter_def AddCounterByLabel_def RemoveCounter_def proxy_interface_def

interpretation px: driver_proxy "proxy_interface alone heap driver" "proxy_ready heap driver reader" "proxy_next driver"
    reader "proxy_counter_args heap driver"
proof (unfold_locales, goal_cases)
  case 1
  show ?case by (simp add: correlation_def)
next
  case (2 n m)
  then show ?case by (auto simp: proxy_ready_def Let_def)
next
  case (3 n m)
  then show ?case using NextCorrelationID_ready by (simp add: proxy_interface_def)
next
  case (4 n m ch st)
  then show ?case using command_settled(1) [OF 4(1), of "Cmd_AddPublication ch st"] by (simp add: proxy_op_defs)
next
  case (5 n m ch st)
  then show ?case using command_settled(1) [OF 5(1), of "Cmd_AddExclusivePublication ch st"] by (simp add: proxy_op_defs)
next
  case (6 n m ch st)
  then show ?case using command_settled(1) [OF 6(1), of "Cmd_AddSubscription ch st"] by (simp add: proxy_op_defs)
next
  case (7 n m kb ko kl lb lo ll ty)
  then show ?case using settled(1) [OF AddCounter_ready [OF 7]] by (simp add: proxy_op_defs)
next
  case (8 n m label ty)
  then show ?case using command_settled(1) [OF 8(1), of "Cmd_AddCounterByLabel ty label"] by (simp add: proxy_op_defs)
next
  case (9 n m rid)
  then show ?case using command_settled(3) [OF 9(1), of "Cmd_RemovePublication rid"] by (simp add: proxy_op_defs)
next
  case (10 n m rid)
  then show ?case using command_settled(3) [OF 10(1), of "Cmd_RemoveSubscription rid"] by (simp add: proxy_op_defs)
next
  case (11 n m rid)
  then show ?case using command_settled(2) [OF 11(1), of "Cmd_RemoveCounter rid"] by (simp add: proxy_op_defs)
next
  case (12 n m)
  then show ?case using command_settled(3) [OF 12(1), of Cmd_ClientClose] by (simp add: proxy_op_defs)
next
  case (13 n m rid ch)
  then show ?case using command_settled(2) [OF 13(1), of "Cmd_AddDestination rid ch"] by (simp add: proxy_op_defs)
next
  case (14 n m rid ch)
  then show ?case using command_settled(2) [OF 14(1), of "Cmd_RemoveDestination rid ch"] by (simp add: proxy_op_defs)
next
  case (15 n m rid ch)
  then show ?case using command_settled(4) [OF 15(1), of "Cmd_AddRcvDestination rid ch"] by (simp add: proxy_op_defs)
next
  case (16 n m rid ch)
  then show ?case using command_settled(2) [OF 16(1), of "Cmd_RemoveRcvDestination rid ch"] by (simp add: proxy_op_defs)
next
  case (17 n m i ac v m')
  then show ?case using counter_set_ready by blast
qed

end
