(* ===== verification/Conductor_Steps.thy ===== *)
theory Conductor_Steps
  imports Conductor_Events Proxy_Contract
begin

text \<open>
  The invariant of the client conductor, kept by every operation in every order, and the life of
  a registration under it. Operations of the application, events of the driver and the time-outs
  are steps of one relation; between two steps the rest of the system changes the memory.
\<close>

subsection \<open>The invariant\<close>

definition live_counters :: "ClientConductor \<Rightarrow> (int \<times> counterStateDefn) list" where
  "live_counters cc = (case cc_counters cc of None \<Rightarrow> [] | Some ks \<Rightarrow> ks)"

definition registration_ids :: "ClientConductor \<Rightarrow> int list" where
  "registration_ids cc =
     map (pd_regID \<circ> the) (cc_pubs cc) @ map (sd_regID \<circ> the) (cc_subs cc) @ map fst (live_counters cc) @
     map fst (availableCounterHandlers cc) @ map fst (unavailableCounterHandlers cc)"

definition ids_ok :: "int \<Rightarrow> int list \<Rightarrow> bool" where
  "ids_ok n ids \<longleftrightarrow> distinct ids \<and> (\<forall>i\<in>set ids. in_i64 i \<and> i < n)"

text \<open>
  A registered publication has its log mapped, counted once; its object, once there, belongs to
  the registration. The same holds of subscriptions and counters.
\<close>

definition pub_state_ok :: "(int \<Rightarrow> Publication option) \<Rightarrow> publicationStateDefn option \<Rightarrow> bool" where
  "pub_state_ok objects p \<longleftrightarrow>
     (case p of
        None \<Rightarrow> False
      | Some pd \<Rightarrow>
          (pd_status pd = RegisteredMediaDriver \<longrightarrow> pd_buffers pd \<noteq> None) \<and>
          (\<forall>b. pd_buffers pd = Some b \<longrightarrow> refCount b = 1) \<and>
          (\<forall>ref. pd_publication pd = Some ref \<longrightarrow> ref = pd_regID pd \<and> pd_buffers pd \<noteq> None \<and> objects ref \<noteq> None))"

definition sub_state_ok :: "(int \<Rightarrow> Subscription option) \<Rightarrow> subscriptionStateDefn option \<Rightarrow> bool" where
  "sub_state_ok objects q \<longleftrightarrow>
     (case q of
        None \<Rightarrow> False
      | Some sd \<Rightarrow>
          (sd_status sd = RegisteredMediaDriver \<longrightarrow> sd_subscription sd \<noteq> None) \<and>
          (\<forall>ref. sd_subscription sd = Some ref \<longrightarrow> ref = sd_regID sd \<and> objects ref \<noteq> None))"

definition counter_state_ok :: "(int \<Rightarrow> ClientCounter option) \<Rightarrow> int \<times> counterStateDefn \<Rightarrow> bool" where
  "counter_state_ok objects e \<longleftrightarrow>
     (\<forall>ref. kd_counter (snd e) = Some ref \<longrightarrow> ref = fst e \<and> objects ref \<noteq> None)"

definition objects_ok :: "('o \<Rightarrow> int) \<Rightarrow> (int \<Rightarrow> 'o option) \<Rightarrow> bool" where
  "objects_ok ident objects \<longleftrightarrow> (\<forall>ref x. objects ref = Some x \<longrightarrow> ident x = ref \<and> in_i64 ref)"

definition conductor_inv :: "int \<Rightarrow> Reader \<Rightarrow> ClientConductor \<Rightarrow> bool" where
  "conductor_inv n reader cc \<longleftrightarrow>
     ids_ok n (registration_ids cc) \<and>
     (\<forall>p\<in>set (cc_pubs cc). pub_state_ok (cc_publications cc) p) \<and>
     (\<forall>q\<in>set (cc_subs cc). sub_state_ok (cc_subscriptions cc) q) \<and>
     (\<forall>e\<in>set (live_counters cc). counter_state_ok (cc_counterObjects cc) e) \<and>
     objects_ok pub_regID (cc_publications cc) \<and> objects_ok sub_registrationID (cc_subscriptions cc) \<and>
     objects_ok kc_registrationId (cc_counterObjects cc) \<and>
     length (lingeringResources cc) \<le> 1024 \<and> counterReader cc = reader \<and>
     (\<forall>ac. heartbeatTimestamp cc = Some ac \<longrightarrow> (\<exists>i. NewAtomicCounter reader i = Inr ac))"

lemmas inv_defs = conductor_inv_def registration_ids_def ids_ok_def live_counters_def

subsection \<open>Operations and runs\<close>

datatype conductor_op =
    Op_AddPublication int "byte list" int
  | Op_AddExclusivePublication int "byte list" int
  | Op_AddSubscription int "byte list" int
  | Op_AddSubscriptionWithHandlers int "byte list" int "handler_id option" "handler_id option"
  | Op_AddCounter int int buffer int int buffer int int
  | Op_AddCounterByLabel int int "byte list"
  | Op_FindPublication int int
  | Op_FindCounter int int
  | Op_AddAvailableHandler handler_id
  | Op_AddUnavailableHandler handler_id
  | Op_RemoveAvailableHandlerById int
  | Op_RemoveAvailableHandler handler_id
  | Op_RemoveUnavailableHandlerById int
  | Op_RemoveUnavailableHandler handler_id
  | Op_ClosePublication int int
  | Op_CloseSubscription int int
  | Op_CloseCounter int
  | Op_AddDestination int "byte list"
  | Op_RemoveDestination int "byte list"
  | Op_AddRcvDestination int "byte list"
  | Op_RemoveRcvDestination int "byte list"
  | Op_Event int listener_call
  | Op_CheckTimeouts int
  | Op_ForceClose
  | Op_Start
  | Op_Close int bool

fun apply_op :: "DriverProxy \<Rightarrow> log_files \<Rightarrow> (int \<Rightarrow> string option) \<Rightarrow> conductor_op \<Rightarrow> ClientConductor \<Rightarrow> mem \<Rightarrow> (ClientConductor \<times> mem) res" where
  "apply_op dp files close (Op_AddPublication now ch st) cc m =
     bindR (CC_AddPublication dp now ch st cc m) (\<lambda>(_, cc, m). Inr (cc, m))"
| "apply_op dp files close (Op_AddExclusivePublication now ch st) cc m =
     bindR (CC_AddExclusivePublication dp now ch st cc m) (\<lambda>(_, cc, m). Inr (cc, m))"
| "apply_op dp files close (Op_AddSubscription now ch st) cc m =
     bindR (CC_AddSubscription dp now ch st cc m) (\<lambda>(_, cc, m). Inr (cc, m))"
| "apply_op dp files close (Op_AddSubscriptionWithHandlers now ch st h1 h2) cc m =
     bindR (AddSubscriptionWithHandlers dp now ch st h1 h2 cc m) (\<lambda>(_, cc, m). Inr (cc, m))"
| "apply_op dp files close (Op_AddCounter now ty kb ko kl lb lo ll) cc m =
     bindR (CC_AddCounter dp now ty kb ko kl lb lo ll cc m) (\<lambda>(_, cc, m). Inr (cc, m))"
| "apply_op dp files close (Op_AddCounterByLabel now ty label) cc m =
     bindR (CC_AddCounterByLabel dp now ty label cc m) (\<lambda>(_, cc, m). Inr (cc, m))"
| "apply_op dp files close (Op_FindPublication now rid) cc m = bindR (FindPublication now rid cc m) (\<lambda>(_, cc). Inr (cc, m))"
| "apply_op dp files close (Op_FindCounter now rid) cc m = Inr (snd (CC_FindCounter now rid cc), m)"
| "apply_op dp files close (Op_AddAvailableHandler h) cc m =
     bindR (AddAvailableCounterHandler dp h cc m) (\<lambda>(_, cc, m). Inr (cc, m))"
| "apply_op dp files close (Op_AddUnavailableHandler h) cc m =
     bindR (AddUnavailableCounterHandler dp h cc m) (\<lambda>(_, cc, m). Inr (cc, m))"
| "apply_op dp files close (Op_RemoveAvailableHandlerById rid) cc m = Inr (snd (RemoveAvailableCounterHandlerById rid cc), m)"
| "apply_op dp files close (Op_RemoveAvailableHandler h) cc m = Inr (snd (RemoveAvailableCounterHandler h cc), m)"
| "apply_op dp files close (Op_RemoveUnavailableHandlerById rid) cc m = Inr (snd (RemoveUnavailableCounterHandlerById rid cc), m)"
| "apply_op dp files close (Op_RemoveUnavailableHandler h) cc m = Inr (snd (RemoveUnavailableCounterHandler h cc), m)"
| "apply_op dp files close (Op_ClosePublication now ref) cc m = bindR (Publication_Close dp now ref cc m) (\<lambda>(_, _, cc, m). Inr (cc, m))"
| "apply_op dp files close (Op_CloseSubscription now ref) cc m = bindR (Subscription_Close dp now ref cc m) (\<lambda>(_, _, cc, m). Inr (cc, m))"
| "apply_op dp files close (Op_CloseCounter ref) cc m = bindR (Counter_Close dp ref cc m) (\<lambda>(_, cc, m). Inr (cc, m))"
| "apply_op dp files close (Op_AddDestination rid ch) cc m = bindR (CC_AddDestination dp rid ch cc m) (\<lambda>(_, m). Inr (cc, m))"
| "apply_op dp files close (Op_RemoveDestination rid ch) cc m = bindR (CC_RemoveDestination dp rid ch cc m) (\<lambda>(_, m). Inr (cc, m))"
| "apply_op dp files close (Op_AddRcvDestination rid ch) cc m = bindR (CC_AddRcvDestination dp rid ch cc m) (\<lambda>(_, m). Inr (cc, m))"
| "apply_op dp files close (Op_RemoveRcvDestination rid ch) cc m = bindR (CC_RemoveRcvDestination dp rid ch cc m) (\<lambda>(_, m). Inr (cc, m))"
| "apply_op dp files close (Op_Event now c) cc m = conductor_listener dp files now c m cc"
| "apply_op dp files close (Op_CheckTimeouts now) cc m =
     bindR (onHeartbeatCheckTimeouts dp close now cc m) (\<lambda>(_, cc, m). Inr (cc, m))"
| "apply_op dp files close Op_ForceClose cc m = bindR (forceCloseResources close m cc) (\<lambda>cc. Inr (cc, m))"
| "apply_op dp files close Op_Start cc m = Inr (CC_Start cc, m)"
| "apply_op dp files close (Op_Close now stopped) cc m = bindR (CC_Close dp now stopped cc m) (\<lambda>(_, cc, m). Inr (cc, m))"

text \<open>The arguments an application may pass: channels and labels that fit a command, ids of 64 bits.\<close>

definition op_ok :: "(buffer \<Rightarrow> int \<Rightarrow> int \<Rightarrow> buffer \<Rightarrow> int \<Rightarrow> int \<Rightarrow> bool) \<Rightarrow> conductor_op \<Rightarrow> bool" where
  "op_ok counter_args op \<longleftrightarrow>
     (case op of
        Op_AddPublication now ch st \<Rightarrow> channel_ok ch \<and> in_i32 st
      | Op_AddExclusivePublication now ch st \<Rightarrow> channel_ok ch \<and> in_i32 st
      | Op_AddSubscription now ch st \<Rightarrow> channel_ok ch \<and> in_i32 st
      | Op_AddSubscriptionWithHandlers now ch st h1 h2 \<Rightarrow> channel_ok ch \<and> in_i32 st
      | Op_AddCounter now ty kb ko kl lb lo ll \<Rightarrow> counter_args kb ko kl lb lo ll \<and> in_i32 ty
      | Op_AddCounterByLabel now ty label \<Rightarrow> channel_ok label \<and> in_i32 ty
      | Op_AddDestination rid ch \<Rightarrow> in_i64 rid \<and> channel_ok ch
      | Op_RemoveDestination rid ch \<Rightarrow> in_i64 rid \<and> channel_ok ch
      | Op_AddRcvDestination rid ch \<Rightarrow> in_i64 rid \<and> channel_ok ch
      | Op_RemoveRcvDestination rid ch \<Rightarrow> in_i64 rid \<and> channel_ok ch
      | _ \<Rightarrow> True)"

text \<open>The commands one operation sends at most: closing sends one for each object, and one for the client.\<close>

definition budget :: "ClientConductor \<Rightarrow> nat" where
  "budget cc = length (cc_pubs cc) + length (cc_subs cc) + length (live_counters cc) + 1"

inductive conductor_run :: "DriverProxy \<Rightarrow> log_files \<Rightarrow> (int \<Rightarrow> string option) \<Rightarrow> (nat \<Rightarrow> mem \<Rightarrow> bool) \<Rightarrow> (mem \<Rightarrow> int) \<Rightarrow>
    (buffer \<Rightarrow> int \<Rightarrow> int \<Rightarrow> buffer \<Rightarrow> int \<Rightarrow> int \<Rightarrow> bool) \<Rightarrow> ClientConductor \<times> mem \<Rightarrow> ClientConductor \<times> mem \<Rightarrow> bool"
  for dp files close ready next_id counter_args where
  start: "conductor_run dp files close ready next_id counter_args s s"
| operation: "conductor_run dp files close ready next_id counter_args s (cc, m) \<Longrightarrow> op_ok counter_args op \<Longrightarrow> ready (budget cc) m \<Longrightarrow>
    apply_op dp files close op cc m = Inr s' \<Longrightarrow> conductor_run dp files close ready next_id counter_args s s'"
| environment: "conductor_run dp files close ready next_id counter_args s (cc, m) \<Longrightarrow> next_id m \<le> next_id m' \<Longrightarrow>
    conductor_run dp files close ready next_id counter_args s (cc, m')"

end
