(* ===== verification/Conductor_Invariant.thy ===== *)
theory Conductor_Invariant
  imports Conductor_Steps
begin

text \<open>Every operation keeps the invariant of the conductor, for any driver proxy that keeps its contract.\<close>

subsection \<open>Loops over the registrations\<close>

lemma for_each_ok:
  assumes "for_each body ds s = Inr (ds', s')" and "I s" and "\<And>q. q \<in> set ds \<Longrightarrow> \<exists>d. q = Some d \<and> P s d"
    and step: "\<And>d s d' s'. I s \<Longrightarrow> P s d \<Longrightarrow> Some d \<in> set ds \<Longrightarrow> body d s = Inr (d', s') \<Longrightarrow>
      I s' \<and> P s' d' \<and> f d' = f d \<and> (\<forall>e. P s e \<longrightarrow> P s' e)"
  shows "I s' \<and> (\<forall>q\<in>set ds'. \<exists>d. q = Some d \<and> P s' d) \<and> map (f \<circ> the) ds' = map (f \<circ> the) ds \<and> (\<forall>e. P s e \<longrightarrow> P s' e)"
  using assms
proof (induction body ds s arbitrary: ds' s' rule: for_each.induct)
  case (3 body d ds s)
  obtain d1 s1 ds2 s2 where b: "body d s = Inr (d1, s1)" "for_each body ds s1 = Inr (ds2, s2)" "ds' = Some d1 # ds2" "s' = s2"
    using "3.prems"(1) by (auto simp: bindR_eq_Inr)
  have "P s d" using "3.prems"(3) [of "Some d"] by simp
  then have s1: "I s1 \<and> P s1 d1 \<and> f d1 = f d \<and> (\<forall>e. P s e \<longrightarrow> P s1 e)"
    by (rule "3.prems"(4) [OF "3.prems"(2) _ _ b(1)]) simp
  have ih: "I s2 \<and> (\<forall>q\<in>set ds2. \<exists>d. q = Some d \<and> P s2 d) \<and> map (f \<circ> the) ds2 = map (f \<circ> the) ds \<and> (\<forall>e. P s1 e \<longrightarrow> P s2 e)"
    using b(2) conjunct1 [OF s1]
  proof (rule "3.IH")
    show "\<exists>d. q = Some d \<and> P s1 d" if "q \<in> set ds" for q using "3.prems"(3) [of q] s1 that by auto
  qed (rule "3.prems"(4), assumption, assumption, simp, assumption)
  then have "P s2 d1" using s1 by blast
  then show ?case using ih s1 by (simp add: b(3,4) comp_def)
next
  case (1 body s)
  show ?case using "1.prems"(1,2) by simp
next
  case (2 body ds s)
  show ?case using "2.prems"(1) by (simp add: nil_panic_def)
qed

lemma ids_ok_mono: "ids_ok n ids \<Longrightarrow> n \<le> n' \<Longrightarrow> ids_ok n' ids"
  by (auto simp: ids_ok_def)

lemma conductor_inv_mono: "conductor_inv n reader cc \<Longrightarrow> n \<le> n' \<Longrightarrow> conductor_inv n' reader cc"
  unfolding conductor_inv_def by (elim conjE, intro conjI, rule ids_ok_mono) assumption+

lemma each_pub_inv:
  assumes inv: "conductor_inv n reader cc" and run: "each_pub body cc = Inr cc'"
    and step: "\<And>pd c pd' s'. Some pd \<in> set (cc_pubs cc) \<Longrightarrow> pub_state_ok (cc_publications cc) (Some pd) \<Longrightarrow>
      body pd (cc\<lparr>cc_calls := c\<rparr>) = Inr (pd', s') \<Longrightarrow>
      (\<exists>c'. s' = cc\<lparr>cc_calls := c'\<rparr>) \<and> pub_state_ok (cc_publications cc) (Some pd') \<and> pd_regID pd' = pd_regID pd"
  shows "conductor_inv n reader cc'"
proof -
  obtain pubs s where r: "for_each body (cc_pubs cc) cc = Inr (pubs, s)" "cc' = s\<lparr>cc_pubs := pubs\<rparr>"
    using run by (auto simp: each_pub_def bindR_eq_Inr)
  have "(\<exists>c. s = cc\<lparr>cc_calls := c\<rparr>) \<and> (\<forall>q\<in>set pubs. \<exists>d. q = Some d \<and> pub_state_ok (cc_publications cc) (Some d)) \<and>
      map (pd_regID \<circ> the) pubs = map (pd_regID \<circ> the) (cc_pubs cc) \<and>
      (\<forall>e. pub_state_ok (cc_publications cc) (Some e) \<longrightarrow> pub_state_ok (cc_publications cc) (Some e))"
    using r(1)
  proof (rule for_each_ok [where I = "\<lambda>s. \<exists>c. s = cc\<lparr>cc_calls := c\<rparr>" and P = "\<lambda>s d. pub_state_ok (cc_publications cc) (Some d)" and f = pd_regID])
    show "\<exists>c. cc = cc\<lparr>cc_calls := c\<rparr>" by (rule exI [of _ "cc_calls cc"]) simp
    show "\<exists>d. q = Some d \<and> pub_state_ok (cc_publications cc) (Some d)" if "q \<in> set (cc_pubs cc)" for q
      using inv that by (cases q) (auto simp: conductor_inv_def pub_state_ok_def)
    show "(\<exists>c. s' = cc\<lparr>cc_calls := c\<rparr>) \<and> pub_state_ok (cc_publications cc) (Some d') \<and> pd_regID d' = pd_regID d \<and>
        (\<forall>e. pub_state_ok (cc_publications cc) (Some e) \<longrightarrow> pub_state_ok (cc_publications cc) (Some e))"
      if ex: "\<exists>c. s = cc\<lparr>cc_calls := c\<rparr>" and d: "pub_state_ok (cc_publications cc) (Some d)" "Some d \<in> set (cc_pubs cc)"
        and b: "body d s = Inr (d', s')" for d s d' s'
    proof -
      obtain c where "s = cc\<lparr>cc_calls := c\<rparr>" using ex by (elim exE)
      then show ?thesis using step [OF d(2,1), of c d' s'] b by simp
    qed
  qed
  then obtain c where s: "s = cc\<lparr>cc_calls := c\<rparr>" and ids: "map (pd_regID \<circ> the) pubs = map (pd_regID \<circ> the) (cc_pubs cc)"
    and ex: "\<forall>q\<in>set pubs. \<exists>d. q = Some d \<and> pub_state_ok (cc_publications cc) (Some d)" by (elim conjE exE)
  have ok: "\<forall>q\<in>set pubs. pub_state_ok (cc_publications cc) q" using ex by auto
  show ?thesis using inv ok ids unfolding r(2) s by (simp add: conductor_inv_def registration_ids_def live_counters_def)
qed

text \<open>The bodies over the subscriptions may also change the subscription objects and the lingering resources.\<close>

definition sub_change :: "ClientConductor \<Rightarrow> ClientConductor \<Rightarrow> bool" where
  "sub_change s s' \<longleftrightarrow>
     (\<exists>c st l. s' = s\<lparr>cc_calls := c, cc_subscriptions := st, lingeringResources := l\<rparr> \<and> dom (cc_subscriptions s) \<subseteq> dom st \<and>
        (objects_ok sub_registrationID (cc_subscriptions s) \<longrightarrow> objects_ok sub_registrationID st) \<and>
        (length (lingeringResources s) \<le> 1024 \<longrightarrow> length l \<le> 1024))"

lemma sub_changeI:
  "s' = s\<lparr>cc_calls := c, cc_subscriptions := st, lingeringResources := l\<rparr> \<Longrightarrow> dom (cc_subscriptions s) \<subseteq> dom st \<Longrightarrow>
   (objects_ok sub_registrationID (cc_subscriptions s) \<Longrightarrow> objects_ok sub_registrationID st) \<Longrightarrow>
   (length (lingeringResources s) \<le> 1024 \<Longrightarrow> length l \<le> 1024) \<Longrightarrow> sub_change s s'"
  unfolding sub_change_def by (intro exI conjI impI)

lemma sub_change_refl: "sub_change s s"
  by (rule sub_changeI [where c = "cc_calls s" and st = "cc_subscriptions s" and l = "lingeringResources s"]) simp_all

lemma sub_change_trans:
  assumes "sub_change s t" and "sub_change t u"
  shows "sub_change s u"
proof -
  obtain c st l where t: "t = s\<lparr>cc_calls := c, cc_subscriptions := st, lingeringResources := l\<rparr>" "dom (cc_subscriptions s) \<subseteq> dom st"
    "objects_ok sub_registrationID (cc_subscriptions s) \<longrightarrow> objects_ok sub_registrationID st"
    "length (lingeringResources s) \<le> 1024 \<longrightarrow> length l \<le> 1024" using assms(1) unfolding sub_change_def by (elim exE conjE)
  obtain c' st' l' where u: "u = t\<lparr>cc_calls := c', cc_subscriptions := st', lingeringResources := l'\<rparr>" "dom (cc_subscriptions t) \<subseteq> dom st'"
    "objects_ok sub_registrationID (cc_subscriptions t) \<longrightarrow> objects_ok sub_registrationID st'"
    "length (lingeringResources t) \<le> 1024 \<longrightarrow> length l' \<le> 1024" using assms(2) unfolding sub_change_def by (elim exE conjE)
  show ?thesis
    using t(2-4) u(2-4) by (intro sub_changeI [where c = c' and st = st' and l = l']) (auto simp: u(1) t(1))
qed

lemma sub_change_dom: "sub_change s s' \<Longrightarrow> dom (cc_subscriptions s) \<subseteq> dom (cc_subscriptions s')"
  unfolding sub_change_def by (elim exE conjE) simp

lemma sub_state_ok_mono: "sub_state_ok st q \<Longrightarrow> dom st \<subseteq> dom st' \<Longrightarrow> sub_state_ok st' q"
  by (auto simp: sub_state_ok_def split: option.splits)

lemma sub_change_state: "sub_state_ok (cc_subscriptions s) q \<Longrightarrow> sub_change s s' \<Longrightarrow> sub_state_ok (cc_subscriptions s') q"
  using sub_state_ok_mono sub_change_dom by blast

lemma conductor_inv_sub_change:
  assumes inv: "conductor_inv n reader cc" and s: "sub_change cc s" and ok: "\<forall>q\<in>set subs. sub_state_ok (cc_subscriptions s) q"
    and ids: "map (sd_regID \<circ> the) subs = map (sd_regID \<circ> the) (cc_subs cc)"
  shows "conductor_inv n reader (s\<lparr>cc_subs := subs\<rparr>)"
proof -
  obtain c st l where t: "s = cc\<lparr>cc_calls := c, cc_subscriptions := st, lingeringResources := l\<rparr>"
    "objects_ok sub_registrationID (cc_subscriptions cc) \<longrightarrow> objects_ok sub_registrationID st"
    "length (lingeringResources cc) \<le> 1024 \<longrightarrow> length l \<le> 1024" using s unfolding sub_change_def by (elim exE conjE)
  show ?thesis using inv ok ids t(2,3) unfolding t(1) by (simp add: conductor_inv_def registration_ids_def live_counters_def)
qed

lemma each_sub_inv:
  assumes inv: "conductor_inv n reader cc" and run: "each_sub body cc = Inr cc'"
    and step: "\<And>sd s sd' s'. Some sd \<in> set (cc_subs cc) \<Longrightarrow> sub_state_ok (cc_subscriptions s) (Some sd) \<Longrightarrow>
      body sd s = Inr (sd', s') \<Longrightarrow>
      sub_change s s' \<and> sub_state_ok (cc_subscriptions s') (Some sd') \<and> sd_regID sd' = sd_regID sd"
  shows "conductor_inv n reader cc'"
proof -
  obtain subs s where r: "for_each body (cc_subs cc) cc = Inr (subs, s)" "cc' = s\<lparr>cc_subs := subs\<rparr>"
    using run by (auto simp: each_sub_def bindR_eq_Inr)
  have "sub_change cc s \<and> (\<forall>q\<in>set subs. \<exists>d. q = Some d \<and> sub_state_ok (cc_subscriptions s) (Some d)) \<and>
      map (sd_regID \<circ> the) subs = map (sd_regID \<circ> the) (cc_subs cc) \<and>
      (\<forall>e. sub_state_ok (cc_subscriptions cc) (Some e) \<longrightarrow> sub_state_ok (cc_subscriptions s) (Some e))"
    using r(1) sub_change_refl
  proof (rule for_each_ok [where I = "sub_change cc" and P = "\<lambda>s d. sub_state_ok (cc_subscriptions s) (Some d)" and f = sd_regID])
    show "\<exists>d. q = Some d \<and> sub_state_ok (cc_subscriptions cc) (Some d)" if "q \<in> set (cc_subs cc)" for q
      using inv that by (cases q) (auto simp: conductor_inv_def sub_state_ok_def)
    show "sub_change cc s' \<and> sub_state_ok (cc_subscriptions s') (Some d') \<and> sd_regID d' = sd_regID d \<and>
        (\<forall>e. sub_state_ok (cc_subscriptions s) (Some e) \<longrightarrow> sub_state_ok (cc_subscriptions s') (Some e))"
      if "sub_change cc s" "sub_state_ok (cc_subscriptions s) (Some d)" "Some d \<in> set (cc_subs cc)" "body d s = Inr (d', s')"
      for d s d' s'
      using step [OF that(3,2,4)] sub_change_trans [OF that(1)] sub_change_state by blast
  qed
  then show ?thesis unfolding r(2) by (intro conductor_inv_sub_change [OF inv]) auto
qed

subsection \<open>Events\<close>

lemma linger_eq: "linger now r cc = Inr cc' \<Longrightarrow>
    cc' = cc\<lparr>lingeringResources := lingeringResources cc @ [(now, r)]\<rparr> \<and> length (lingeringResources cc) < 1024"
  by (simp add: linger_def split: if_splits)

lemma onError_eq: "onError e cc = Inr cc' \<Longrightarrow> cc' = cc\<lparr>cc_calls := cc_calls cc @ [ErrorCall e]\<rparr>"
  by (simp add: onError_def split: if_splits)

lemma call_eq: "call h c cc = cc\<lparr>cc_calls := cc_calls (call h c cc)\<rparr>"
  by (cases h) (simp_all add: call_def)

lemma inv_calls [simp]: "conductor_inv n reader (cc\<lparr>cc_calls := c\<rparr>) = conductor_inv n reader cc"
  by (simp add: conductor_inv_def registration_ids_def live_counters_def)

lemma LogBuffers_Wrap_refCount: "LogBuffers_Wrap len mp = Inr b \<Longrightarrow> refCount b = 0"
  by (auto simp: LogBuffers_Wrap_def Let_def bindR_eq_Inr split: if_splits option.splits)

lemma registered_publication_ok:
  assumes "registered_publication files se po ch lf rid pd = Inr pd'" and "pub_state_ok objects (Some pd)"
  shows "pub_state_ok objects (Some pd')" and "pd_regID pd' = pd_regID pd"
proof -
  obtain b where b: "map_log files lf = Inr b" "pd_regID pd' = pd_regID pd" "pd_buffers pd' = Some (snd (IncRef b))"
    "pd_publication pd' = pd_publication pd"
    using assms(1) by (auto simp: registered_publication_def bindR_eq_Inr)
  have "refCount b = 0" using b(1) LogBuffers_Wrap_refCount by (auto simp: map_log_def split: prod.splits)
  then show "pub_state_ok objects (Some pd')" "pd_regID pd' = pd_regID pd"
    using assms(2) b by (auto simp: pub_state_ok_def IncRef_def wrap64_id)
qed

lemma new_publication_step:
  assumes "(if pd_regID pub = regID then
         bindR (registered_publication files se po ch lf rid pub) (\<lambda>pub.
         Inr (pub, call (onNewPublicationHandler s) (g pub) s))
       else Inr (pub, s)) = Inr (pub', s')" and "s = cc\<lparr>cc_calls := c\<rparr>" and "pub_state_ok objects (Some pub)"
  shows "(\<exists>c'. s' = cc\<lparr>cc_calls := c'\<rparr>) \<and> pub_state_ok objects (Some pub') \<and> pd_regID pub' = pd_regID pub"
proof (cases "pd_regID pub = regID")
  case True
  then have "registered_publication files se po ch lf rid pub = Inr pub'" "s' = call (onNewPublicationHandler s) (g pub') s"
    using assms(1) by (auto simp: bindR_eq_Inr)
  moreover from this(2) have "\<exists>c'. s' = cc\<lparr>cc_calls := c'\<rparr>" using call_eq [of _ _ s] assms(2) by auto
  ultimately show ?thesis using registered_publication_ok assms(3) by blast
next
  case False
  then show ?thesis using assms by auto
qed

lemma OnNewPublication_inv:
  assumes "conductor_inv n reader cc" and "CC_OnNewPublication files st se po ch lf cid rid cc = Inr cc'"
  shows "conductor_inv n reader cc'"
  using assms(1) assms(2) [unfolded CC_OnNewPublication_def]
  by (rule each_pub_inv) (rule new_publication_step [OF _ refl])

lemma OnNewExclusivePublication_inv:
  assumes "conductor_inv n reader cc" and "CC_OnNewExclusivePublication files st se po ch lf cid rid cc = Inr cc'"
  shows "conductor_inv n reader cc'"
  using assms(1) assms(2) [unfolded CC_OnNewExclusivePublication_def]
  by (rule each_pub_inv) (rule new_publication_step [OF _ refl])

lemma inv_ids: "conductor_inv n reader cc \<Longrightarrow> i \<in> set (registration_ids cc) \<Longrightarrow> in_i64 i \<and> i < n"
  unfolding conductor_inv_def ids_ok_def by (elim conjE) (erule bspec)

lemma pub_in_ids: "Some pd \<in> set (cc_pubs cc) \<Longrightarrow> pd_regID pd \<in> set (registration_ids cc)"
  unfolding registration_ids_def by force

lemma sub_in_ids: "Some sd \<in> set (cc_subs cc) \<Longrightarrow> sd_regID sd \<in> set (registration_ids cc)"
  unfolding registration_ids_def by force

lemma objects_ok_update: "objects_ok f st \<Longrightarrow> f x = ref \<Longrightarrow> in_i64 ref \<Longrightarrow> objects_ok f (st(ref \<mapsto> x))"
  by (simp add: objects_ok_def)

lemma objects_okD: "objects_ok f st \<Longrightarrow> st ref = Some x \<Longrightarrow> f x = ref \<and> in_i64 ref"
  by (simp add: objects_ok_def)

lemma objects_ok_replace: "objects_ok f st \<Longrightarrow> st ref = Some x \<Longrightarrow> f x' = f x \<Longrightarrow> objects_ok f (st(ref \<mapsto> x'))"
  by (simp add: objects_ok_def)

lemma sub_change_store:
  assumes "objects_ok sub_registrationID (cc_subscriptions s) \<Longrightarrow> objects_ok sub_registrationID ((cc_subscriptions s)(ref \<mapsto> x))"
  shows "sub_change s (s\<lparr>cc_subscriptions := (cc_subscriptions s)(ref \<mapsto> x)\<rparr>)"
  using assms
  by (intro sub_changeI [where c = "cc_calls s" and st = "(cc_subscriptions s)(ref \<mapsto> x)" and l = "lingeringResources s"]) auto

lemma sub_change_calls: "sub_change s t \<Longrightarrow> sub_change s (t\<lparr>cc_calls := c\<rparr>)"
  by (erule sub_change_trans, rule sub_changeI [where c = c and st = "cc_subscriptions t" and l = "lingeringResources t"]) simp_all

lemma sub_change_call: "sub_change s t \<Longrightarrow> sub_change s (call h c t)"
  by (cases h) (simp_all add: call_def sub_change_calls)

lemma sub_change_linger:
  assumes "sub_change s s1" and "linger now r s1 = Inr s'"
  shows "sub_change s s'"
  using assms(1)
proof (rule sub_change_trans)
  show "sub_change s1 s'"
    using linger_eq [OF assms(2)]
    by (intro sub_changeI [where c = "cc_calls s1" and st = "cc_subscriptions s1" and l = "lingeringResources s1 @ [(now, r)]"]) auto
qed

lemma OnSubscriptionReady_inv:
  assumes inv: "conductor_inv n reader cc" and "CC_OnSubscriptionReady cid status cc = Inr cc'"
  shows "conductor_inv n reader cc'"
  using inv assms(2) [unfolded CC_OnSubscriptionReady_def]
proof (rule each_sub_inv)
  fix sd s sd' s'
  assume sd: "Some sd \<in> set (cc_subs cc)" "sub_state_ok (cc_subscriptions s) (Some sd)"
    and b: "(if sd_regID sd = cid then
       let subscription = NewSubscription (sd_channel sd) cid (sd_streamID sd) status (sd_availableImageHandler sd)
             (sd_unavailableImageHandler sd);
           cc = s\<lparr>cc_subscriptions := (cc_subscriptions s)(cid \<mapsto> subscription)\<rparr>
       in Inr (sd\<lparr>sd_status := RegisteredMediaDriver, sd_subscription := Some cid\<rparr>,
               call (onNewSubscriptionHandler cc) (\<lambda>_. NewSubscriptionCall (sd_channel sd) (sd_streamID sd) cid) cc)
     else Inr (sd, s)) = Inr (sd', s')"
  have cid: "in_i64 cid" if "sd_regID sd = cid" using inv_ids [OF inv sub_in_ids [OF sd(1)]] that by simp
  show "sub_change s s' \<and> sub_state_ok (cc_subscriptions s') (Some sd') \<and> sd_regID sd' = sd_regID sd"
  proof (cases "sd_regID sd = cid")
    case True
    have "sub_change s s'"
      using b True cid by (auto simp: Let_def NewSubscription_def intro!: sub_change_call sub_change_store objects_ok_update)
    moreover have "cc_subscriptions s' cid \<noteq> None" using b True by (auto simp: Let_def call_def split: option.splits)
    ultimately show ?thesis using b True by (auto simp: Let_def sub_state_ok_def)
  next
    case False
    then show ?thesis using b sd(2) sub_change_refl by auto
  qed
qed

lemma subscription_objectD: "subscription_object sd s = Some (ref, sub) \<Longrightarrow> cc_subscriptions s ref = Some sub"
  by (auto simp: subscription_object_def bind_eq_Some_conv)

lemma OnAvailableImage_inv:
  assumes "conductor_inv n reader cc" and "CC_OnAvailableImage files m st se lf src po sub cid cc = Inr cc'"
  shows "conductor_inv n reader cc'"
  using assms(1) assms(2) [unfolded CC_OnAvailableImage_def]
proof (rule each_sub_inv)
  fix sd s sd' s'
  assume sd: "sub_state_ok (cc_subscriptions s) (Some sd)"
    and b: "(case subscription_object sd s of None \<Rightarrow> Inr (sd, s)
      | Some (ref, sbs) \<Rightarrow>
          if sd_regID sd = sub then
            bindR (DefaultImageFactory files m se cid lf (sd_regID sd) src (counterValuesBuffer s) po) (\<lambda>im.
            let sbs = snd (addImage sbs im); cc = s\<lparr>cc_subscriptions := (cc_subscriptions s)(ref \<mapsto> sbs)\<rparr>
            in Inr (sd, call (sub_availableImageHandler sbs) (\<lambda>h. AvailableImageCall h im) cc))
          else Inr (sd, s)) = Inr (sd', s')"
  have "sub_change s s' \<and> sd' = sd"
  proof (cases "subscription_object sd s")
    case (Some a)
    obtain ref sbs where a: "a = (ref, sbs)" by (cases a)
    have "sub_change s (s\<lparr>cc_subscriptions := (cc_subscriptions s)(ref \<mapsto> snd (addImage sbs im))\<rparr>)" for im
      using subscription_objectD [OF Some [unfolded a]]
      by (intro sub_change_store objects_ok_replace) (auto simp: addImage_def)
    then show ?thesis using b Some a sub_change_refl sub_change_call
      by (auto simp: bindR_eq_Inr Let_def split: if_splits)
  qed (use b sub_change_refl in auto)
  then show "sub_change s s' \<and> sub_state_ok (cc_subscriptions s') (Some sd') \<and> sd_regID sd' = sd_regID sd"
    using sub_change_state [OF sd] by blast
qed

lemma removeImage_registration: "removeImage sub cid = (im, sub') \<Longrightarrow> sub_registrationID sub' = sub_registrationID sub"
  by (auto simp: removeImage_def Let_def split: option.splits)

lemma OnUnavailableImage_inv:
  assumes "conductor_inv n reader cc" and "CC_OnUnavailableImage now cid rid cc = Inr cc'"
  shows "conductor_inv n reader cc'"
  using assms(1) assms(2) [unfolded CC_OnUnavailableImage_def]
proof (rule each_sub_inv)
  fix sd s sd' s'
  assume sd: "sub_state_ok (cc_subscriptions s) (Some sd)"
    and b: "(if sd_regID sd = rid then
         (case subscription_object sd s of None \<Rightarrow> Inr (sd, s)
          | Some (ref, sbs) \<Rightarrow>
              (case removeImage sbs cid of (im, sbs) \<Rightarrow>
                 let cc = s\<lparr>cc_subscriptions := (cc_subscriptions s)(ref \<mapsto> sbs)\<rparr>;
                     cc = call (sub_unavailableImageHandler sbs) (\<lambda>h. UnavailableImageCall h im) cc
                 in bindR (linger now (LingerImage im) cc) (\<lambda>cc. Inr (sd, cc))))
       else Inr (sd, s)) = Inr (sd', s')"
  have "sub_change s s' \<and> sd' = sd"
  proof (cases "subscription_object sd s")
    case (Some a)
    obtain ref sbs where a: "a = (ref, sbs)" by (cases a)
    obtain im sbs' where r: "removeImage sbs cid = (im, sbs')" by (cases "removeImage sbs cid")
    have "sub_change s (s\<lparr>cc_subscriptions := (cc_subscriptions s)(ref \<mapsto> sbs')\<rparr>)"
      using subscription_objectD [OF Some [unfolded a]] removeImage_registration [OF r]
      by (intro sub_change_store objects_ok_replace) auto
    then show ?thesis using b Some a r sub_change_refl sub_change_linger [OF sub_change_call]
      by (auto simp: bindR_eq_Inr Let_def split: if_splits)
  qed (use b sub_change_refl in \<open>auto split: if_splits\<close>)
  then show "sub_change s s' \<and> sub_state_ok (cc_subscriptions s') (Some sd') \<and> sd_regID sd' = sd_regID sd"
    using sub_change_state [OF sd] by blast
qed

lemma OnChannelEndpointError_inv:
  assumes "conductor_inv n reader cc" and "CC_OnChannelEndpointError cid reason cc = Inr cc'"
  shows "conductor_inv n reader cc'"
proof -
  obtain cc1 where r: "each_pub (\<lambda>pd s. bindR (case Option.bind (pd_publication pd) (cc_publications s) of
                 None \<Rightarrow> Inr s
               | Some pub \<Rightarrow> if pub_channelStatusIndicatorID pub = wrap32 cid then onError (DriverMessage reason) s else Inr s)
          (\<lambda>s. Inr (pd, s))) cc = Inr cc1"
      "each_sub (\<lambda>sd s. bindR (case subscription_object sd s of None \<Rightarrow> Inr s
               | Some (_, sub) \<Rightarrow> if sub_channelStatusID sub = wrap32 cid then onError (DriverMessage reason) s else Inr s)
          (\<lambda>s. Inr (sd, s))) cc1 = Inr cc'"
    using assms(2) by (auto simp: CC_OnChannelEndpointError_def Let_def bindR_eq_Inr)
  have "conductor_inv n reader cc1"
    by (rule each_pub_inv [OF assms(1) r(1)])
       (auto simp: bindR_eq_Inr split: option.splits if_splits dest!: onError_eq)
  then show ?thesis
    by (rule each_sub_inv [OF _ r(2)])
       (auto simp: bindR_eq_Inr sub_change_refl split: option.splits if_splits dest!: onError_eq
        intro: sub_change_calls [OF sub_change_refl])
qed

text \<open>Replacing the state of a counter keeps the keys of the map.\<close>

lemma counter_update_inv:
  assumes inv: "conductor_inv n reader cc" and kd: "Option.bind (cc_counters cc) (\<lambda>ks. map_of ks rid) = Some kd"
    and ok: "counter_state_ok (cc_counterObjects cc) (rid, kd')"
  shows "conductor_inv n reader (cc\<lparr>cc_counters := map_option (AList.update rid kd') (cc_counters cc)\<rparr>)"
proof -
  obtain ks where ks: "cc_counters cc = Some ks" "map_of ks rid = Some kd" using kd by (auto simp: bind_eq_Some_conv)
  have "rid \<in> fst ` set ks" using map_of_SomeD [OF ks(2)] by force
  then have "map fst (AList.update rid kd' ks) = map fst ks" by (simp add: AList.update_keys)
  moreover have "set (AList.update rid kd' ks) \<subseteq> insert (rid, kd') (set ks)"
  proof (induction ks)
    case (Cons e ks)
    then show ?case by (cases e) auto
  qed simp
  then have "\<forall>e\<in>set (AList.update rid kd' ks). counter_state_ok (cc_counterObjects cc) e"
    using inv ok by (auto simp: conductor_inv_def live_counters_def ks(1))
  ultimately show ?thesis using inv by (simp add: conductor_inv_def registration_ids_def live_counters_def ks(1))
qed

lemma counter_found_ok:
  assumes "conductor_inv n reader cc" and "Option.bind (cc_counters cc) (\<lambda>ks. map_of ks rid) = Some kd"
  shows "counter_state_ok (cc_counterObjects cc) (rid, kd)"
  using assms by (auto simp: conductor_inv_def live_counters_def bind_eq_Some_conv dest!: map_of_SomeD)

lemma OnAvailableCounter_inv:
  assumes inv: "conductor_inv n reader cc"
  shows "conductor_inv n reader (CC_OnAvailableCounter rid cid cc)"
proof (cases "Option.bind (cc_counters cc) (\<lambda>ks. map_of ks rid)")
  case (Some kd)
  have "counter_state_ok (cc_counterObjects cc) (rid, kd\<lparr>kd_counterId := cid, kd_status := RegisteredMediaDriver\<rparr>)"
    using counter_found_ok [OF inv Some] by (simp add: counter_state_ok_def)
  from counter_update_inv [OF inv Some this] show ?thesis
    using inv Some by (simp add: CC_OnAvailableCounter_def Let_def)
qed (use inv in \<open>simp add: CC_OnAvailableCounter_def Let_def\<close>)

lemma errored_publication_ok:
  assumes "errored_publication cid code reason ps = Inr (Some ps')" and "\<forall>p\<in>set ps. pub_state_ok objects p"
  shows "(\<forall>p\<in>set ps'. pub_state_ok objects p) \<and> map (pd_regID \<circ> the) ps' = map (pd_regID \<circ> the) ps"
  using assms
proof (induction cid code reason ps arbitrary: ps' rule: errored_publication.induct)
  case (3 cid code reason pd ps)
  show ?case
  proof (cases "pd_regID pd = cid")
    case True
    then show ?thesis using 3(2,3) by (auto simp: pub_state_ok_def)
  next
    case False
    then obtain qs where "errored_publication cid code reason ps = Inr (Some qs)" "ps' = Some pd # qs"
      using 3(2) by (auto simp: bindR_eq_Inr)
    then show ?thesis using 3(1) [OF False, of qs] 3(3) by simp
  qed
qed (simp_all add: nil_panic_def)

lemma OnErrorResponse_inv:
  assumes inv: "conductor_inv n reader cc" and r: "CC_OnErrorResponse cid code reason cc = Inr cc'"
  shows "conductor_inv n reader cc'"
proof (cases "Option.bind (cc_counters cc) (\<lambda>ks. map_of ks cid)")
  case (Some kd)
  have "counter_state_ok (cc_counterObjects cc) (cid, kd\<lparr>kd_status := ErroredMediaDriver, kd_errorCode := code, kd_errorMessage := reason\<rparr>)"
    using counter_found_ok [OF inv Some] by (simp add: counter_state_ok_def)
  from counter_update_inv [OF inv Some this] show ?thesis using r Some by (simp add: CC_OnErrorResponse_def)
next
  case None
  then obtain ps where ps: "errored_publication cid code reason (cc_pubs cc) = Inr ps"
    using r by (auto simp: CC_OnErrorResponse_def bindR_eq_Inr)
  show ?thesis
  proof (cases ps)
    case (Some qs)
    have "cc' = cc\<lparr>cc_pubs := qs\<rparr>" using r None ps Some by (simp add: CC_OnErrorResponse_def)
    moreover have "(\<forall>p\<in>set qs. pub_state_ok (cc_publications cc) p) \<and> map (pd_regID \<circ> the) qs = map (pd_regID \<circ> the) (cc_pubs cc)"
      using ps Some inv by (intro errored_publication_ok [of cid code reason]) (auto simp: conductor_inv_def)
    ultimately show ?thesis using inv by (simp add: conductor_inv_def registration_ids_def live_counters_def)
  next
    case N: None
    have "each_sub (\<lambda>sd cc. Inr (if sd_regID sd = cid then sd\<lparr>sd_status := ErroredMediaDriver, sd_errorCode := code,
        sd_errorMessage := reason\<rparr> else sd, cc)) cc = Inr cc'" using r None ps N by (simp add: CC_OnErrorResponse_def)
    then show ?thesis by (rule each_sub_inv [OF inv]) (auto simp: sub_change_refl sub_state_ok_def split: if_splits)
  qed
qed

lemma inv_running [simp]: "conductor_inv n reader (cc\<lparr>cc_running := b\<rparr>) = conductor_inv n reader cc"
  by (simp add: conductor_inv_def registration_ids_def live_counters_def)

lemma OnClientTimeout_inv:
  assumes inv: "conductor_inv n reader cc" and r: "CC_OnClientTimeout dp client cc = Inr cc'"
  shows "conductor_inv n reader cc'"
proof (cases "client = dp_ClientID dp")
  case True
  then obtain s where s: "onError (ClientTimeout client) cc = Inr s" "cc' = s\<lparr>cc_running := False\<rparr>"
    using r by (auto simp: CC_OnClientTimeout_def bindR_eq_Inr)
  show ?thesis unfolding s(2) onError_eq [OF s(1)] using inv by simp
qed (use inv r in \<open>simp add: CC_OnClientTimeout_def\<close>)

lemma bindR_pair: "bindR r (\<lambda>x. Inr (x, m)) = Inr (y, m') \<Longrightarrow> r = Inr y \<and> m' = m"
  by (auto simp: bindR_eq_Inr)

lemma conductor_listener_inv:
  assumes inv: "conductor_inv n reader cc" and r: "conductor_listener dp files now c m cc = Inr (cc', m')"
  shows "conductor_inv n reader cc' \<and> m' = m"
proof (cases c)
  case (OnClientTimeout client)
  note e = bindR_pair [OF r [unfolded OnClientTimeout conductor_listener.simps]]
  show ?thesis using OnClientTimeout_inv [OF inv conjunct1 [OF e]] conjunct2 [OF e] by (rule conjI)
next
  case (OnUnavailableCounter rid cid)
  then show ?thesis using inv r by (auto simp: CC_OnUnavailableCounter_def)
next
  case (OnNewPublication x1 x2 x3 x4 x5 x6 x7)
  note e = bindR_pair [OF r [unfolded OnNewPublication conductor_listener.simps]]
  show ?thesis using OnNewPublication_inv [OF inv conjunct1 [OF e]] conjunct2 [OF e] by (rule conjI)
next
  case (OnNewExclusivePublication x1 x2 x3 x4 x5 x6 x7)
  note e = bindR_pair [OF r [unfolded OnNewExclusivePublication conductor_listener.simps]]
  show ?thesis using OnNewExclusivePublication_inv [OF inv conjunct1 [OF e]] conjunct2 [OF e] by (rule conjI)
next
  case (OnAvailableImage x1 x2 x3 x4 x5 x6 x7)
  note e = bindR_pair [OF r [unfolded OnAvailableImage conductor_listener.simps]]
  show ?thesis using OnAvailableImage_inv [OF inv conjunct1 [OF e]] conjunct2 [OF e] by (rule conjI)
next
  case (OnUnavailableImage x1 x2)
  note e = bindR_pair [OF r [unfolded OnUnavailableImage conductor_listener.simps]]
  show ?thesis using OnUnavailableImage_inv [OF inv conjunct1 [OF e]] conjunct2 [OF e] by (rule conjI)
next
  case (OnErrorResponse x1 x2 x3)
  note e = bindR_pair [OF r [unfolded OnErrorResponse conductor_listener.simps]]
  show ?thesis using OnErrorResponse_inv [OF inv conjunct1 [OF e]] conjunct2 [OF e] by (rule conjI)
next
  case (OnChannelEndpointError x1 x2)
  note e = bindR_pair [OF r [unfolded OnChannelEndpointError conductor_listener.simps]]
  show ?thesis using OnChannelEndpointError_inv [OF inv conjunct1 [OF e]] conjunct2 [OF e] by (rule conjI)
next
  case (OnSubscriptionReady x1 x2)
  note e = bindR_pair [OF r [unfolded OnSubscriptionReady conductor_listener.simps]]
  show ?thesis using OnSubscriptionReady_inv [OF inv conjunct1 [OF e]] conjunct2 [OF e] by (rule conjI)
next
  case (OnOperationSuccess cid)
  then show ?thesis using inv r by (simp add: CC_OnOperationSuccess_def)
next
  case (OnAvailableCounter rid cid)
  then show ?thesis using r OnAvailableCounter_inv [OF inv] by auto
qed

end
