(* ===== verification/Conductor_Release.thy ===== *)
theory Conductor_Release
  imports Conductor_Invariant
begin

text \<open>
  Adding, finding and releasing registrations under the invariant of the conductor: what each
  operation does to the tables, and that it keeps the invariant.
\<close>

subsection \<open>Identifiers\<close>

lemma ids_ok_insert:
  assumes "ids_ok n (xs @ ys)" and "in_i64 n"
  shows "ids_ok (n + 1) (xs @ n # ys)"
proof -
  have r: "in_i64 i \<and> i < n" if "i \<in> set (xs @ ys)" for i using assms(1) that unfolding ids_ok_def by blast
  have "in_i64 i \<and> i < n + 1" if "i \<in> set (xs @ n # ys)" for i using r [of i] assms(2) that by auto
  moreover have "n \<notin> set (xs @ ys)" using r by blast
  then have "distinct (xs @ n # ys)" using assms(1) by (simp add: ids_ok_def)
  ultimately show ?thesis unfolding ids_ok_def by blast
qed

lemma ids_ok_sub:
  assumes "ids_ok n ids" and "mset ids' \<subseteq># mset ids"
  shows "ids_ok n ids'"
proof -
  obtain C where C: "mset ids = mset ids' + C" using assms(2) by (auto simp: mset_subset_eq_exists_conv)
  obtain zs where zs: "mset zs = C" using ex_mset by blast
  then have "mset ids = mset (ids' @ zs)" using C by simp
  then have "distinct (ids' @ zs)" "set ids = set (ids' @ zs)"
    using assms(1) mset_eq_imp_distinct_iff mset_eq_setD unfolding ids_ok_def by blast+
  then show ?thesis using assms(1) by (simp add: ids_ok_def)
qed

subsection \<open>Adding\<close>

lemma inv_add_pub:
  assumes inv: "conductor_inv n reader cc" and n: "in_i64 n"
  shows "conductor_inv (n + 1) reader (cc\<lparr>cc_pubs := cc_pubs cc @ [Some (publicationStateDefn_Init ch n st now)]\<rparr>)"
proof -
  have "pub_state_ok objects (Some (publicationStateDefn_Init ch n st now))" for objects
    by (simp add: pub_state_ok_def publicationStateDefn_Init_def)
  moreover have "ids_ok (n + 1) (registration_ids (cc\<lparr>cc_pubs := cc_pubs cc @ [Some (publicationStateDefn_Init ch n st now)]\<rparr>))"
    using inv n by (simp add: conductor_inv_def registration_ids_def live_counters_def publicationStateDefn_Init_def ids_ok_insert)
  ultimately show ?thesis using inv by (simp add: conductor_inv_def live_counters_def)
qed

lemma inv_add_sub:
  assumes inv: "conductor_inv n reader cc" and n: "in_i64 n"
  shows "conductor_inv (n + 1) reader (cc\<lparr>cc_subs := cc_subs cc @ [Some (subscriptionStateDefn_Init ch n st now h1 h2)]\<rparr>)"
proof -
  let ?cc = "cc\<lparr>cc_subs := cc_subs cc @ [Some (subscriptionStateDefn_Init ch n st now h1 h2)]\<rparr>"
  have "sub_state_ok objects (Some (subscriptionStateDefn_Init ch n st now h1 h2))" for objects
    by (simp add: sub_state_ok_def subscriptionStateDefn_Init_def)
  moreover have "ids_ok (n + 1) (registration_ids ?cc)"
    using inv n ids_ok_insert [of n "map (pd_regID \<circ> the) (cc_pubs cc) @ map (sd_regID \<circ> the) (cc_subs cc)"]
    by (simp add: conductor_inv_def registration_ids_def live_counters_def subscriptionStateDefn_Init_def)
  ultimately show ?thesis using inv by (simp add: conductor_inv_def live_counters_def)
qed

lemma update_new_key: "k \<notin> fst ` set ks \<Longrightarrow> AList.update k v ks = ks @ [(k, v)]"
  by (induction ks) auto

lemma inv_add_counter:
  assumes inv: "conductor_inv n reader cc" and n: "in_i64 n" and r: "add_counter_state n now cc = Inr cc'"
  shows "conductor_inv (n + 1) reader cc'"
proof -
  obtain ks where ks: "cc_counters cc = Some ks" "cc' = cc\<lparr>cc_counters := Some (AList.update n (counterStateDefn_Init now) ks)\<rparr>"
    using r by (auto simp: add_counter_state_def split: option.splits)
  have "n \<notin> fst ` set ks" using inv by (auto simp: conductor_inv_def ids_ok_def registration_ids_def live_counters_def ks(1))
  then have cc': "cc' = cc\<lparr>cc_counters := Some (ks @ [(n, counterStateDefn_Init now)])\<rparr>" by (simp add: ks(2) update_new_key)
  have "counter_state_ok objects (n, counterStateDefn_Init now)" for objects by (simp add: counter_state_ok_def counterStateDefn_Init_def)
  moreover have "ids_ok (n + 1) (registration_ids cc')"
    using inv n ids_ok_insert [of n "map (pd_regID \<circ> the) (cc_pubs cc) @ map (sd_regID \<circ> the) (cc_subs cc) @ map fst ks"]
    by (simp add: conductor_inv_def registration_ids_def live_counters_def ks(1) cc')
  ultimately show ?thesis using inv by (simp add: conductor_inv_def live_counters_def ks(1) cc')
qed

lemma inv_add_handler:
  assumes inv: "conductor_inv n reader cc" and n: "in_i64 n"
  shows "conductor_inv (n + 1) reader (cc\<lparr>availableCounterHandlers := availableCounterHandlers cc @ [(n, h)]\<rparr>)"
    and "conductor_inv (n + 1) reader (cc\<lparr>unavailableCounterHandlers := unavailableCounterHandlers cc @ [(n, h)]\<rparr>)"
  using inv n ids_ok_insert [of n "map (pd_regID \<circ> the) (cc_pubs cc) @ map (sd_regID \<circ> the) (cc_subs cc) @
      map fst (live_counters cc) @ map fst (availableCounterHandlers cc)"]
    ids_ok_insert [of n "registration_ids cc" "[]"]
  by (simp_all add: conductor_inv_def registration_ids_def live_counters_def)

subsection \<open>Finding\<close>

lemma inv_pub: "conductor_inv n reader cc \<Longrightarrow> p \<in> set (cc_pubs cc) \<Longrightarrow> pub_state_ok (cc_publications cc) p"
  unfolding conductor_inv_def by blast

lemma inv_sub: "conductor_inv n reader cc \<Longrightarrow> q \<in> set (cc_subs cc) \<Longrightarrow> sub_state_ok (cc_subscriptions cc) q"
  unfolding conductor_inv_def by blast

lemma inv_objects:
  assumes "conductor_inv n reader cc"
  shows "objects_ok pub_regID (cc_publications cc)" and "objects_ok sub_registrationID (cc_subscriptions cc)"
    and "objects_ok kc_registrationId (cc_counterObjects cc)"
  using assms unfolding conductor_inv_def by blast+

lemma pub_state_ok_mono: "pub_state_ok st p \<Longrightarrow> dom st \<subseteq> dom st' \<Longrightarrow> pub_state_ok st' p"
  unfolding pub_state_ok_def by (cases p) (simp_all, blast)

lemma make_publication_fields:
  assumes "make_publication pub cc m = Inr p"
  shows "pub_regID p = pd_regID pub" and "pd_buffers pub \<noteq> None"
  using assms by (auto simp: make_publication_def nil_panic_def bindR_eq_Inr split: option.splits)

definition publication_made :: "int \<Rightarrow> mem \<Rightarrow> ClientConductor \<Rightarrow> nat \<Rightarrow> publicationStateDefn \<Rightarrow> Publication \<Rightarrow> ClientConductor \<Rightarrow> bool" where
  "publication_made rid m cc j pub p cc' \<longleftrightarrow>
     j < length (cc_pubs cc) \<and> cc_pubs cc ! j = Some pub \<and> pd_regID pub = rid \<and> make_publication pub cc m = Inr p \<and>
     cc' = cc\<lparr>cc_pubs := (cc_pubs cc)[j := Some (pub\<lparr>pd_publication := Some rid\<rparr>)],
              cc_publications := (cc_publications cc)(rid \<mapsto> p)\<rparr>"

lemma find_publication_cases:
  assumes "find_publication now rid i ps cc m = Inr (r, cc')" and "ps = drop i (cc_pubs cc)"
  shows "cc' = cc \<or> (\<exists>j pub p. publication_made rid m cc j pub p cc')"
  using assms
proof (induction now rid i ps cc m rule: find_publication.induct)
  case (3 now rid i pub ps cc m)
  have i: "i < length (cc_pubs cc)" "cc_pubs cc ! i = Some pub" "ps = drop (Suc i) (cc_pubs cc)"
    using "3.prems"(2) by (metis Cons_nth_drop_Suc drop_all leI list.distinct(1) list.inject)+
  show ?case
  proof (cases "pd_regID pub = rid")
    case False
    then have "find_publication now rid (Suc i) ps cc m = Inr (r, cc')" using "3.prems"(1) by simp
    then show ?thesis using "3.IH" False i(3) by blast
  next
    case True
    show ?thesis
    proof (cases "pd_publication pub = None \<and> pd_status pub = RegisteredMediaDriver")
      case reg: True
      then obtain p where "make_publication pub cc m = Inr p"
        "cc' = cc\<lparr>cc_pubs := (cc_pubs cc)[i := Some (pub\<lparr>pd_publication := Some rid\<rparr>)],
              cc_publications := (cc_publications cc)(rid \<mapsto> p)\<rparr>"
        using "3.prems"(1) True by (auto simp: bindR_eq_Inr)
      then have "publication_made rid m cc i pub p cc'" using i True unfolding publication_made_def by blast
      then show ?thesis by blast
    next
      case False
      then show ?thesis using "3.prems"(1) True by (cases "pd_status pub") (auto split: if_splits)
    qed
  qed
next
  case (2 now rid i ps cc m)
  show ?case using "2.prems"(1) by (simp add: nil_panic_def)
qed simp

lemma FindPublication_inv:
  assumes inv: "conductor_inv n reader cc" and r: "FindPublication now rid cc m = Inr (a, cc')"
  shows "conductor_inv n reader cc'"
proof (cases "cc' = cc")
  case False
  then obtain j pub p where made: "publication_made rid m cc j pub p cc'"
    using find_publication_cases [OF r [unfolded FindPublication_def]] by auto
  have j: "j < length (cc_pubs cc)" "cc_pubs cc ! j = Some pub" "pd_regID pub = rid" "make_publication pub cc m = Inr p"
    and cc': "cc' = cc\<lparr>cc_pubs := (cc_pubs cc)[j := Some (pub\<lparr>pd_publication := Some rid\<rparr>)],
                cc_publications := (cc_publications cc)(rid \<mapsto> p)\<rparr>"
    using made by (simp_all add: publication_made_def)
  let ?pubs = "(cc_pubs cc)[j := Some (pub\<lparr>pd_publication := Some rid\<rparr>)]" and ?st = "(cc_publications cc)(rid \<mapsto> p)"
  have mem: "Some pub \<in> set (cc_pubs cc)" using j(1,2) by (metis nth_mem)
  have rid: "in_i64 rid" using inv_ids [OF inv pub_in_ids [OF mem]] j(3) by simp
  have "map (pd_regID \<circ> the) ?pubs = map (pd_regID \<circ> the) (cc_pubs cc)"
    using j(1-3) by (auto intro!: nth_equalityI simp: nth_list_update)
  moreover have "objects_ok pub_regID ?st"
    using rid make_publication_fields(1) [OF j(4)] j(3) by (intro objects_ok_update inv_objects(1) [OF inv]) auto
  moreover have "pub_state_ok ?st (Some (pub\<lparr>pd_publication := Some rid\<rparr>))"
    using inv_pub [OF inv mem] make_publication_fields(2) [OF j(4)] j(3) by (auto simp: pub_state_ok_def)
  moreover have "pub_state_ok ?st q" if "q \<in> set (cc_pubs cc)" for q
    using inv_pub [OF inv that] by (rule pub_state_ok_mono) auto
  ultimately have "\<forall>q\<in>set ?pubs. pub_state_ok ?st q" "map (pd_regID \<circ> the) ?pubs = map (pd_regID \<circ> the) (cc_pubs cc)"
    "objects_ok pub_regID ?st" using set_update_subset_insert [of "cc_pubs cc" j] by blast+
  then show "conductor_inv n reader cc'"
    using inv unfolding cc' by (simp add: conductor_inv_def registration_ids_def live_counters_def)
qed (use inv in simp)

lemma counter_key_in_ids:
  assumes "Option.bind (cc_counters cc) (\<lambda>ks. map_of ks rid) = Some kd"
  shows "rid \<in> set (registration_ids cc)"
proof -
  obtain ks where ks: "cc_counters cc = Some ks" "map_of ks rid = Some kd" using assms by (auto simp: bind_eq_Some_conv)
  have "rid \<in> fst ` set ks" using map_of_SomeD [OF ks(2)] by force
  then show ?thesis by (simp add: registration_ids_def live_counters_def ks(1))
qed

lemma inv_counter_object:
  assumes inv: "conductor_inv n reader cc" and k: "kc_registrationId k = rid" "in_i64 rid"
  shows "conductor_inv n reader (cc\<lparr>cc_counterObjects := (cc_counterObjects cc)(rid \<mapsto> k)\<rparr>)"
proof -
  have "objects_ok kc_registrationId ((cc_counterObjects cc)(rid \<mapsto> k))" using inv_objects(3) [OF inv] k by (rule objects_ok_update)
  moreover have "counter_state_ok ((cc_counterObjects cc)(rid \<mapsto> k)) e" if "counter_state_ok (cc_counterObjects cc) e" for e
    using that by (simp add: counter_state_ok_def)
  ultimately show ?thesis using inv by (simp add: conductor_inv_def registration_ids_def live_counters_def)
qed

lemma FindCounter_inv:
  assumes inv: "conductor_inv n reader cc"
  shows "conductor_inv n reader (snd (CC_FindCounter now rid cc))"
proof (cases "\<exists>kd k. Option.bind (cc_counters cc) (\<lambda>ks. map_of ks rid) = Some kd \<and> kd_counter kd = None \<and>
    kd_status kd = RegisteredMediaDriver \<and> NewCounter rid cc (kd_counterId kd) = Inr k")
  case True
  then obtain kd k where k: "Option.bind (cc_counters cc) (\<lambda>ks. map_of ks rid) = Some kd" "kd_counter kd = None"
    "kd_status kd = RegisteredMediaDriver" "NewCounter rid cc (kd_counterId kd) = Inr k" by blast
  have "kc_registrationId k = rid" using k(4) by (auto simp: NewCounter_def split: sum.splits)
  moreover have "in_i64 rid" using inv_ids [OF inv counter_key_in_ids [OF k(1)]] by blast
  ultimately have inv': "conductor_inv n reader (cc\<lparr>cc_counterObjects := (cc_counterObjects cc)(rid \<mapsto> k)\<rparr>)"
    by (rule inv_counter_object [OF inv])
  have "conductor_inv n reader (cc\<lparr>cc_counterObjects := (cc_counterObjects cc)(rid \<mapsto> k),
      cc_counters := map_option (AList.update rid (kd\<lparr>kd_counter := Some rid\<rparr>)) (cc_counters cc)\<rparr>)"
    using counter_update_inv [OF inv', of rid kd "kd\<lparr>kd_counter := Some rid\<rparr>"] k(1) by (simp add: counter_state_ok_def)
  moreover have "snd (CC_FindCounter now rid cc) = cc\<lparr>cc_counterObjects := (cc_counterObjects cc)(rid \<mapsto> k),
      cc_counters := map_option (AList.update rid (kd\<lparr>kd_counter := Some rid\<rparr>)) (cc_counters cc)\<rparr>"
    using k by (simp add: CC_FindCounter_def)
  ultimately show ?thesis by simp
next
  case False
  then have "snd (CC_FindCounter now rid cc) = cc"
    by (auto simp: CC_FindCounter_def split: option.splits registration_status.splits sum.splits)
  then show ?thesis using inv by simp
qed

lemma drop_handler_mset: "drop_handler p hs = Some hs' \<Longrightarrow> mset hs' \<subseteq># mset hs"
  unfolding drop_handler_def
  by (auto split: option.splits dest!: index_by_Some simp flip: mset_swap_remove)

lemma inv_handlers:
  assumes inv: "conductor_inv n reader cc"
  shows "mset hs \<subseteq># mset (availableCounterHandlers cc) \<Longrightarrow> conductor_inv n reader (cc\<lparr>availableCounterHandlers := hs\<rparr>)"
    and "mset hs \<subseteq># mset (unavailableCounterHandlers cc) \<Longrightarrow> conductor_inv n reader (cc\<lparr>unavailableCounterHandlers := hs\<rparr>)"
proof -
  have ids: "ids_ok n (registration_ids cc)" using inv by (simp add: conductor_inv_def)
  have sub: "mset (map fst hs) \<subseteq># mset (map fst gs)" if "mset hs \<subseteq># mset gs" for gs :: "(int \<times> handler_id) list"
    using that by (simp add: image_mset_subseteq_mono)
  show "conductor_inv n reader (cc\<lparr>availableCounterHandlers := hs\<rparr>)" if "mset hs \<subseteq># mset (availableCounterHandlers cc)"
  proof -
    have "ids_ok n (registration_ids (cc\<lparr>availableCounterHandlers := hs\<rparr>))"
      using ids by (rule ids_ok_sub) (use sub [OF that] in \<open>simp add: registration_ids_def live_counters_def subset_mset.add_mono\<close>)
    then show ?thesis using inv by (simp add: conductor_inv_def live_counters_def)
  qed
  show "conductor_inv n reader (cc\<lparr>unavailableCounterHandlers := hs\<rparr>)" if "mset hs \<subseteq># mset (unavailableCounterHandlers cc)"
  proof -
    have "ids_ok n (registration_ids (cc\<lparr>unavailableCounterHandlers := hs\<rparr>))"
      using ids by (rule ids_ok_sub) (use sub [OF that] in \<open>simp add: registration_ids_def live_counters_def subset_mset.add_mono\<close>)
    then show ?thesis using inv by (simp add: conductor_inv_def live_counters_def)
  qed
qed

subsection \<open>Releasing a publication\<close>

lemma release_pubs_skip:
  assumes "\<And>i pub. i \<in> set is \<Longrightarrow> arr ! i = Some pub \<Longrightarrow> pd_regID pub \<noteq> regID"
  shows "release_pubs dp now regID (is @ js) arr cnt cc m = release_pubs dp now regID js arr cnt cc m"
  using assms
proof (induction "is")
  case (Cons i "is")
  have "release_pubs dp now regID (is @ js) arr cnt cc m = release_pubs dp now regID js arr cnt cc m"
    using Cons.prems by (intro Cons.IH) auto
  then show ?case using Cons.prems [of i] by (auto split: option.split)
qed simp

text \<open>The entry at index \<open>j\<close> is replaced by the last one and the last place by nil.\<close>

definition swap_out :: "nat \<Rightarrow> 'a option list \<Rightarrow> 'a option list" where
  "swap_out j xs = (xs[j := xs ! (length xs - 1)])[length xs - 1 := None]"

lemma take_swap_out:
  assumes "j < length xs"
  shows "take (length xs - 1) (swap_out j xs) = butlast (xs[j := last xs])"
proof -
  have "last xs = xs ! (length xs - 1)" using assms by (intro last_conv_nth) auto
  then show ?thesis by (simp add: swap_out_def butlast_conv_take)
qed

lemma distinct_the:
  assumes "distinct (map (f \<circ> the) xs)" and "i < length xs" and "j < length xs" and "xs ! i = Some x" and "xs ! j = Some y" and "f x = f y"
  shows "i = j"
  using nth_eq_iff_index_eq [OF assms(1), of i j] assms(2-6) by simp

lemma swap_out_later:
  assumes "distinct (map (f \<circ> the) xs)" and "j < length xs" and "j < i" and "i < length xs" and "swap_out j xs ! i = Some x" and "xs ! j = Some y"
  shows "f x \<noteq> f y"
proof -
  have "i \<noteq> length xs - 1" using assms(2,4,5) by (auto simp: swap_out_def)
  then have "xs ! i = Some x" using assms(2-5) by (simp add: swap_out_def)
  then show ?thesis using distinct_the [OF assms(1,4,2) _ assms(6)] assms(3) by auto
qed

definition release_one :: "DriverProxy \<Rightarrow> int \<Rightarrow> int \<Rightarrow> nat \<Rightarrow> publicationStateDefn \<Rightarrow> publicationStateDefn option list \<Rightarrow> ClientConductor \<Rightarrow> mem \<Rightarrow>
    (unit answer \<times> publicationStateDefn option list \<times> nat \<times> ClientConductor \<times> mem) res" where
  "release_one dp now regID j pd pubs cc m =
     bindR (dp_RemovePublication dp regID m) (\<lambda>(r, m).
     case r of
       Inl e \<Rightarrow> Inr (Inl (ProxyError e), pubs, length pubs, cc, m)
     | Inr _ \<Rightarrow>
         (case pd_buffers pd of
            None \<Rightarrow> nil_panic
          | Some b \<Rightarrow>
              bindR (if fst (DecRef b) = 0 then linger now (LingerLog (snd (DecRef b))) cc else Inr cc) (\<lambda>cc.
              Inr (Inr (), swap_out j pubs, length pubs - 1, cc, m))))"

lemma release_pubs_found:
  assumes ids: "distinct (map (pd_regID \<circ> the) pubs)" and some: "None \<notin> set pubs"
    and j: "j < length pubs" "pubs ! j = Some pd" and regID: "regID = pd_regID pd"
  shows "release_pubs dp now regID [0..<length pubs] pubs (length pubs) cc m = release_one dp now regID j pd pubs cc m"
proof -
  let ?n = "length pubs"
  have split: "[0..<?n] = [0..<j] @ j # [Suc j..<?n]" using j(1) by (metis le0 less_imp_le_nat upt_add_eq_append upt_conv_Cons le_add_diff_inverse)
  have before: "pd_regID pub \<noteq> regID" if "i \<in> set [0..<j]" "pubs ! i = Some pub" for i pub
    using distinct_the [OF ids _ j(1) that(2) j(2)] that(1) j(1) regID by auto
  have "pd_regID pub \<noteq> regID" if "i \<in> set [Suc j..<?n]" "swap_out j pubs ! i = Some pub" for i pub
    using swap_out_later [OF ids j(1) _ _ that(2) j(2)] that(1) regID by simp
  from release_pubs_skip [of "[Suc j..<?n]" "swap_out j pubs" regID dp now "[]", OF this]
  have after: "release_pubs dp now regID [Suc j..<?n] (swap_out j pubs) (?n - 1) cc m = Inr (Inr (), swap_out j pubs, ?n - 1, cc, m)" for cc m
    by simp
  have "release_pubs dp now regID [0..<?n] pubs ?n cc m = release_pubs dp now regID (j # [Suc j..<?n]) pubs ?n cc m"
    unfolding split by (rule release_pubs_skip) (rule before)
  also have "\<dots> = release_one dp now regID j pd pubs cc m"
    using regID
    by (simp only: release_pubs.simps j(2) option.case if_True refl Let_def case_prod_unfold swap_out_def [symmetric] after [unfolded regID] release_one_def
        fst_conv snd_conv)
  finally show ?thesis .
qed

text \<open>The same for subscriptions.\<close>

lemma release_subs_skip:
  assumes "\<And>i sub. i \<in> set is \<Longrightarrow> arr ! i = Some sub \<Longrightarrow> sd_regID sub \<noteq> regID"
  shows "release_subs dp now regID images (is @ js) arr cnt cc m = release_subs dp now regID images js arr cnt cc m"
  using assms
proof (induction "is")
  case (Cons i "is")
  have "release_subs dp now regID images (is @ js) arr cnt cc m = release_subs dp now regID images js arr cnt cc m"
    using Cons.prems by (intro Cons.IH) auto
  then show ?case using Cons.prems [of i] by (auto split: option.split)
qed simp

definition release_sub_one :: "DriverProxy \<Rightarrow> int \<Rightarrow> int \<Rightarrow> image list \<Rightarrow> nat \<Rightarrow> subscriptionStateDefn \<Rightarrow> subscriptionStateDefn option list \<Rightarrow>
    ClientConductor \<Rightarrow> mem \<Rightarrow> (unit answer \<times> subscriptionStateDefn option list \<times> nat \<times> ClientConductor \<times> mem) res" where
  "release_sub_one dp now regID images j sd subs cc m =
     bindR (dp_RemoveSubscription dp regID m) (\<lambda>(r, m).
     case r of
       Inl e \<Rightarrow> Inr (Inl (ProxyError e), subs, length subs, cc, m)
     | Inr _ \<Rightarrow>
         bindR (release_images now (unavailable_handler sd cc) images cc) (\<lambda>cc.
         Inr (Inr (), swap_out j subs, length subs - 1, cc, m)))"

lemma release_subs_found:
  assumes ids: "distinct (map (sd_regID \<circ> the) subs)" and some: "None \<notin> set subs"
    and j: "j < length subs" "subs ! j = Some sd" and regID: "regID = sd_regID sd"
  shows "release_subs dp now regID images [0..<length subs] subs (length subs) cc m = release_sub_one dp now regID images j sd subs cc m"
proof -
  let ?n = "length subs"
  have split: "[0..<?n] = [0..<j] @ j # [Suc j..<?n]" using j(1) by (metis le0 less_imp_le_nat upt_add_eq_append upt_conv_Cons le_add_diff_inverse)
  have before: "sd_regID sub \<noteq> regID" if "i \<in> set [0..<j]" "subs ! i = Some sub" for i sub
    using distinct_the [OF ids _ j(1) that(2) j(2)] that(1) j(1) regID by auto
  have "sd_regID sub \<noteq> regID" if "i \<in> set [Suc j..<?n]" "swap_out j subs ! i = Some sub" for i sub
    using swap_out_later [OF ids j(1) _ _ that(2) j(2)] that(1) regID by simp
  from release_subs_skip [of "[Suc j..<?n]" "swap_out j subs" regID dp now images "[]", OF this]
  have after: "release_subs dp now regID images [Suc j..<?n] (swap_out j subs) (?n - 1) cc m = Inr (Inr (), swap_out j subs, ?n - 1, cc, m)" for cc m
    by simp
  have "release_subs dp now regID images [0..<?n] subs ?n cc m = release_subs dp now regID images (j # [Suc j..<?n]) subs ?n cc m"
    unfolding split by (rule release_subs_skip) (rule before)
  also have "\<dots> = release_sub_one dp now regID images j sd subs cc m"
    using regID
    by (simp only: release_subs.simps j(2) option.case if_True refl Let_def case_prod_unfold swap_out_def [symmetric] after [unfolded regID] release_sub_one_def
        fst_conv snd_conv)
  finally show ?thesis .
qed

end
