(* ===== verification/Conductor_Lifecycle.thy ===== *)
theory Conductor_Lifecycle
  imports Conductor_Release
begin

text \<open>
  Releasing a registration either changes nothing or takes out one entry; closing one object or
  all of them keeps the invariant and uses up at most one command for each.
\<close>

subsection \<open>Releasing keeps the invariant\<close>

lemma inv_drop_pub:
  assumes inv: "conductor_inv n reader cc" and sub: "mset pubs \<subseteq># mset (cc_pubs cc)" and l: "length l \<le> 1024"
  shows "conductor_inv n reader (cc\<lparr>lingeringResources := l, cc_pubs := pubs\<rparr>)"
proof -
  have m: "mset (map (pd_regID \<circ> the) pubs) \<subseteq># mset (map (pd_regID \<circ> the) (cc_pubs cc))"
    using image_mset_subseteq_mono [OF sub, of "pd_regID \<circ> the"] by simp
  have "ids_ok n (registration_ids cc)" using inv by (simp add: conductor_inv_def)
  then have "ids_ok n (registration_ids (cc\<lparr>lingeringResources := l, cc_pubs := pubs\<rparr>))"
    by (rule ids_ok_sub) (use m in \<open>simp add: registration_ids_def live_counters_def subset_mset.add_mono\<close>)
  moreover have "set pubs \<subseteq> set (cc_pubs cc)" using set_mset_mono [OF sub] by simp
  then have "\<forall>p\<in>set pubs. pub_state_ok (cc_publications cc) p" using inv_pub [OF inv] by blast
  ultimately show ?thesis using inv l by (simp add: conductor_inv_def live_counters_def)
qed

lemma inv_drop_sub:
  assumes inv: "conductor_inv n reader cc" and sub: "mset subs \<subseteq># mset (cc_subs cc)" and l: "length l \<le> 1024"
  shows "conductor_inv n reader (cc\<lparr>cc_calls := c, lingeringResources := l, cc_subs := subs\<rparr>)"
proof -
  have m: "mset (map (sd_regID \<circ> the) subs) \<subseteq># mset (map (sd_regID \<circ> the) (cc_subs cc))"
    using image_mset_subseteq_mono [OF sub, of "sd_regID \<circ> the"] by simp
  have "ids_ok n (registration_ids cc)" using inv by (simp add: conductor_inv_def)
  then have "ids_ok n (registration_ids (cc\<lparr>cc_calls := c, lingeringResources := l, cc_subs := subs\<rparr>))"
    by (rule ids_ok_sub) (use m in \<open>simp add: registration_ids_def live_counters_def subset_mset.add_mono\<close>)
  moreover have "set subs \<subseteq> set (cc_subs cc)" using set_mset_mono [OF sub] by simp
  then have "\<forall>p\<in>set subs. sub_state_ok (cc_subscriptions cc) p" using inv_sub [OF inv] by blast
  ultimately show ?thesis using inv l by (simp add: conductor_inv_def live_counters_def)
qed

lemma swap_remove_sub: "j < length xs \<Longrightarrow> mset (butlast (xs[j := last xs])) \<subseteq># mset xs"
  by (simp flip: mset_swap_remove)

lemma inv_pubs_distinct:
  assumes "conductor_inv n reader cc"
  shows "distinct (map (pd_regID \<circ> the) (cc_pubs cc))" and "None \<notin> set (cc_pubs cc)"
    and "distinct (map (sd_regID \<circ> the) (cc_subs cc))" and "None \<notin> set (cc_subs cc)"
proof -
  have "distinct (registration_ids cc)" using assms by (simp add: conductor_inv_def ids_ok_def)
  then show "distinct (map (pd_regID \<circ> the) (cc_pubs cc))" "distinct (map (sd_regID \<circ> the) (cc_subs cc))"
    unfolding registration_ids_def by simp_all
  show "None \<notin> set (cc_pubs cc)" using inv_pub [OF assms, of None] by (auto simp: pub_state_ok_def)
  show "None \<notin> set (cc_subs cc)" using inv_sub [OF assms, of None] by (auto simp: sub_state_ok_def)
qed

lemma DecRef_last: "refCount b = 1 \<Longrightarrow> DecRef b = (0, b\<lparr>refCount := 0\<rparr>)"
  by (simp add: DecRef_def wrap64_id)

text \<open>A release either changes nothing or takes out one entry and lets its log linger.\<close>

lemma release_publication_array_cases:
  assumes inv: "conductor_inv n reader cc" and run: "release_publication_array dp now regID cc m = Inr (a, arr, cc', m')"
  shows "(cc' = cc \<and> (m' = m \<or> (\<exists>e. dp_RemovePublication dp regID m = Inr (Inl e, m')))) \<or>
    (\<exists>j pd b. j < length (cc_pubs cc) \<and> cc_pubs cc ! j = Some pd \<and> pd_regID pd = regID \<and> pd_buffers pd = Some b \<and>
       dp_RemovePublication dp regID m = Inr (Inr (), m') \<and> a = Inr () \<and> length (lingeringResources cc) < 1024 \<and> arr = swap_out j (cc_pubs cc) \<and>
       cc' = cc\<lparr>lingeringResources := lingeringResources cc @ [(now, LingerLog (b\<lparr>refCount := 0\<rparr>))],
                cc_pubs := butlast ((cc_pubs cc)[j := last (cc_pubs cc)])\<rparr>)"
proof -
  let ?pubs = "cc_pubs cc"
  note d = inv_pubs_distinct(1,2) [OF inv]
  show ?thesis
  proof (cases "driverActive cc \<and> (\<exists>pd. Some pd \<in> set ?pubs \<and> pd_regID pd = regID)")
    case False
    then have "cc' = cc \<and> m' = m"
    proof (cases "driverActive cc")
      case True
      then have "pd_regID pub \<noteq> regID" if "i \<in> set [0..<length ?pubs]" "?pubs ! i = Some pub" for i pub
        using False that by (metis atLeastLessThan_iff nth_mem set_upt)
      from release_pubs_skip [of "[0..<length ?pubs]" ?pubs regID dp now "[]", OF this]
      show ?thesis using run True by (simp add: release_publication_array_def getDriverStatus_def)
    qed (use run in \<open>simp add: release_publication_array_def getDriverStatus_def\<close>)
    then show ?thesis by blast
  next
    case True
    then obtain j pd where j: "j < length ?pubs" "?pubs ! j = Some pd" "regID = pd_regID pd" by (auto simp: in_set_conv_nth)
    have "pub_state_ok (cc_publications cc) (Some pd)" using inv_pub [OF inv, of "Some pd"] j by (metis nth_mem)
    then have ref: "DecRef b = (0, b\<lparr>refCount := 0\<rparr>)" if "pd_buffers pd = Some b" for b
      using that DecRef_last by (auto simp: pub_state_ok_def)
    obtain r m1 where r: "dp_RemovePublication dp regID m = Inr (r, m1)"
      using run True release_pubs_found [OF d j(1,2,3)]
      by (cases "dp_RemovePublication dp regID m") (auto simp: release_publication_array_def getDriverStatus_def release_one_def)
    show ?thesis
    proof (cases r)
      case (Inl e)
      then have "cc' = cc \<and> m' = m1"
        using run True r release_pubs_found [OF d j(1,2,3)]
        by (simp add: release_publication_array_def getDriverStatus_def release_one_def)
      then show ?thesis using r Inl by blast
    next
      case (Inr u)
      then obtain b where b: "pd_buffers pd = Some b"
        using run True r release_pubs_found [OF d j(1,2,3)]
        by (cases "pd_buffers pd") (auto simp: release_publication_array_def getDriverStatus_def release_one_def nil_panic_def)
      then obtain cc1 where l: "linger now (LingerLog (b\<lparr>refCount := 0\<rparr>)) cc = Inr cc1" "cc' = cc1\<lparr>cc_pubs := take (length ?pubs - 1) (swap_out j ?pubs)\<rparr>"
        "m' = m1" "a = Inr ()" "arr = swap_out j ?pubs"
        using run True r Inr release_pubs_found [OF d j(1,2,3)]
        by (auto simp: release_publication_array_def getDriverStatus_def release_one_def ref bindR_eq_Inr)
      then show ?thesis using j r Inr b linger_eq [OF l(1)] take_swap_out [OF j(1)] by auto
    qed
  qed
qed

lemma release_images_change:
  "release_images now h ims cc = Inr cc' \<Longrightarrow>
   \<exists>c. cc' = cc\<lparr>cc_calls := c, lingeringResources := lingeringResources cc @ map (\<lambda>im. (now, LingerImage (Some im))) ims\<rparr> \<and>
       (ims \<noteq> [] \<longrightarrow> length (lingeringResources cc) + length ims \<le> 1024)"
proof (induction ims arbitrary: cc)
  case Nil
  then show ?case by (intro exI [of _ "cc_calls cc"]) simp
next
  case (Cons im ims)
  define cc1 where "cc1 = (case h of None \<Rightarrow> cc | Some h \<Rightarrow> cc\<lparr>cc_calls := cc_calls cc @ [UnavailableImageCall h (Some im)]\<rparr>)"
  have cc1: "cc1 = cc\<lparr>cc_calls := cc_calls cc1\<rparr>" "lingeringResources cc1 = lingeringResources cc"
    by (simp_all add: cc1_def split: option.split)
  obtain cc2 where l: "linger now (LingerImage (Some im)) cc1 = Inr cc2" "release_images now h ims cc2 = Inr cc'"
    using Cons.prems by (auto simp: Let_def bindR_eq_Inr simp flip: cc1_def)
  obtain c where c: "cc' = cc2\<lparr>cc_calls := c, lingeringResources := lingeringResources cc2 @ map (\<lambda>im. (now, LingerImage (Some im))) ims\<rparr>"
      "ims \<noteq> [] \<longrightarrow> length (lingeringResources cc2) + length ims \<le> 1024"
    using Cons.IH [OF l(2)] by (elim exE conjE)
  have cc2: "cc2 = cc1\<lparr>lingeringResources := lingeringResources cc @ [(now, LingerImage (Some im))]\<rparr>" "length (lingeringResources cc) < 1024"
    using linger_eq [OF l(1)] cc1(2) by auto
  have "cc' = cc\<lparr>cc_calls := c, lingeringResources := lingeringResources cc @ map (\<lambda>im. (now, LingerImage (Some im))) (im # ims)\<rparr>"
    unfolding c(1) cc2(1) by (subst cc1(1)) simp
  moreover have "length (lingeringResources cc) + length (im # ims) \<le> 1024" using c(2) cc2 by (cases ims) auto
  ultimately show ?case by blast
qed

lemma release_subscription_array_cases:
  assumes inv: "conductor_inv n reader cc" and run: "release_subscription_array dp now regID images cc m = Inr (a, arr, cc', m')"
  shows "(cc' = cc \<and> (m' = m \<or> (\<exists>e. dp_RemoveSubscription dp regID m = Inr (Inl e, m')))) \<or>
    (\<exists>j sd c. j < length (cc_subs cc) \<and> cc_subs cc ! j = Some sd \<and> sd_regID sd = regID \<and>
       dp_RemoveSubscription dp regID m = Inr (Inr (), m') \<and> a = Inr () \<and>
       (images \<noteq> [] \<longrightarrow> length (lingeringResources cc) + length images \<le> 1024) \<and>
       cc' = cc\<lparr>cc_calls := c, lingeringResources := lingeringResources cc @ map (\<lambda>im. (now, LingerImage (Some im))) images,
                cc_subs := butlast ((cc_subs cc)[j := last (cc_subs cc)])\<rparr>)"
proof -
  let ?subs = "cc_subs cc"
  note d = inv_pubs_distinct(3,4) [OF inv]
  show ?thesis
  proof (cases "driverActive cc \<and> (\<exists>sd. Some sd \<in> set ?subs \<and> sd_regID sd = regID)")
    case False
    then have "cc' = cc \<and> m' = m"
    proof (cases "driverActive cc")
      case True
      then have "sd_regID sub \<noteq> regID" if "i \<in> set [0..<length ?subs]" "?subs ! i = Some sub" for i sub
        using False that by (metis atLeastLessThan_iff nth_mem set_upt)
      from release_subs_skip [of "[0..<length ?subs]" ?subs regID dp now images "[]", OF this]
      show ?thesis using run True by (simp add: release_subscription_array_def getDriverStatus_def)
    qed (use run in \<open>simp add: release_subscription_array_def getDriverStatus_def\<close>)
    then show ?thesis by blast
  next
    case True
    then obtain j sd where j: "j < length ?subs" "?subs ! j = Some sd" "regID = sd_regID sd" by (auto simp: in_set_conv_nth)
    note found = release_subs_found [OF d j(1,2,3)]
    obtain r m1 where r: "dp_RemoveSubscription dp regID m = Inr (r, m1)"
      using run True found
      by (cases "dp_RemoveSubscription dp regID m") (auto simp: release_subscription_array_def getDriverStatus_def release_sub_one_def)
    show ?thesis
    proof (cases r)
      case (Inl e)
      then have "cc' = cc \<and> m' = m1"
        using run True r found by (simp add: release_subscription_array_def getDriverStatus_def release_sub_one_def)
      then show ?thesis using r Inl by blast
    next
      case (Inr u)
      then obtain cc1 where l: "release_images now (unavailable_handler sd cc) images cc = Inr cc1"
        "cc' = cc1\<lparr>cc_subs := take (length ?subs - 1) (swap_out j ?subs)\<rparr>" "m' = m1" "a = Inr ()"
        using run True r found
        by (auto simp: release_subscription_array_def getDriverStatus_def release_sub_one_def bindR_eq_Inr)
      obtain c where "cc1 = cc\<lparr>cc_calls := c, lingeringResources := lingeringResources cc @ map (\<lambda>im. (now, LingerImage (Some im))) images\<rparr>"
          "images \<noteq> [] \<longrightarrow> length (lingeringResources cc) + length images \<le> 1024"
        using release_images_change [OF l(1)] by (elim exE conjE)
      then show ?thesis using j r Inr l(2-4) take_swap_out [OF j(1)] by auto
    qed
  qed
qed

subsection \<open>Closing objects\<close>

lemma inv_pub_object:
  assumes inv: "conductor_inv n reader cc" and x: "cc_publications cc ref = Some x" "pub_regID x' = pub_regID x"
  shows "conductor_inv n reader (cc\<lparr>cc_publications := (cc_publications cc)(ref \<mapsto> x')\<rparr>)"
proof -
  let ?st = "(cc_publications cc)(ref \<mapsto> x')"
  have "objects_ok pub_regID ?st" using inv_objects(1) [OF inv] x by (rule objects_ok_replace)
  moreover have "pub_state_ok ?st p" if "p \<in> set (cc_pubs cc)" for p
    using inv_pub [OF inv that] by (rule pub_state_ok_mono) auto
  ultimately show ?thesis using inv by (simp add: conductor_inv_def registration_ids_def live_counters_def)
qed

lemma inv_sub_object:
  assumes inv: "conductor_inv n reader cc" and x: "cc_subscriptions cc ref = Some x" "sub_registrationID x' = sub_registrationID x"
  shows "conductor_inv n reader (cc\<lparr>cc_subscriptions := (cc_subscriptions cc)(ref \<mapsto> x')\<rparr>)"
proof -
  let ?st = "(cc_subscriptions cc)(ref \<mapsto> x')"
  have "objects_ok sub_registrationID ?st" using inv_objects(2) [OF inv] x by (rule objects_ok_replace)
  moreover have "sub_state_ok ?st q" if "q \<in> set (cc_subs cc)" for q
    using inv_sub [OF inv that] by (rule sub_state_ok_mono) auto
  ultimately show ?thesis using inv by (simp add: conductor_inv_def registration_ids_def live_counters_def)
qed

lemma inv_drop_counter:
  assumes inv: "conductor_inv n reader cc"
  shows "conductor_inv n reader (cc\<lparr>cc_counters := map_option (AList.delete rid) (cc_counters cc)\<rparr>)"
proof (cases "cc_counters cc")
  case (Some ks)
  have ids: "ids_ok n (registration_ids cc)" using inv by (simp add: conductor_inv_def)
  have "mset (AList.delete rid ks) \<subseteq># mset ks" by (simp add: AList.delete_eq)
  then have "mset (map fst (AList.delete rid ks)) \<subseteq># mset (map fst ks)" using image_mset_subseteq_mono by fastforce
  then have "ids_ok n (registration_ids (cc\<lparr>cc_counters := map_option (AList.delete rid) (cc_counters cc)\<rparr>))"
    by (intro ids_ok_sub [OF ids]) (simp add: registration_ids_def live_counters_def Some subset_mset.add_mono)
  then show ?thesis using inv by (simp add: conductor_inv_def live_counters_def Some AList.delete_eq)
qed (use inv in \<open>simp add: conductor_inv_def registration_ids_def live_counters_def\<close>)

lemma inv_no_counters: "conductor_inv n reader cc \<Longrightarrow> conductor_inv n reader (cc\<lparr>cc_counters := None\<rparr>)"
proof -
  assume inv: "conductor_inv n reader cc"
  then have ids: "ids_ok n (registration_ids cc)" by (simp add: conductor_inv_def)
  have "ids_ok n (registration_ids (cc\<lparr>cc_counters := None\<rparr>))"
    by (rule ids_ok_sub [OF ids]) (simp add: registration_ids_def live_counters_def)
  then show ?thesis using inv by (simp add: conductor_inv_def live_counters_def)
qed

lemma report_calls: "report e cc = Inr cc' \<Longrightarrow> cc' = cc\<lparr>cc_calls := cc_calls cc'\<rparr>"
  by (cases e) (auto simp: report_def dest!: onError_eq)

text \<open>What an operation that sends at most one command keeps, \<open>k\<close> commands to go.\<close>

definition keeps :: "(nat \<Rightarrow> mem \<Rightarrow> bool) \<Rightarrow> (mem \<Rightarrow> int) \<Rightarrow> Reader \<Rightarrow> nat \<Rightarrow> mem \<Rightarrow> ClientConductor \<Rightarrow> mem \<Rightarrow> bool" where
  "keeps ready next_id reader k m cc' m' \<longleftrightarrow> conductor_inv (next_id m') reader cc' \<and> ready k m' \<and> next_id m \<le> next_id m'"

context driver_proxy
begin

lemma ready_le: "k \<le> n \<Longrightarrow> ready n m \<Longrightarrow> ready k m"
  by (induction rule: inc_induct) (auto intro: ready_less)

lemma keeps_same: "conductor_inv (next_id m) reader cc \<Longrightarrow> ready (Suc k) m \<Longrightarrow> keeps ready next_id reader k m cc m"
  by (simp add: keeps_def ready_less)

lemma keeps_next:
  "conductor_inv (next_id m) reader cc \<Longrightarrow> ready k m' \<Longrightarrow> next_id m' = next_id m + 1 \<Longrightarrow> keeps ready next_id reader k m cc m'"
  by (auto simp: keeps_def intro: conductor_inv_mono)

lemma keeps_add:
  "conductor_inv (next_id m + 1) reader cc \<Longrightarrow> ready k m' \<Longrightarrow> next_id m' = next_id m + 1 \<Longrightarrow> keeps ready next_id reader k m cc m'"
  by (simp add: keeps_def)

lemma release_publication_keeps:
  assumes inv: "conductor_inv (next_id m) reader cc" and r: "ready (Suc k) m" and rid: "in_i64 regID"
    and run: "release_publication_array dp now regID cc m = Inr (a, arr, cc', m')"
  shows "keeps ready next_id reader k m cc' m' \<and> cc_subs cc' = cc_subs cc \<and> cc_counters cc' = cc_counters cc"
  using release_publication_array_cases [OF inv run]
proof (elim disjE conjE exE, goal_cases)
  case 1
  then show ?case using keeps_same [OF inv r] by simp
next
  case (2 e)
  then show ?case using keeps_next [OF inv] RemovePublication_law [OF r rid] uses_idD by force
next
  case (3 j pd b)
  have "ready k m' \<and> next_id m' = next_id m + 1" using RemovePublication_law [OF r rid] 3 uses_idD by fastforce
  moreover have "conductor_inv (next_id m) reader cc'"
    unfolding 3(9) using 3(7) by (intro inv_drop_pub [OF inv] swap_remove_sub 3(1)) auto
  ultimately show ?case using keeps_next 3(9) by simp
qed

lemma release_subscription_keeps:
  assumes inv: "conductor_inv (next_id m) reader cc" and r: "ready (Suc k) m" and rid: "in_i64 regID"
    and run: "release_subscription_array dp now regID images cc m = Inr (a, arr, cc', m')"
  shows "keeps ready next_id reader k m cc' m' \<and> cc_pubs cc' = cc_pubs cc \<and> cc_counters cc' = cc_counters cc"
  using release_subscription_array_cases [OF inv run]
proof (elim disjE conjE exE, goal_cases)
  case 1
  then show ?case using keeps_same [OF inv r] by simp
next
  case (2 e)
  then show ?case using keeps_next [OF inv] RemoveSubscription_law [OF r rid] uses_idD by force
next
  case (3 j sd c)
  have "ready k m' \<and> next_id m' = next_id m + 1" using RemoveSubscription_law [OF r rid] 3 uses_idD by fastforce
  moreover have "length (lingeringResources cc) \<le> 1024" using inv by (simp add: conductor_inv_def)
  then have "conductor_inv (next_id m) reader cc'"
    unfolding 3(7) using 3(6) by (intro inv_drop_sub [OF inv] swap_remove_sub 3(1)) (cases images; simp)
  ultimately show ?case using keeps_next 3(7) by simp
qed

lemma Publication_Close_keeps:
  assumes inv: "conductor_inv (next_id m) reader cc" and r: "ready (Suc k) m"
    and run: "Publication_Close dp now ref cc m = Inr (a, arr, cc', m')"
  shows "keeps ready next_id reader k m cc' m' \<and> cc_subs cc' = cc_subs cc \<and> cc_counters cc' = cc_counters cc"
proof (cases "\<exists>pub. cc_publications cc ref = Some pub \<and> \<not> pub_isClosed pub")
  case True
  then obtain pub where pub: "cc_publications cc ref = Some pub" "\<not> pub_isClosed pub" by blast
  let ?cc = "cc\<lparr>cc_publications := (cc_publications cc)(ref \<mapsto> pub\<lparr>pub_isClosed := True\<rparr>)\<rparr>"
  have "conductor_inv (next_id m) reader ?cc" using inv_pub_object [OF inv pub(1), of "pub\<lparr>pub_isClosed := True\<rparr>"] by simp
  moreover have "in_i64 (pub_regID pub)" using objects_okD [OF inv_objects(1) [OF inv] pub(1)] by simp
  moreover have "release_publication_array dp now (pub_regID pub) ?cc m = Inr (a, arr, cc', m')"
    using run pub by (simp add: Publication_Close_def)
  ultimately show ?thesis using release_publication_keeps [OF _ r] by fastforce
next
  case False
  then show ?thesis using run keeps_same [OF inv r] by (auto simp: Publication_Close_def split: option.splits if_splits)
qed

lemma Subscription_Close_keeps:
  assumes inv: "conductor_inv (next_id m) reader cc" and r: "ready (Suc k) m"
    and run: "Subscription_Close dp now ref cc m = Inr (a, arr, cc', m')"
  shows "keeps ready next_id reader k m cc' m' \<and> cc_pubs cc' = cc_pubs cc \<and> cc_counters cc' = cc_counters cc"
proof (cases "\<exists>sub. cc_subscriptions cc ref = Some sub \<and> \<not> sub_isClosed sub")
  case True
  then obtain sub where sub: "cc_subscriptions cc ref = Some sub" "\<not> sub_isClosed sub" by blast
  let ?sub = "sub\<lparr>sub_isClosed := True, sub_images := snd (ImageList_Empty (sub_images sub))\<rparr>"
  let ?cc = "cc\<lparr>cc_subscriptions := (cc_subscriptions cc)(ref \<mapsto> ?sub)\<rparr>"
  have "conductor_inv (next_id m) reader ?cc" using inv_sub_object [OF inv sub(1), of ?sub] by simp
  moreover have "in_i64 (sub_registrationID sub)" using objects_okD [OF inv_objects(2) [OF inv] sub(1)] by simp
  moreover have "release_subscription_array dp now (sub_registrationID sub) (fst (ImageList_Empty (sub_images sub))) ?cc m = Inr (a, arr, cc', m')"
    using run sub by (simp add: Subscription_Close_def case_prod_unfold)
  ultimately show ?thesis using release_subscription_keeps [OF _ r] by fastforce
next
  case False
  then show ?thesis using run keeps_same [OF inv r] by (auto simp: Subscription_Close_def nil_panic_def split: option.splits if_splits)
qed

lemma Counter_Close_keeps:
  assumes inv: "conductor_inv (next_id m) reader cc" and r: "ready (Suc k) m"
    and run: "Counter_Close dp ref cc m = Inr (a, cc', m')"
  shows "keeps ready next_id reader k m cc' m'"
proof (cases "\<exists>c. cc_counterObjects cc ref = Some c \<and> \<not> kc_isClosed c")
  case True
  then obtain c where c: "cc_counterObjects cc ref = Some c" "\<not> kc_isClosed c" by blast
  let ?c = "c\<lparr>kc_isClosed := True\<rparr>" and ?rid = "kc_registrationId c"
  let ?cc = "cc\<lparr>cc_counterObjects := (cc_counterObjects cc)(ref \<mapsto> ?c)\<rparr>"
  have rid: "?rid = ref" "in_i64 ?rid" using objects_okD [OF inv_objects(3) [OF inv] c(1)] by simp_all
  have inv': "conductor_inv (next_id m) reader ?cc" using inv_counter_object [OF inv, of ?c ref] rid by simp
  have run': "releaseCounter dp ?rid ?cc m = Inr (a, cc', m')" using run c by (simp add: Counter_Close_def)
  show ?thesis
  proof (cases "driverActive cc \<and> Option.bind (cc_counters cc) (\<lambda>ks. map_of ks ?rid) \<noteq> None")
    case True
    then have m': "\<exists>x. dp_RemoveCounter dp ?rid m = Inr (x, m')"
      and cc': "cc' = ?cc\<lparr>cc_counters := map_option (AList.delete ?rid) (cc_counters cc)\<rparr>"
      using run' by (auto simp: releaseCounter_def getDriverStatus_def bindR_eq_Inr Let_def)
    have "conductor_inv (next_id m) reader cc'" unfolding cc' using inv_drop_counter [OF inv', of ?rid] by simp
    then show ?thesis using keeps_next RemoveCounter_law [OF r rid(2)] m' uses_idD by fastforce
  next
    case False
    then have "cc' = ?cc \<and> m' = m" using run' by (auto simp: releaseCounter_def getDriverStatus_def split: if_splits)
    then show ?thesis using keeps_same [OF inv' r] by simp
  qed
next
  case False
  then show ?thesis using run keeps_same [OF inv r] by (auto simp: Counter_Close_def nil_panic_def split: option.splits if_splits)
qed

text \<open>Closing everything sends at most one command for each entry.\<close>

lemma close_pubs_keeps:
  assumes "conductor_inv (next_id m) reader cc" and "ready (length is + k) m" and "close_pubs dp now is arr cc m = Inr (cc', m')"
  shows "keeps ready next_id reader k m cc' m' \<and> cc_subs cc' = cc_subs cc \<and> cc_counters cc' = cc_counters cc"
  using assms
proof (induction "is" arbitrary: arr cc m)
  case Nil
  then show ?case by (simp add: keeps_def)
next
  case (Cons i "is")
  show ?case
  proof (cases "Option.bind (arr ! i) pd_publication")
    case None
    have "ready (length is + k) m" using Cons.prems(2) ready_less by simp
    then show ?thesis using Cons.IH [OF Cons.prems(1)] Cons.prems(3) None by simp
  next
    case (Some ref)
    obtain a front cc1 m1 cc2 where c: "Publication_Close dp now ref cc m = Inr (a, front, cc1, m1)"
      "report (answer_error a) cc1 = Inr cc2" "close_pubs dp now is (front @ drop (length front) arr) cc2 m1 = Inr (cc', m')"
      using Cons.prems(3) Some by (auto simp: bindR_eq_Inr)
    have k: "keeps ready next_id reader (length is + k) m cc1 m1 \<and> cc_subs cc1 = cc_subs cc \<and> cc_counters cc1 = cc_counters cc"
      using Cons.prems(1,2) by (intro Publication_Close_keeps [OF _ _ c(1)]) simp_all
    have cc2: "cc2 = cc1\<lparr>cc_calls := cc_calls cc2\<rparr>" using report_calls [OF c(2)] .
    have inv2: "conductor_inv (next_id m1) reader cc2" using k by (subst cc2) (simp add: keeps_def)
    have "cc_subs cc2 = cc_subs cc \<and> cc_counters cc2 = cc_counters cc" using k by (subst (1 2) cc2) simp
    then show ?thesis using Cons.IH [OF inv2 _ c(3)] k by (auto simp: keeps_def)
  qed
qed

lemma close_subs_keeps:
  assumes "conductor_inv (next_id m) reader cc" and "ready (length is + k) m" and "close_subs dp now is arr cc m = Inr (cc', m')"
  shows "keeps ready next_id reader k m cc' m' \<and> cc_counters cc' = cc_counters cc"
  using assms
proof (induction "is" arbitrary: arr cc m)
  case Nil
  then show ?case by (simp add: keeps_def)
next
  case (Cons i "is")
  show ?case
  proof (cases "Option.bind (arr ! i) sd_subscription")
    case None
    have "ready (length is + k) m" using Cons.prems(2) ready_less by simp
    then show ?thesis using Cons.IH [OF Cons.prems(1)] Cons.prems(3) None by simp
  next
    case (Some ref)
    obtain a front cc1 m1 cc2 where c: "Subscription_Close dp now ref cc m = Inr (a, front, cc1, m1)"
      "report (answer_error a) cc1 = Inr cc2" "close_subs dp now is (front @ drop (length front) arr) cc2 m1 = Inr (cc', m')"
      using Cons.prems(3) Some by (auto simp: bindR_eq_Inr)
    have k: "keeps ready next_id reader (length is + k) m cc1 m1 \<and> cc_pubs cc1 = cc_pubs cc \<and> cc_counters cc1 = cc_counters cc"
      using Cons.prems(1,2) by (intro Subscription_Close_keeps [OF _ _ c(1)]) simp_all
    have cc2: "cc2 = cc1\<lparr>cc_calls := cc_calls cc2\<rparr>" using report_calls [OF c(2)] .
    have inv2: "conductor_inv (next_id m1) reader cc2" using k by (subst cc2) (simp add: keeps_def)
    have "cc_counters cc2 = cc_counters cc" using k by (subst cc2) simp
    then show ?thesis using Cons.IH [OF inv2 _ c(3)] k by (auto simp: keeps_def)
  qed
qed

lemma close_counters_keeps:
  assumes "conductor_inv (next_id m) reader cc" and "ready (length ks + k) m" and "close_counters dp ks cc m = Inr (cc', m')"
  shows "keeps ready next_id reader k m cc' m'"
  using assms
proof (induction ks arbitrary: cc m)
  case Nil
  then show ?case by (simp add: keeps_def)
next
  case (Cons e ks)
  obtain rid kd where e: "e = (rid, kd)" by (cases e)
  show ?case
  proof (cases "kd_counter kd")
    case None
    have "ready (length ks + k) m" using Cons.prems(2) ready_less by simp
    then show ?thesis using Cons.IH [OF Cons.prems(1)] Cons.prems(3) None e by simp
  next
    case (Some ref)
    obtain a cc1 m1 cc2 where c: "Counter_Close dp ref cc m = Inr (a, cc1, m1)"
      "report (answer_error a) cc1 = Inr cc2" "close_counters dp ks cc2 m1 = Inr (cc', m')"
      using Cons.prems(3) Some e by (auto simp: bindR_eq_Inr)
    have k: "keeps ready next_id reader (length ks + k) m cc1 m1"
      using Cons.prems(1,2) by (intro Counter_Close_keeps [OF _ _ c(1)]) simp_all
    have inv2: "conductor_inv (next_id m1) reader cc2"
      using k by (subst report_calls [OF c(2)]) (simp add: keeps_def)
    show ?thesis using Cons.IH [OF inv2 _ c(3)] k by (auto simp: keeps_def)
  qed
qed

lemma closeAllResources_keeps:
  assumes inv: "conductor_inv (next_id m) reader cc" and r: "ready (budget cc) m" and run: "closeAllResources dp now cc m = Inr (cc', m')"
  shows "keeps ready next_id reader 1 m cc' m'"
proof (cases "cc_running cc")
  case True
  let ?p = "length (cc_pubs cc)" and ?s = "length (cc_subs cc)" and ?c = "length (live_counters cc)"
  obtain cc1 m1 cc2 m2 cc3 where c: "close_pubs dp now [0..<?p] (cc_pubs cc) (cc\<lparr>cc_running := False\<rparr>) m = Inr (cc1, m1)"
    "close_subs dp now [0..<length (cc_subs cc1)] (cc_subs cc1) (cc1\<lparr>cc_pubs := []\<rparr>) m1 = Inr (cc2, m2)"
    "close_counters dp (live_counters cc2) (cc2\<lparr>cc_subs := []\<rparr>) m2 = Inr (cc3, m')" "cc' = cc3\<lparr>cc_counters := None\<rparr>"
    using run True by (auto simp: closeAllResources_def Let_def bindR_eq_Inr live_counters_def)
  have k1: "keeps ready next_id reader (?s + ?c + 1) m cc1 m1 \<and> cc_subs cc1 = cc_subs cc \<and> cc_counters cc1 = cc_counters cc"
    using close_pubs_keeps [OF _ _ c(1), of "?s + ?c + 1"] inv r by (simp add: budget_def algebra_simps)
  then have i1: "conductor_inv (next_id m1) reader (cc1\<lparr>cc_pubs := []\<rparr>)"
    using inv_drop_pub [of "next_id m1" reader cc1 "[]" "lingeringResources cc1"] by (auto simp: keeps_def conductor_inv_def)
  have k2: "keeps ready next_id reader (?c + 1) m1 cc2 m2 \<and> cc_counters cc2 = cc_counters cc"
    using close_subs_keeps [OF i1 _ c(2), of "?c + 1"] k1 by (simp add: keeps_def add.assoc)
  then have i2: "conductor_inv (next_id m2) reader (cc2\<lparr>cc_subs := []\<rparr>)"
    using inv_drop_sub [of "next_id m2" reader cc2 "[]" "lingeringResources cc2" "cc_calls cc2"] by (auto simp: keeps_def conductor_inv_def)
  have l2: "live_counters cc2 = live_counters cc" using k2 by (simp add: live_counters_def)
  have k3: "keeps ready next_id reader 1 m2 cc3 m'"
    using close_counters_keeps [OF i2 _ c(3), of 1] k2 by (simp add: keeps_def l2)
  have "conductor_inv (next_id m') reader cc'"
    unfolding c(4) using k3 inv_no_counters by (simp add: keeps_def)
  then show ?thesis using k1 k2 k3 by (auto simp: keeps_def)
next
  case False
  have "ready 1 m" using r ready_le [of 1 "budget cc" m] by (simp add: budget_def)
  then show ?thesis using False run inv by (auto simp: closeAllResources_def keeps_def)
qed

end

end
