(* ===== verification/Conductor_Properties.thy ===== *)
theory Conductor_Properties
  imports Conductor_Lifecycle
begin

text \<open>
  Every operation of the conductor keeps its invariant, for any driver proxy that keeps its
  contract, and so does every run.
\<close>

subsection \<open>Every operation keeps the invariant\<close>

lemma report_inv: "conductor_inv n reader cc \<Longrightarrow> report e cc = Inr cc' \<Longrightarrow> conductor_inv n reader cc'"
  by (subst report_calls) simp_all

lemma inv_linger: "conductor_inv n reader cc \<Longrightarrow> length l \<le> 1024 \<Longrightarrow> conductor_inv n reader (cc\<lparr>lingeringResources := l\<rparr>)"
  by (simp add: conductor_inv_def registration_ids_def live_counters_def)

lemma check_managed_inv:
  assumes "conductor_inv n reader cc" and "length rs \<le> 1024" and "check_managed close m now rs cc = Inr cc'"
  shows "conductor_inv n reader cc'"
  using assms
proof (induction rs arbitrary: cc)
  case Nil
  then show ?case using inv_linger [of n reader cc "[]"] by auto
next
  case (Cons e rs)
  obtain t r where e: "e = (t, r)" by (cases e)
  show ?case
  proof (cases "resourceLingerTimeoutNs cc < wrap64 (now - t)")
    case True
    then obtain err cc1 where c: "report (map_option CloseFailed err) cc = Inr cc1" "check_managed close m now rs cc1 = Inr cc'"
      using Cons.prems(3) e by (auto simp: bindR_eq_Inr)
    show ?thesis using Cons.prems(2) by (intro Cons.IH [OF report_inv [OF Cons.prems(1) c(1)] _ c(2)]) simp
  next
    case False
    then have l: "linger t r (cc\<lparr>lingeringResources := rs\<rparr>) = Inr cc'" using Cons.prems(3) e by simp
    show ?thesis using linger_eq [OF l] Cons.prems(1,2) inv_linger [of n reader cc "rs @ [(t, r)]"] by simp
  qed
qed

lemma force_close_inv:
  assumes "conductor_inv n reader cc" and "force_close close m rs cc = Inr cc'"
  shows "conductor_inv n reader cc'"
  using assms
proof (induction rs arbitrary: cc)
  case Nil
  then show ?case using inv_linger [of n reader cc "[]"] by auto
next
  case (Cons e rs)
  obtain t r where e: "e = (t, r)" by (cases e)
  obtain err cc1 where c: "report (map_option CloseFailed err) cc = Inr cc1" "force_close close m rs cc1 = Inr cc'"
    using Cons.prems(2) e by (auto simp: bindR_eq_Inr)
  show ?case by (rule Cons.IH [OF report_inv [OF Cons.prems(1) c(1)] c(2)])
qed

lemma inv_other_fields [simp]:
  "conductor_inv n reader (cc\<lparr>driverActive := b\<rparr>) = conductor_inv n reader cc"
  "conductor_inv n reader (cc\<lparr>conductorRunning := b\<rparr>) = conductor_inv n reader cc"
  "conductor_inv n reader (cc\<lparr>timeOfLastKeepalive := t\<rparr>) = conductor_inv n reader cc"
  "conductor_inv n reader (cc\<lparr>timeOfLastDoWork := t\<rparr>) = conductor_inv n reader cc"
  "conductor_inv n reader (cc\<lparr>timeOfLastCheckManagedResources := t\<rparr>) = conductor_inv n reader cc"
  by (simp_all add: conductor_inv_def registration_ids_def live_counters_def)

lemma inv_heartbeat: "conductor_inv n reader cc \<Longrightarrow> NewAtomicCounter reader i = Inr ac \<Longrightarrow>
    conductor_inv n reader (cc\<lparr>heartbeatTimestamp := Some ac\<rparr>)"
  by (auto simp: conductor_inv_def registration_ids_def live_counters_def)

lemma inv_no_heartbeat: "conductor_inv n reader cc \<Longrightarrow> conductor_inv n reader (cc\<lparr>heartbeatTimestamp := None\<rparr>)"
  by (simp add: conductor_inv_def registration_ids_def live_counters_def)

lemma budget_other [simp]: "budget (cc\<lparr>timeOfLastDoWork := t\<rparr>) = budget cc"
  by (simp add: budget_def live_counters_def)

context driver_proxy
begin

lemma heartbeat_inv:
  assumes inv: "conductor_inv (next_id m) reader cc" and r: "ready (budget cc) m" and run: "heartbeat dp now cc m = Inr (a, cc', m')"
  shows "conductor_inv (next_id m') reader cc'"
proof (cases "heartbeatTimestamp cc")
  case (Some ac)
  obtain i where i: "NewAtomicCounter reader i = Inr ac" using inv Some by (auto simp: conductor_inv_def)
  obtain rid where rid: "GetKeyPartInt64 m (counterReader cc) (ac_CounterId ac) heartheatRegistrationIdOffset = Inr rid"
    using run Some by (auto simp: heartbeat_def bindR_eq_Inr)
  show ?thesis
  proof (cases "rid = Inr (dp_ClientID dp)")
    case True
    then have "AtomicCounter_Set m ac (now sdiv 1000000) = Inr m'" "cc' = cc"
      using run Some rid by (auto simp: heartbeat_def bindR_eq_Inr)
    then show ?thesis using counter_set_law [OF r i] inv by simp
  next
    case False
    then have "closeAllResources dp now cc m = Inr (cc', m')"
      using run Some rid by (auto simp: heartbeat_def bindR_eq_Inr)
    then show ?thesis using closeAllResources_keeps [OF inv r] by (simp add: keeps_def)
  qed
next
  case None
  obtain cid where cid: "FindCounter m (counterReader cc) heartbeatTypeId (Some (\<lambda>keyBuffer.
      bindR (GetInt64 m keyBuffer heartheatRegistrationIdOffset) (\<lambda>v. Inr (v = dp_ClientID dp)))) = Inr cid"
    using run None by (auto simp: heartbeat_def bindR_eq_Inr)
  have rd: "counterReader cc = reader" using inv by (simp add: conductor_inv_def)
  show ?thesis
  proof (cases "cid = NullCounterId")
    case True
    then show ?thesis using run None cid inv by (simp add: heartbeat_def)
  next
    case False
    show ?thesis
    proof (cases "NewAtomicCounter reader cid")
      case (Inl e)
      then show ?thesis using run None cid False rd inv_no_heartbeat [OF inv] by (simp add: heartbeat_def)
    next
      case (Inr ac)
      then have "AtomicCounter_Set m ac (now sdiv 1000000) = Inr m'" "cc' = cc\<lparr>heartbeatTimestamp := Some ac\<rparr>"
        using run None cid False rd by (auto simp: heartbeat_def bindR_eq_Inr)
      then show ?thesis using counter_set_law [OF r Inr] inv_heartbeat [OF inv Inr] by simp
    qed
  qed
qed

lemma check_keepalive_inv:
  assumes inv: "conductor_inv (next_id m) reader cc" and r: "ready (budget cc) m" and run: "check_keepalive dp now cc m = Inr (a, cc', m')"
  shows "conductor_inv (next_id m') reader cc'"
proof (cases "now > wrap64 (timeOfLastKeepalive cc + keepaliveTimeoutNS)")
  case True
  obtain t where t: "dp_TimeOfLastDriverKeepalive dp m = Inr t" using run True by (auto simp: check_keepalive_def bindR_eq_Inr)
  show ?thesis
  proof (cases "now > wrap64 (wrap64 (t * 1000000) + driverTimeoutNs cc)")
    case old: True
    then show ?thesis using run True t inv by (auto simp: check_keepalive_def Let_def)
  next
    case False
    then obtain b cc1 m1 where h: "heartbeat dp now cc m = Inr (b, cc1, m1)"
      using run True t by (auto simp: check_keepalive_def Let_def bindR_eq_Inr)
    have "m' = m1" "cc' = (case b of Inl e \<Rightarrow> cc1 | Inr _ \<Rightarrow> cc1\<lparr>timeOfLastKeepalive := now\<rparr>)"
      using run True t False h by (cases b; auto simp: check_keepalive_def Let_def)+
    then show ?thesis using heartbeat_inv [OF inv r h] by (cases b) simp_all
  qed
next
  case False
  then show ?thesis using run inv by (auto simp: check_keepalive_def)
qed

lemma check_timeouts_inv:
  assumes inv: "conductor_inv (next_id m) reader cc" and r: "ready (budget cc) m"
    and run: "onHeartbeatCheckTimeouts dp close now cc m = Inr (a, cc', m')"
  shows "conductor_inv (next_id m') reader cc'"
proof (cases "now > wrap64 (timeOfLastDoWork cc + interServiceTimeoutNs cc)")
  case True
  then have "closeAllResources dp now cc m = Inr (cc', m')"
    using run by (auto simp: onHeartbeatCheckTimeouts_def bindR_eq_Inr)
  then show ?thesis using closeAllResources_keeps [OF inv r] by (simp add: keeps_def)
next
  case False
  then obtain b cc1 m1 where k: "check_keepalive dp now (cc\<lparr>timeOfLastDoWork := now\<rparr>) m = Inr (b, cc1, m1)"
    using run by (auto simp: onHeartbeatCheckTimeouts_def bindR_eq_Inr)
  have i1: "conductor_inv (next_id m1) reader cc1" using check_keepalive_inv [OF _ _ k] inv r by simp
  show ?thesis
  proof (cases "(\<exists>x. b = Inr x) \<and> now > wrap64 (timeOfLastCheckManagedResources cc1 + resourceTimeoutNS)")
    case True
    then obtain cc2 where c: "onCheckManagedResources close m1 now cc1 = Inr cc2" "cc' = cc2\<lparr>timeOfLastCheckManagedResources := now\<rparr>" "m' = m1"
      using run False k by (auto simp: onHeartbeatCheckTimeouts_def bindR_eq_Inr)
    have "length (lingeringResources cc1) \<le> 1024" using i1 by (simp add: conductor_inv_def)
    then show ?thesis using check_managed_inv [OF i1 _ c(1) [unfolded onCheckManagedResources_def]] c(2,3) by simp
  next
    case no: False
    then have "cc' = cc1" "m' = m1" using run False k by (auto simp: onHeartbeatCheckTimeouts_def split: sum.splits if_splits)
    then show ?thesis using i1 by simp
  qed
qed

lemma close_inv:
  assumes inv: "conductor_inv (next_id m) reader cc" and r: "ready (budget cc) m" and run: "CC_Close dp now stopped cc m = Inr (a, cc', m')"
  shows "conductor_inv (next_id m') reader cc'"
proof -
  obtain cc1 m1 where c: "closeAllResources dp now cc m = Inr (cc1, m1)"
    using run by (auto simp: CC_Close_def Let_def bindR_eq_Inr)
  have k: "keeps ready next_id reader 1 m cc1 m1" by (rule closeAllResources_keeps [OF inv r c])
  have cc': "cc' = (if stopped then cc1\<lparr>conductorRunning := False\<rparr> else cc1)"
    using run c by (auto simp: CC_Close_def Let_def bindR_eq_Inr)
  have "m' = m1 \<or> (\<exists>x. dp_ClientClose dp m1 = Inr (x, m'))"
    using run c by (cases "cc_running cc") (auto simp: CC_Close_def Let_def bindR_eq_Inr)
  then have "next_id m1 \<le> next_id m'" using ClientClose_law [of 0 m1] k by (auto simp: keeps_def dest!: uses_idD)
  then have "conductor_inv (next_id m') reader cc1" using k by (auto simp: keeps_def intro: conductor_inv_mono)
  then show ?thesis by (simp add: cc')
qed

lemma registered:
  assumes inv: "conductor_inv (next_id m) reader cc" and g: "gives_id ready next_id k m r"
    and run: "bindR r (\<lambda>(x, m). case x of Inl e \<Rightarrow> Inr (Inl (ProxyError e), cc, m) | Inr rid \<Rightarrow> Inr (Inr rid, f rid, m)) = Inr (a, cc', m')"
    and f: "conductor_inv (next_id m + 1) reader (f (next_id m))"
  shows "keeps ready next_id reader k m cc' m'"
proof -
  obtain x m1 where r: "r = Inr (x, m1)" using run by (auto simp: bindR_eq_Inr)
  note d = gives_idD [OF g [unfolded r]]
  show ?thesis
  proof (cases x)
    case (Inl e)
    then show ?thesis using run r keeps_next [OF inv d(1,2)] by simp
  next
    case (Inr i)
    then show ?thesis using run r keeps_add [OF f d(1,2)] d(3) by simp
  qed
qed

lemma AddPublication_keeps:
  assumes inv: "conductor_inv (next_id m) reader cc" and r: "ready (Suc k) m" and ok: "channel_ok ch" "in_i32 st"
    and run: "CC_AddPublication dp now ch st cc m = Inr (a, cc', m')"
  shows "keeps ready next_id reader k m cc' m'"
proof (cases "driverActive cc")
  case True
  show ?thesis
    using run True
    by (intro registered [OF inv AddPublication_law [OF r ok], where f = "\<lambda>rid. cc\<lparr>cc_pubs := cc_pubs cc @ [Some (publicationStateDefn_Init ch rid st now)]\<rparr>" and a = a] inv_add_pub inv next_id_range)
       (simp add: CC_AddPublication_def getDriverStatus_def)
qed (use run keeps_same [OF inv r] in \<open>auto simp: CC_AddPublication_def getDriverStatus_def\<close>)

lemma AddExclusivePublication_keeps:
  assumes inv: "conductor_inv (next_id m) reader cc" and r: "ready (Suc k) m" and ok: "channel_ok ch" "in_i32 st"
    and run: "CC_AddExclusivePublication dp now ch st cc m = Inr (a, cc', m')"
  shows "keeps ready next_id reader k m cc' m'"
proof (cases "driverActive cc")
  case True
  show ?thesis
    using run True
    by (intro registered [OF inv AddExclusivePublication_law [OF r ok], where f = "\<lambda>rid. cc\<lparr>cc_pubs := cc_pubs cc @ [Some (publicationStateDefn_Init ch rid st now)]\<rparr>" and a = a] inv_add_pub inv next_id_range)
       (simp add: CC_AddExclusivePublication_def getDriverStatus_def)
qed (use run keeps_same [OF inv r] in \<open>auto simp: CC_AddExclusivePublication_def getDriverStatus_def\<close>)

lemma AddSubscription_keeps:
  assumes inv: "conductor_inv (next_id m) reader cc" and r: "ready (Suc k) m" and ok: "channel_ok ch" "in_i32 st"
    and run: "AddSubscriptionWithHandlers dp now ch st h1 h2 cc m = Inr (a, cc', m')"
  shows "keeps ready next_id reader k m cc' m'"
proof (cases "driverActive cc")
  case True
  show ?thesis
    using run True
    by (intro registered [OF inv AddSubscription_law [OF r ok], where f = "\<lambda>rid. cc\<lparr>cc_subs := cc_subs cc @ [Some (subscriptionStateDefn_Init ch rid st now h1 h2)]\<rparr>" and a = a] inv_add_sub inv next_id_range)
       (simp add: AddSubscriptionWithHandlers_def getDriverStatus_def)
qed (use run keeps_same [OF inv r] in \<open>auto simp: AddSubscriptionWithHandlers_def getDriverStatus_def\<close>)

lemma counter_registered:
  assumes inv: "conductor_inv (next_id m) reader cc" and g: "gives_id ready next_id k m r"
    and run: "bindR r (\<lambda>(x, m). case x of Inl e \<Rightarrow> Inr (Inl (ProxyError e), cc, m)
      | Inr rid \<Rightarrow> bindR (add_counter_state rid now cc) (\<lambda>cc. Inr (Inr rid, cc, m))) = Inr (a, cc', m')"
  shows "keeps ready next_id reader k m cc' m'"
proof -
  obtain x m1 where r: "r = Inr (x, m1)" using run by (auto simp: bindR_eq_Inr)
  note d = gives_idD [OF g [unfolded r]]
  show ?thesis
  proof (cases x)
    case (Inl e)
    then show ?thesis using run r keeps_next [OF inv d(1,2)] by simp
  next
    case (Inr i)
    then have "add_counter_state (next_id m) now cc = Inr cc'" "m' = m1" using run r d(3) by (auto simp: bindR_eq_Inr)
    then show ?thesis using keeps_add [OF inv_add_counter [OF inv next_id_range] d(1,2)] by simp
  qed
qed

lemma AddCounter_keeps:
  assumes inv: "conductor_inv (next_id m) reader cc" and r: "ready (Suc k) m" and ok: "counter_args kb ko kl lb lo ll" "in_i32 ty"
    and run: "CC_AddCounter dp now ty kb ko kl lb lo ll cc m = Inr (a, cc', m')"
  shows "keeps ready next_id reader k m cc' m'"
proof (cases "driverActive cc \<and> \<not> (kl < 0 \<or> kl > MaxKeyLength) \<and> \<not> (ll < 0 \<or> ll > MaxLabelLength)")
  case True
  show ?thesis
    using run True unfolding CC_AddCounter_def getDriverStatus_def
    by (intro counter_registered [OF inv AddCounter_law [OF r ok]]) simp
qed (use run keeps_same [OF inv r] in \<open>auto simp: CC_AddCounter_def getDriverStatus_def split: if_splits\<close>)

lemma AddCounterByLabel_keeps:
  assumes inv: "conductor_inv (next_id m) reader cc" and r: "ready (Suc k) m" and ok: "channel_ok label" "in_i32 ty"
    and run: "CC_AddCounterByLabel dp now ty label cc m = Inr (a, cc', m')"
  shows "keeps ready next_id reader k m cc' m'"
proof (cases "driverActive cc \<and> \<not> wrap32 (int (length label)) > MaxLabelLength")
  case True
  show ?thesis
    using run True unfolding CC_AddCounterByLabel_def getDriverStatus_def
    by (intro counter_registered [OF inv AddCounterByLabel_law [OF r ok]]) simp
qed (use run keeps_same [OF inv r] in \<open>auto simp: CC_AddCounterByLabel_def getDriverStatus_def split: if_splits\<close>)

lemma handler_keeps:
  assumes inv: "conductor_inv (next_id m) reader cc" and r: "ready (Suc k) m"
  shows "AddAvailableCounterHandler dp h cc m = Inr (a, cc', m') \<Longrightarrow> keeps ready next_id reader k m cc' m'"
    and "AddUnavailableCounterHandler dp h cc m = Inr (a, cc', m') \<Longrightarrow> keeps ready next_id reader k m cc' m'"
  using NextCorrelationID_law [OF r] keeps_add [OF inv_add_handler(1) [OF inv next_id_range]]
    keeps_add [OF inv_add_handler(2) [OF inv next_id_range]]
  by (auto simp: AddAvailableCounterHandler_def AddUnavailableCounterHandler_def)

lemma destination_keeps:
  assumes inv: "conductor_inv (next_id m) reader cc" and r: "ready (Suc k) m" and law: "uses_id ready next_id k m (send m)"
    and run: "destination_command send cc m = Inr (a, m')"
  shows "keeps ready next_id reader k m cc m'"
proof (cases "driverActive cc")
  case True
  then obtain x where "send m = Inr (x, m')" using run by (auto simp: destination_command_def getDriverStatus_def bindR_eq_Inr)
  then show ?thesis using keeps_next [OF inv] uses_idD law by fastforce
qed (use run keeps_same [OF inv r] in \<open>auto simp: destination_command_def getDriverStatus_def\<close>)

lemma keeps_inv: "keeps ready next_id reader k m cc' m' \<Longrightarrow> conductor_inv (next_id m') reader cc'"
  by (simp add: keeps_def)

lemma add_op_inv:
  assumes inv: "conductor_inv (next_id m) reader cc" and r: "ready (Suc 0) m"
  shows "op_ok counter_args (Op_AddPublication now ch st) \<Longrightarrow> apply_op dp files close (Op_AddPublication now ch st) cc m = Inr (cc', m') \<Longrightarrow>
      conductor_inv (next_id m') reader cc'"
    and "op_ok counter_args (Op_AddExclusivePublication now ch st) \<Longrightarrow> apply_op dp files close (Op_AddExclusivePublication now ch st) cc m = Inr (cc', m') \<Longrightarrow>
      conductor_inv (next_id m') reader cc'"
    and "op_ok counter_args (Op_AddSubscription now ch st) \<Longrightarrow> apply_op dp files close (Op_AddSubscription now ch st) cc m = Inr (cc', m') \<Longrightarrow>
      conductor_inv (next_id m') reader cc'"
    and "op_ok counter_args (Op_AddSubscriptionWithHandlers now ch st h1 h2) \<Longrightarrow> apply_op dp files close (Op_AddSubscriptionWithHandlers now ch st h1 h2) cc m = Inr (cc', m') \<Longrightarrow>
      conductor_inv (next_id m') reader cc'"
    and "op_ok counter_args (Op_AddCounter now ty kb ko kl lb lo ll) \<Longrightarrow> apply_op dp files close (Op_AddCounter now ty kb ko kl lb lo ll) cc m = Inr (cc', m') \<Longrightarrow>
      conductor_inv (next_id m') reader cc'"
    and "op_ok counter_args (Op_AddCounterByLabel now ty label) \<Longrightarrow> apply_op dp files close (Op_AddCounterByLabel now ty label) cc m = Inr (cc', m') \<Longrightarrow>
      conductor_inv (next_id m') reader cc'"
  using AddPublication_keeps [OF inv r, THEN keeps_inv] AddExclusivePublication_keeps [OF inv r, THEN keeps_inv]
    AddSubscription_keeps [OF inv r, THEN keeps_inv] AddCounter_keeps [OF inv r, THEN keeps_inv]
    AddCounterByLabel_keeps [OF inv r, THEN keeps_inv]
  by (auto simp: op_ok_def bindR_eq_Inr CC_AddSubscription_def)

lemma handler_op_inv:
  assumes inv: "conductor_inv (next_id m) reader cc" and r: "ready (Suc 0) m"
  shows "apply_op dp files close (Op_AddAvailableHandler h) cc m = Inr (cc', m') \<Longrightarrow> conductor_inv (next_id m') reader cc'"
    and "apply_op dp files close (Op_AddUnavailableHandler h) cc m = Inr (cc', m') \<Longrightarrow> conductor_inv (next_id m') reader cc'"
    and "apply_op dp files close (Op_RemoveAvailableHandlerById rid) cc m = Inr (cc', m') \<Longrightarrow> conductor_inv (next_id m') reader cc'"
    and "apply_op dp files close (Op_RemoveAvailableHandler h) cc m = Inr (cc', m') \<Longrightarrow> conductor_inv (next_id m') reader cc'"
    and "apply_op dp files close (Op_RemoveUnavailableHandlerById rid) cc m = Inr (cc', m') \<Longrightarrow> conductor_inv (next_id m') reader cc'"
    and "apply_op dp files close (Op_RemoveUnavailableHandler h) cc m = Inr (cc', m') \<Longrightarrow> conductor_inv (next_id m') reader cc'"
  using inv handler_keeps [OF inv r, THEN keeps_inv] inv_handlers(1) [OF inv drop_handler_mset] inv_handlers(2) [OF inv drop_handler_mset]
  by (auto simp: bindR_eq_Inr RemoveAvailableCounterHandlerById_def RemoveAvailableCounterHandler_def
      RemoveUnavailableCounterHandlerById_def RemoveUnavailableCounterHandler_def split: option.splits)

lemma destination_op_inv:
  assumes inv: "conductor_inv (next_id m) reader cc" and r: "ready (Suc 0) m"
  shows "op_ok counter_args (Op_AddDestination rid ch) \<Longrightarrow> apply_op dp files close (Op_AddDestination rid ch) cc m = Inr (cc', m') \<Longrightarrow>
      conductor_inv (next_id m') reader cc'"
    and "op_ok counter_args (Op_RemoveDestination rid ch) \<Longrightarrow> apply_op dp files close (Op_RemoveDestination rid ch) cc m = Inr (cc', m') \<Longrightarrow>
      conductor_inv (next_id m') reader cc'"
    and "op_ok counter_args (Op_AddRcvDestination rid ch) \<Longrightarrow> apply_op dp files close (Op_AddRcvDestination rid ch) cc m = Inr (cc', m') \<Longrightarrow>
      conductor_inv (next_id m') reader cc'"
    and "op_ok counter_args (Op_RemoveRcvDestination rid ch) \<Longrightarrow> apply_op dp files close (Op_RemoveRcvDestination rid ch) cc m = Inr (cc', m') \<Longrightarrow>
      conductor_inv (next_id m') reader cc'"
  using destination_keeps [OF inv r, where send = "dp_AddDestination dp rid ch", THEN keeps_inv] AddDestination_law [OF r, of rid ch]
    destination_keeps [OF inv r, where send = "dp_RemoveDestination dp rid ch", THEN keeps_inv] RemoveDestination_law [OF r, of rid ch]
    destination_keeps [OF inv r, where send = "dp_AddRcvDestination dp rid ch", THEN keeps_inv] AddRcvDestination_law [OF r, of rid ch]
    destination_keeps [OF inv r, where send = "dp_RemoveRcvDestination dp rid ch", THEN keeps_inv] RemoveRcvDestination_law [OF r, of rid ch]
  by (auto simp: op_ok_def bindR_eq_Inr CC_AddDestination_def CC_RemoveDestination_def
      CC_AddRcvDestination_def CC_RemoveRcvDestination_def)

lemma close_op_inv:
  assumes inv: "conductor_inv (next_id m) reader cc" and r: "ready (Suc 0) m"
  shows "apply_op dp files close (Op_ClosePublication now ref) cc m = Inr (cc', m') \<Longrightarrow> conductor_inv (next_id m') reader cc'"
    and "apply_op dp files close (Op_CloseSubscription now ref) cc m = Inr (cc', m') \<Longrightarrow> conductor_inv (next_id m') reader cc'"
    and "apply_op dp files close (Op_CloseCounter ref) cc m = Inr (cc', m') \<Longrightarrow> conductor_inv (next_id m') reader cc'"
  using Publication_Close_keeps [OF inv r, THEN conjunct1, THEN keeps_inv] Subscription_Close_keeps [OF inv r, THEN conjunct1, THEN keeps_inv]
    Counter_Close_keeps [OF inv r, THEN keeps_inv]
  by (auto simp: bindR_eq_Inr)

lemma event_op_inv:
  assumes inv: "conductor_inv (next_id m) reader cc"
  shows "apply_op dp files close (Op_FindPublication now rid) cc m = Inr (cc', m') \<Longrightarrow> conductor_inv (next_id m') reader cc'"
    and "apply_op dp files close (Op_FindCounter now rid) cc m = Inr (cc', m') \<Longrightarrow> conductor_inv (next_id m') reader cc'"
    and "apply_op dp files close (Op_Event now c) cc m = Inr (cc', m') \<Longrightarrow> conductor_inv (next_id m') reader cc'"
    and "apply_op dp files close Op_ForceClose cc m = Inr (cc', m') \<Longrightarrow> conductor_inv (next_id m') reader cc'"
    and "apply_op dp files close Op_Start cc m = Inr (cc', m') \<Longrightarrow> conductor_inv (next_id m') reader cc'"
  using inv FindPublication_inv [OF inv] FindCounter_inv [OF inv] conductor_listener_inv [OF inv, of dp files now c m cc' m'] force_close_inv [OF inv]
  by (auto simp: bindR_eq_Inr forceCloseResources_def CC_Start_def)

lemma whole_op_inv:
  assumes inv: "conductor_inv (next_id m) reader cc" and r: "ready (budget cc) m"
  shows "apply_op dp files close (Op_CheckTimeouts now) cc m = Inr (cc', m') \<Longrightarrow> conductor_inv (next_id m') reader cc'"
    and "apply_op dp files close (Op_Close now stopped) cc m = Inr (cc', m') \<Longrightarrow> conductor_inv (next_id m') reader cc'"
  using check_timeouts_inv [OF inv r] close_inv [OF inv r] by (auto simp: bindR_eq_Inr)

lemma apply_op_inv:
  assumes inv: "conductor_inv (next_id m) reader cc" and r: "ready (budget cc) m" and ok: "op_ok counter_args op"
    and run: "apply_op dp files close op cc m = Inr (cc', m')"
  shows "conductor_inv (next_id m') reader cc'"
proof -
  have r1: "ready (Suc 0) m" using ready_le [OF _ r, of "Suc 0"] by (simp add: budget_def)
  show ?thesis
    by (cases op; use ok run in \<open>simp only:\<close>)
      (erule (1) add_op_inv [OF inv r1] destination_op_inv [OF inv r1]
        | erule handler_op_inv [OF inv r1] close_op_inv [OF inv r1] event_op_inv [OF inv] whole_op_inv [OF inv r])+
qed

lemma run_inv:
  assumes "conductor_run dp files close ready next_id counter_args s s'" and "conductor_inv (next_id (snd s)) reader (fst s)"
  shows "conductor_inv (next_id (snd s')) reader (fst s')"
  using assms
proof (induction rule: conductor_run.induct)
  case (operation s cc m op s')
  then show ?case using apply_op_inv [of m cc op files close "fst s'" "snd s'"] by simp
next
  case (environment s cc m m')
  then show ?case using conductor_inv_mono by auto
qed

end

end
