(* ===== verification/Conductor_Life.thy ===== *)
theory Conductor_Life
  imports Conductor_Properties
begin

text \<open>
  The client conductor over the driver proxy: its invariant on every run, the life of a
  publication from the command to its release, the resources that linger behind it, and how the
  conductor ends.
\<close>

subsection \<open>A client to run\<close>

definition client_reader :: Reader where
  "client_reader = NewReader (Wrap 200000 1024) (Wrap 220000 4096)"

definition sample_conductor :: ClientConductor where
  "sample_conductor =
     \<lparr>cc_pubs = [], cc_subs = [], cc_counters = None, counterValuesBuffer = Wrap 0 0, counterReader = client_reader,
      lingeringResources = [], onNewPublicationHandler = None, onNewSubscriptionHandler = None, onAvailableImageHandler = None,
      onUnavailableImageHandler = None, availableCounterHandlers = [], unavailableCounterHandlers = [], errorHandler = Some 1,
      cc_running = False, conductorRunning = False, driverActive = False, timeOfLastKeepalive = 0,
      timeOfLastCheckManagedResources = 0, timeOfLastDoWork = 0, driverTimeoutNs = 0, interServiceTimeoutNs = 0,
      publicationConnectionTimeoutNs = 0, resourceLingerTimeoutNs = 0, heartbeatTimestamp = None,
      cc_publications = Map.empty, cc_subscriptions = Map.empty, cc_counterObjects = Map.empty, cc_calls = []\<rparr>"

abbreviation sample_client :: ClientConductor where
  "sample_client \<equiv> CC_Init 10000 5000 5000 3000 (Wrap 200000 1024) (Wrap 220000 4096) sample_conductor"

abbreviation sample_driver :: DriverProxy where
  "sample_driver \<equiv> proxy_interface alone 8192 sample_proxy"

lemma sample_ready: "n < 1000 \<Longrightarrow> proxy_ready 8192 sample_proxy client_reader n (\<lambda>_. 0)"
  using sample_proxy_ok
  by (auto simp: proxy_ready_def Let_def client_reader_def NewReader_def reader_ok_def apart_from_def sample_command_ring_def
      in_i64_def sdiv_nonneg_int intro!: exI)

lemma sample_AddPublication: "\<exists>m1. dp_AddPublication sample_driver [1, 2, 3] 10 (\<lambda>_. 0) = Inr (Inr 0, m1)"
proof -
  let ?c = "Cmd_AddPublication [1, 2, 3] 10" and ?ws = "[I64 7, I64 0, I32 10, Text [1, 2, 3]]"
  have fl: "fills (command_filler 7 ?c 0) 8192 1 ?ws"
    by (rule command_fills) (simp_all add: channel_ok_def in_i32_def in_i64_def)
  have fill: "\<exists>m2. command_filler 7 ?c 0 (Wrap 8192 512) m1 = Inr (1, 27, m2) \<and> (\<forall>x. x < 8192 \<or> 8192 + 512 \<le> x \<longrightarrow> m2 x = m1 x)"
    if "blank m1 8192" for m1
    using fl that by (fastforce simp: fills_def)
  obtain payload o1 m' where r: "length payload = nat 27"
    "with_correlation alone 8192 sample_proxy (command_filler 7 ?c) (\<lambda>_. 0) = Some (Inr (0, o1, m'))"
    "command_outcome (\<lambda>_. 0) sample_command_ring 12 [] 1 payload o1 m'"
    using with_correlation_written [OF sample_proxy_ok(1) sample_proxy_ok(2) [symmetric] _ sample_proxy_ok(6,7), of 1 27
        "command_filler 7 ?c" "\<lambda>_. True"] fill
    by (auto simp: sample_proxy_ok in_i32_def)
  have "o1 = Inr ()" using sample_outcome [OF r(3)] r(1) by simp
  then show ?thesis using r(2) by (simp add: proxy_op_defs settle_def id_or_error_def sample_proxy_ok)
qed

lemma sample_added:
  "\<exists>cc1 m1. CC_AddPublication sample_driver 100 [1, 2, 3] 10 sample_client (\<lambda>_. 0) = Inr (Inr 0, cc1, m1) \<and>
     cc1 = sample_client\<lparr>cc_pubs := [Some (publicationStateDefn_Init [1, 2, 3] 0 10 100)]\<rparr>"
  using sample_AddPublication by (auto simp: CC_AddPublication_def getDriverStatus_def CC_Init_def)

definition sample_files :: log_files where
  "sample_files = (\<lambda>_. (3 * 65536 + 4096, \<lambda>_ _. Some 300000))"

definition sample_log :: LogBuffers where
  "sample_log =
     \<lparr>mmapFiles = [Some 300000],
      lb_buffers = [Wrap 300000 65536, Wrap 365536 65536, Wrap 431072 65536, Wrap 496608 4096],
      lb_meta = meta_at 496608, refCount = 0\<rparr>"

lemma sample_mapped: "map_log sample_files name = Inr sample_log"
proof -
  have "LogBuffers_Wrap (3 * 65536 + 4096) (\<lambda>_ _. Some 300000) = Inr sample_log"
    using LogBufferMetaData_Wrap_meta_at [of "Wrap 496608 4096"] checkTermLength_pow2 [of 16]
    by (simp add: LogBuffers_Wrap_def Let_def computeTermLength_def wrap32_def sdiv_nonneg_int sample_log_def Wrap_def upt_rec)
  then show ?thesis by (simp add: map_log_def sample_files_def)
qed

lemma sample_appender:
  assumes "i \<in> {0, 1, 2}"
  shows "\<exists>ap. MakeAppender (\<lambda>_. 0) (snd (IncRef sample_log)) i = Inr ap"
proof -
  have "\<exists>h. headerWriter_fill (\<lambda>_. 0) (DefaultFrameHeader (meta_at 496608)) = Inr h"
    by (simp add: headerWriter_fill_def meta_at_def GetInt32_ok)
  moreover have "\<exists>b. Buffer (snd (IncRef sample_log)) i = Inr b"
    using assms by (auto simp: Buffer_def index_slice_def IncRef_def sample_log_def Let_def)
  ultimately show ?thesis
    using assms by (auto simp: MakeAppender_def tail_counter_index IncRef_def sample_log_def Let_def)
qed

lemma sample_objects:
  "\<exists>p0. NewPublication (\<lambda>_. 0) (snd (IncRef sample_log)) = Inr p0" "\<exists>pos. NewPosition (\<lambda>_. 0) (Wrap 200000 1024) 1 = Inr pos"
proof -
  have "Buffer (snd (IncRef sample_log)) 0 = Inr (Wrap 300000 65536)"
    by (simp add: Buffer_def index_slice_def IncRef_def sample_log_def Let_def)
  then show "\<exists>p0. NewPublication (\<lambda>_. 0) (snd (IncRef sample_log)) = Inr p0"
    using sample_appender [of 0] sample_appender [of 1] sample_appender [of 2] by (auto simp: NewPublication_def Let_def)
  show "\<exists>pos. NewPosition (\<lambda>_. 0) (Wrap 200000 1024) 1 = Inr pos"
    by (simp add: NewPosition_def GetInt64_ok wrap32_def CacheLineLength_def Let_def)
qed

subsection \<open>The invariant on every run\<close>

lemma CC_Init_inv:
  assumes "cc_publications cc = Map.empty" and "cc_subscriptions cc = Map.empty" and "cc_counterObjects cc = Map.empty"
    and "heartbeatTimestamp cc = None"
  shows "conductor_inv n (NewReader vals meta) (CC_Init a b c d vals meta cc)"
  using assms by (simp add: CC_Init_def inv_defs objects_ok_def)

text \<open>
  (C3) Whatever the application, the driver and the clock do, in any order, a client conductor
  keeps its invariant from \<open>Init\<close> on: the ids of publications, subscriptions, counters and
  handlers are distinct and were all handed out by the command buffer; a publication the driver
  has answered has its log mapped and counted exactly once; every object an entry refers to
  exists and carries the id of the entry; at most 1024 resources linger; the heartbeat counter is
  one of the client's counters.
\<close>

theorem conductor_keeps_invariant:
  assumes "cc_publications cc = Map.empty" and "cc_subscriptions cc = Map.empty" and "cc_counterObjects cc = Map.empty"
    and "heartbeatTimestamp cc = None" and "reader = NewReader vals meta"
    and "conductor_run (proxy_interface alone heap driver) files close (proxy_ready heap driver reader) (proxy_next driver)
      (proxy_counter_args heap driver) (CC_Init a b c d vals meta cc, m) (cc', m')"
  shows "conductor_inv (proxy_next driver m') reader cc'"
  using px.run_inv [OF assms(6)] CC_Init_inv [OF assms(1-4), of "proxy_next driver m" vals meta a b c d] assms(5) by simp

theorem conductor_keeps_invariant_witness:
  "\<exists>cc' m'. CC_AddPublication sample_driver 100 [1, 2, 3] 10 sample_client (\<lambda>_. 0) = Inr (Inr 0, cc', m') \<and>
    registration_ids cc' = [0] \<and> conductor_inv (proxy_next sample_proxy m') client_reader cc'"
proof -
  obtain cc1 m1 where add: "CC_AddPublication sample_driver 100 [1, 2, 3] 10 sample_client (\<lambda>_. 0) = Inr (Inr 0, cc1, m1)"
    and cc1: "cc1 = sample_client\<lparr>cc_pubs := [Some (publicationStateDefn_Init [1, 2, 3] 0 10 100)]\<rparr>" using sample_added by blast
  have "conductor_run sample_driver files close (proxy_ready 8192 sample_proxy client_reader) (proxy_next sample_proxy)
      (proxy_counter_args 8192 sample_proxy) (sample_client, \<lambda>_. 0) (cc1, m1)" for files close
  proof (rule conductor_run.operation [OF conductor_run.start, where op = "Op_AddPublication 100 [1, 2, 3] 10"])
    show "proxy_ready 8192 sample_proxy client_reader (budget sample_client) (\<lambda>_. 0)"
      by (rule sample_ready) (simp add: budget_def live_counters_def CC_Init_def)
  qed (simp_all add: add op_ok_def channel_ok_def in_i32_def)
  then have "conductor_inv (proxy_next sample_proxy m1) client_reader cc1"
    by (intro conductor_keeps_invariant [where cc = sample_conductor]) (simp_all add: sample_conductor_def client_reader_def)
  moreover have "registration_ids cc1 = [0]"
    by (simp add: cc1 registration_ids_def live_counters_def CC_Init_def publicationStateDefn_Init_def)
  ultimately show ?thesis using add by blast
qed

subsection \<open>The life of a publication\<close>

definition others_than :: "int \<Rightarrow> publicationStateDefn option list \<Rightarrow> bool" where
  "others_than rid ps \<longleftrightarrow> (\<forall>p\<in>set ps. \<exists>pd. p = Some pd \<and> pd_regID pd \<noteq> rid)"

lemma others_than_iff: "others_than rid ps \<longleftrightarrow> None \<notin> set ps \<and> rid \<notin> (pd_regID \<circ> the) ` set ps"
proof (induction ps)
  case (Cons p ps)
  then show ?case by (cases p) (auto simp: others_than_def)
qed (simp add: others_than_def)

lemma find_publication_skip:
  "others_than rid ps \<Longrightarrow>
    find_publication now rid i (ps @ qs) cc m = find_publication now rid (i + length ps) qs cc m"
  by (induction ps arbitrary: i) (auto simp: others_than_def)

lemma for_each_skip:
  assumes "others_than rid ps"
  shows "for_each (\<lambda>pd s. if pd_regID pd = rid then f pd s else Inr (pd, s)) (ps @ qs) s =
    bindR (for_each (\<lambda>pd s. if pd_regID pd = rid then f pd s else Inr (pd, s)) qs s) (\<lambda>(qs, s). Inr (ps @ qs, s))"
  using assms by (induction ps) (auto simp: others_than_def bindR_def split: sum.splits)

lemma errored_publication_skip:
  "others_than rid ps \<Longrightarrow>
    errored_publication rid code reason (ps @ qs) = bindR (errored_publication rid code reason qs) (\<lambda>r. Inr (map_option ((@) ps) r))"
  by (induction ps) (auto simp: others_than_def bindR_def map_option_case split: sum.splits option.splits)

lemma inv_others:
  assumes "conductor_inv n reader cc"
  shows "others_than n (cc_pubs cc)" and "Option.bind (cc_counters cc) (\<lambda>ks. map_of ks n) = None"
proof -
  have ids: "i < n" if "i \<in> set (registration_ids cc)" for i using assms that by (simp add: conductor_inv_def ids_ok_def)
  have "\<exists>pd. p = Some pd \<and> pd_regID pd \<noteq> n" if "p \<in> set (cc_pubs cc)" for p
  proof (cases p)
    case None
    then show ?thesis using assms that by (auto simp: conductor_inv_def pub_state_ok_def)
  next
    case (Some pd)
    then have "pd_regID pd < n" using that by (intro ids) (force simp: registration_ids_def)
    then show ?thesis using Some by simp
  qed
  then show "others_than n (cc_pubs cc)" by (simp add: others_than_def)
  show "Option.bind (cc_counters cc) (\<lambda>ks. map_of ks n) = None"
  proof (cases "cc_counters cc")
    case (Some ks)
    then have "n \<notin> fst ` set ks" using ids [of n] by (auto simp: registration_ids_def live_counters_def)
    then show ?thesis using Some by (simp add: map_of_eq_None_iff)
  qed simp
qed

lemma publication_added:
  assumes "conductor_inv (proxy_next driver m) reader cc" and "proxy_ready heap driver reader (Suc 0) m" and "channel_ok ch" and "in_i32 st"
    and run: "CC_AddPublication (proxy_interface alone heap driver) t0 ch st cc m = Inr (Inr rid, cc1, m1)"
  shows "rid = proxy_next driver m" and "cc1 = cc\<lparr>cc_pubs := cc_pubs cc @ [Some (publicationStateDefn_Init ch rid st t0)]\<rparr>"
proof -
  have "driverActive cc" using run by (auto simp: CC_AddPublication_def getDriverStatus_def split: if_splits)
  moreover obtain x m2 where x: "dp_AddPublication (proxy_interface alone heap driver) ch st m = Inr (x, m2)"
    using run \<open>driverActive cc\<close> by (auto simp: CC_AddPublication_def getDriverStatus_def bindR_eq_Inr)
  ultimately have "x = Inr rid" "m2 = m1" and c: "cc1 = cc\<lparr>cc_pubs := cc_pubs cc @ [Some (publicationStateDefn_Init ch rid st t0)]\<rparr>"
    using run by (cases x; simp add: CC_AddPublication_def getDriverStatus_def)+
  then show "rid = proxy_next driver m"
    using x px.AddPublication_law [OF assms(2-4)] gives_idD(3) [of "proxy_ready heap driver reader" "proxy_next driver" 0 m x m1 rid] by simp
  show "cc1 = cc\<lparr>cc_pubs := cc_pubs cc @ [Some (publicationStateDefn_Init ch rid st t0)]\<rparr>" by (rule c)
qed

text \<open>
  (C9) A publication that was added is pending, and late after the driver's time-out, until the
  driver answers. After its confirmation \<open>FindPublication\<close> creates the publication over the log
  the driver named, with the ids of the confirmation, and gives the same object from then on;
  after an error response it returns that error.
\<close>

theorem publication_life:
  assumes inv: "conductor_inv (proxy_next driver m) reader cc" and ready: "proxy_ready heap driver reader (Suc 0) m"
    and args: "channel_ok ch" "in_i32 st"
    and add: "CC_AddPublication (proxy_interface alone heap driver) t0 ch st cc m = Inr (Inr rid, cc1, m1)"
    and log: "map_log files name = Inr lb" and new: "NewPublication m2 (snd (IncRef lb)) = Inr p0"
    and limit: "NewPosition m2 (counterValuesBuffer cc) lim = Inr pos"
  shows "FindPublication t1 rid cc1 m2 =
      Inr (if t1 > wrap64 (t0 + driverTimeoutNs cc) then Inl (NoResponse t0 t1 (driverTimeoutNs cc)) else Inr None, cc1) \<and>
    (\<exists>cc2 cc3. CC_OnNewPublication files st se lim status name rid orig cc1 = Inr cc2 \<and>
      FindPublication t1 rid cc2 m2 = Inr (Inr (Some rid), cc3) \<and>
      cc_publications cc3 rid = Some (p0\<lparr>pub_channel := ch, pub_regID := rid, pub_originalRegID := orig, pub_streamID := st,
        pub_sessionID := se, pubLimit := pos, pub_channelStatusIndicatorID := status\<rparr>) \<and>
      (\<forall>t m3. FindPublication t rid cc3 m3 = Inr (Inr (Some rid), cc3))) \<and>
    (\<exists>cc2. CC_OnErrorResponse rid code reason cc1 = Inr cc2 \<and>
      FindPublication t1 rid cc2 m2 = Inr (Inl (RegistrationErrored rid code reason), cc2))"
proof -
  let ?pd = "publicationStateDefn_Init ch rid st t0"
  note added = publication_added [OF inv ready args add]
  have old: "others_than rid (cc_pubs cc)" and counters: "Option.bind (cc_counters cc) (\<lambda>ks. map_of ks rid) = None"
    using inv_others [OF inv] by (simp_all add: added(1))
  note find = FindPublication_def find_publication_skip [OF old]
  let ?pd2 = "?pd\<lparr>pd_status := RegisteredMediaDriver, pd_sessionID := se, pd_posLimitCounterID := lim,
      pd_channelStatusIndicatorID := status, pd_buffers := Some (snd (IncRef lb)), pd_origRegID := orig\<rparr>"
  define cc2 where "cc2 = call (onNewPublicationHandler cc) (\<lambda>_. NewPublicationCall ch st se rid) cc1\<lparr>cc_pubs := cc_pubs cc @ [Some ?pd2]\<rparr>"
  have "CC_OnNewPublication files st se lim status name rid orig cc1 = Inr cc2"
    by (simp add: CC_OnNewPublication_def each_pub_def for_each_skip [OF old] added(2) registered_publication_def log
        publicationStateDefn_Init_def call_def cc2_def split: option.splits)
  moreover define pub cc3 where "pub = p0\<lparr>pub_channel := ch, pub_regID := rid, pub_originalRegID := orig, pub_streamID := st,
        pub_sessionID := se, pubLimit := pos, pub_channelStatusIndicatorID := status\<rparr>"
    and "cc3 = cc2\<lparr>cc_pubs := cc_pubs cc @ [Some (?pd2\<lparr>pd_publication := Some rid\<rparr>)], cc_publications := (cc_publications cc)(rid \<mapsto> pub)\<rparr>"
  have fields: "counterValuesBuffer cc2 = counterValuesBuffer cc" "cc_publications cc2 = cc_publications cc"
    by (simp_all add: cc2_def call_def added(2) split: option.splits)
  have "make_publication ?pd2 cc2 m2 = Inr pub"
    by (simp add: make_publication_def new limit fields publicationStateDefn_Init_def pub_def)
  then have "FindPublication t1 rid cc2 m2 = Inr (Inr (Some rid), cc3)"
    using fields(2) by (simp add: find publicationStateDefn_Init_def cc2_def cc3_def list_update_append)
  moreover have "FindPublication t rid cc3 m3 = Inr (Inr (Some rid), cc3)" for t m3
    by (simp add: find publicationStateDefn_Init_def cc3_def)
  moreover have "FindPublication t1 rid cc1 m2 =
      Inr (if t1 > wrap64 (t0 + driverTimeoutNs cc) then Inl (NoResponse t0 t1 (driverTimeoutNs cc)) else Inr None, cc1)"
    by (simp add: find publicationStateDefn_Init_def added(2) timeoutExceeded_def)
  moreover have "\<exists>cc2. CC_OnErrorResponse rid code reason cc1 = Inr cc2 \<and>
      FindPublication t1 rid cc2 m2 = Inr (Inl (RegistrationErrored rid code reason), cc2)"
    using counters by (simp add: CC_OnErrorResponse_def errored_publication_skip [OF old] added(2) find publicationStateDefn_Init_def)
  ultimately show ?thesis unfolding pub_def [symmetric] by (simp add: cc3_def)
qed

theorem publication_life_witness:
  "\<exists>cc1 m1 cc2 cc3 pub. CC_AddPublication sample_driver 100 [1, 2, 3] 10 sample_client (\<lambda>_. 0) = Inr (Inr 0, cc1, m1) \<and>
     CC_OnNewPublication sample_files 10 77 1 5 [9] 0 0 cc1 = Inr cc2 \<and>
     FindPublication 200 0 cc2 (\<lambda>_. 0) = Inr (Inr (Some 0), cc3) \<and> cc_publications cc3 0 = Some pub \<and> pub_sessionID pub = 77"
proof -
  obtain cc1 m1 where add: "CC_AddPublication sample_driver 100 [1, 2, 3] 10 sample_client (\<lambda>_. 0) = Inr (Inr 0, cc1, m1)"
    using sample_added by blast
  obtain p0 pos where p: "NewPublication (\<lambda>_. 0) (snd (IncRef sample_log)) = Inr p0"
    "NewPosition (\<lambda>_. 0) (Wrap 200000 1024) 1 = Inr pos" using sample_objects by blast
  have inv: "conductor_inv (proxy_next sample_proxy (\<lambda>_. 0)) client_reader sample_client"
    unfolding client_reader_def by (rule CC_Init_inv) (simp_all add: sample_conductor_def)
  have pos: "NewPosition (\<lambda>_. 0) (counterValuesBuffer sample_client) 1 = Inr pos" using p(2) by (simp add: CC_Init_def)
  have args: "Suc 0 < 1000" "channel_ok [1, 2, 3]" "in_i32 10" by (simp_all add: channel_ok_def in_i32_def)
  obtain cc2 cc3 where "CC_OnNewPublication sample_files 10 77 1 5 [9] 0 0 cc1 = Inr cc2"
    "FindPublication 200 0 cc2 (\<lambda>_. 0) = Inr (Inr (Some 0), cc3)"
    "cc_publications cc3 0 = Some (p0\<lparr>pub_channel := [1, 2, 3], pub_regID := 0, pub_originalRegID := 0, pub_streamID := 10,
        pub_sessionID := 77, pubLimit := pos, pub_channelStatusIndicatorID := 5\<rparr>)"
    using publication_life [OF inv sample_ready [OF args(1)] args(2,3) add sample_mapped p(1) pos] by blast
  then show ?thesis using add by auto
qed

lemma publication_released:
  assumes inv: "conductor_inv n reader cc" and active: "driverActive cc" and j: "j < length (cc_pubs cc)" "cc_pubs cc ! j = Some pd"
    and b: "pd_buffers pd = Some b" and room: "length (lingeringResources cc) < 1024"
    and sent: "dp_RemovePublication dp (pd_regID pd) m = Inr (Inr (), m')"
  shows "release_publication_array dp now (pd_regID pd) cc m =
    Inr (Inr (), swap_out j (cc_pubs cc),
      cc\<lparr>lingeringResources := lingeringResources cc @ [(now, LingerLog (b\<lparr>refCount := 0\<rparr>))],
         cc_pubs := butlast ((cc_pubs cc)[j := last (cc_pubs cc)])\<rparr>, m')"
proof -
  have "pub_state_ok (cc_publications cc) (Some pd)" using inv_pub [OF inv, of "Some pd"] j by (metis nth_mem)
  then have "DecRef b = (0, b\<lparr>refCount := 0\<rparr>)" using b DecRef_last by (auto simp: pub_state_ok_def)
  then show ?thesis
    using active b room sent take_swap_out [OF j(1)]
    by (simp add: release_publication_array_def getDriverStatus_def release_pubs_found [OF inv_pubs_distinct(1,2) [OF inv] j refl]
        release_one_def linger_def)
qed

lemma released_others:
  assumes inv: "conductor_inv n reader cc" and j: "j < length (cc_pubs cc)" "cc_pubs cc ! j = Some pd"
  shows "others_than (pd_regID pd) (butlast ((cc_pubs cc)[j := last (cc_pubs cc)]))"
proof -
  let ?rest = "butlast ((cc_pubs cc)[j := last (cc_pubs cc)])"
  have pubs: "mset (Some pd # ?rest) = mset (cc_pubs cc)" using mset_swap_remove [OF j(1)] j(2) by simp
  then have "mset (map (pd_regID \<circ> the) (Some pd # ?rest)) = mset (map (pd_regID \<circ> the) (cc_pubs cc))" by (metis mset_map)
  then have "distinct (map (pd_regID \<circ> the) (Some pd # ?rest))"
    using inv_pubs_distinct(1) [OF inv] mset_eq_imp_distinct_iff by blast
  then have "pd_regID pd \<notin> (pd_regID \<circ> the) ` set ?rest" by simp
  moreover have "None \<notin> set ?rest" using inv_pubs_distinct(2) [OF inv] mset_eq_setD [OF pubs] by auto
  ultimately show ?thesis by (simp add: others_than_iff)
qed

text \<open>
  (C16) Closing a publication sends one remove command, takes exactly its registration out and
  lets its log linger; the publication is not found afterwards and closing it again does
  nothing.
\<close>

theorem Publication_Close_releases:
  assumes inv: "conductor_inv n reader cc" and active: "driverActive cc" and pub: "cc_publications cc rid = Some pub" "\<not> pub_isClosed pub"
    and pd: "Some pd \<in> set (cc_pubs cc)" "pd_regID pd = rid" "pd_buffers pd = Some b" and room: "length (lingeringResources cc) < 1024"
    and sent: "dp_RemovePublication dp rid m = Inr (Inr (), m')"
  shows "\<exists>arr cc'. Publication_Close dp now rid cc m = Inr (Inr (), arr, cc', m') \<and>
    mset (cc_pubs cc') = mset (cc_pubs cc) - {#Some pd#} \<and>
    lingeringResources cc' = lingeringResources cc @ [(now, LingerLog (b\<lparr>refCount := 0\<rparr>))] \<and>
    FindPublication t rid cc' m2 = Inr (Inl (RegistrationNotFound rid), cc') \<and>
    Publication_Close dp t rid cc' m2 = Inr (Inr (), cc_pubs cc', cc', m2)"
proof -
  obtain j where j: "j < length (cc_pubs cc)" "cc_pubs cc ! j = Some pd" using pd(1) by (auto simp: in_set_conv_nth)
  let ?cc = "cc\<lparr>cc_publications := (cc_publications cc)(rid \<mapsto> pub\<lparr>pub_isClosed := True\<rparr>)\<rparr>"
  define pubs where "pubs = butlast ((cc_pubs cc)[j := last (cc_pubs cc)])"
  define cc' where "cc' = ?cc\<lparr>lingeringResources := lingeringResources cc @ [(now, LingerLog (b\<lparr>refCount := 0\<rparr>))], cc_pubs := pubs\<rparr>"
  have rid: "pub_regID pub = rid" using objects_okD [OF inv_objects(1) [OF inv] pub(1)] by simp
  have "conductor_inv n reader ?cc" using inv_pub_object [OF inv pub(1), of "pub\<lparr>pub_isClosed := True\<rparr>"] by simp
  from publication_released [OF this, of j pd b dp m m' now]
  have "Publication_Close dp now rid cc m = Inr (Inr (), swap_out j (cc_pubs cc), cc', m')"
    using active j pd(2,3) room sent pub by (simp add: Publication_Close_def rid cc'_def pubs_def)
  moreover have "others_than rid pubs" using released_others [OF inv j] by (simp add: pubs_def pd(2))
  then have "FindPublication t rid cc' m2 = Inr (Inl (RegistrationNotFound rid), cc')"
    using find_publication_skip [of rid pubs t 0 "[]"] by (simp add: FindPublication_def cc'_def)
  moreover have "mset (cc_pubs cc') = mset (cc_pubs cc) - {#Some pd#}"
    using mset_swap_remove [OF j(1)] j(2) by (simp add: cc'_def pubs_def) (metis add_mset_remove_trivial)
  moreover have "Publication_Close dp t rid cc' m2 = Inr (Inr (), cc_pubs cc', cc', m2)" by (simp add: Publication_Close_def cc'_def)
  ultimately show ?thesis by (auto simp: cc'_def)
qed

definition sample_pd :: "int \<Rightarrow> publicationStateDefn" where
  "sample_pd rid = (publicationStateDefn_Init [1, 2, 3] rid 10 100)\<lparr>pd_status := RegisteredMediaDriver,
     pd_buffers := Some (sample_log\<lparr>refCount := 1\<rparr>), pd_publication := Some rid\<rparr>"

definition sample_open :: "int list \<Rightarrow> ClientConductor" where
  "sample_open rids = sample_client\<lparr>cc_pubs := map (Some \<circ> sample_pd) rids,
     cc_publications := (\<lambda>rid. if rid \<in> set rids then Some (sample_pub\<lparr>pub_regID := rid\<rparr>) else None)\<rparr>"

lemma sample_open_inv:
  assumes "distinct rids" and "\<forall>r\<in>set rids. 0 \<le> r \<and> r < 100"
  shows "conductor_inv 100 client_reader (sample_open rids)"
proof -
  have "map (pd_regID \<circ> the) (map (Some \<circ> sample_pd) rids) = rids" by (simp add: comp_def sample_pd_def publicationStateDefn_Init_def)
  then show ?thesis
    using assms by (auto simp: conductor_inv_def ids_ok_def registration_ids_def live_counters_def sample_open_def CC_Init_def
        sample_conductor_def client_reader_def pub_state_ok_def objects_ok_def sample_pd_def publicationStateDefn_Init_def in_i64_def)
qed

theorem Publication_Close_releases_witness:
  "\<exists>arr cc' m'. Publication_Close (sample_driver\<lparr>dp_RemovePublication := \<lambda>_ m. Inr (Inr (), m)\<rparr>) 500 5 (sample_open [4, 5, 6]) (\<lambda>_. 0) =
      Inr (Inr (), arr, cc', m') \<and> mset (cc_pubs cc') = {#Some (sample_pd 4), Some (sample_pd 6)#}"
  using Publication_Close_releases [OF sample_open_inv, of "[4, 5, 6]" 5 "sample_pub\<lparr>pub_regID := 5\<rparr>" "sample_pd 5"
      "sample_log\<lparr>refCount := 1\<rparr>" "sample_driver\<lparr>dp_RemovePublication := \<lambda>_ m. Inr (Inr (), m)\<rparr>" "\<lambda>_. 0" "\<lambda>_. 0" 500]
  by (fastforce simp: sample_open_def CC_Init_def sample_conductor_def sample_pd_def sample_pub_def publicationStateDefn_Init_def)

end
