(* ===== verification/Conductor_Closing.thy ===== *)
theory Conductor_Closing
  imports Conductor_Life
begin

text \<open>
  Closing a client: which publications \<open>closeAllResources\<close> reaches while each release reorders the
  slice it runs over, the lingering resources, and the end of the conductor's loop.
\<close>

subsection \<open>Which publications are closed\<close>

text \<open>
  The array behind the slice after the first \<open>i\<close> rounds: the places from \<open>i\<close> on still hold their
  publications, except for the last \<open>i\<close> ones, which are nil.
\<close>

definition emptied :: "publicationStateDefn list \<Rightarrow> nat \<Rightarrow> publicationStateDefn option list \<Rightarrow> bool" where
  "emptied ps i arr \<longleftrightarrow>
     length arr = length ps \<and> (\<forall>j<length ps. i \<le> j \<longrightarrow> arr ! j = (if j < length ps - i then Some (ps ! j) else None))"

lemma emptied_step:
  assumes e: "emptied ps i arr" and i: "2 * i < length ps" and pubs: "pubs = take (length ps - i) arr"
  shows "emptied ps (Suc i) (swap_out i pubs @ drop (length pubs) arr)"
    and "take (length ps - Suc i) (swap_out i pubs @ drop (length pubs) arr) = butlast (pubs[i := last pubs])"
    and "pubs ! i = Some (ps ! i)" and "i < length pubs"
proof -
  have len: "length arr = length ps" "length pubs = length ps - i" using e by (simp_all add: emptied_def pubs)
  show i1: "i < length pubs" using len i by simp
  show "pubs ! i = Some (ps ! i)" using e i by (simp add: emptied_def pubs)
  show "take (length ps - Suc i) (swap_out i pubs @ drop (length pubs) arr) = butlast (pubs[i := last pubs])"
    using take_swap_out [OF i1] len by (simp add: swap_out_def)
  have "(swap_out i pubs @ drop (length pubs) arr) ! j = (if j < length ps - Suc i then Some (ps ! j) else None)"
    if j: "j < length ps" "Suc i \<le> j" for j
  proof (cases "j < length pubs")
    case True
    then have "(swap_out i pubs @ drop (length pubs) arr) ! j = (if j = length pubs - 1 then None else arr ! j)"
      using j len i1 by (simp add: nth_append swap_out_def nth_list_update pubs)
    then show ?thesis using e True j len by (auto simp: emptied_def)
  next
    case False
    then show ?thesis using e j len by (auto simp: emptied_def nth_append swap_out_def)
  qed
  then show "emptied ps (Suc i) (swap_out i pubs @ drop (length pubs) arr)" using len by (simp add: emptied_def swap_out_def)
qed

definition half_closed :: "int \<Rightarrow> Reader \<Rightarrow> publicationStateDefn list \<Rightarrow> nat \<Rightarrow> publicationStateDefn option list \<Rightarrow> ClientConductor \<Rightarrow> bool" where
  "half_closed n reader ps i arr cc \<longleftrightarrow>
     conductor_inv n reader cc \<and> driverActive cc \<and> cc_subs cc = [] \<and> cc_counters cc = Some [] \<and>
     length (lingeringResources cc) + (length ps - i) \<le> 1024 \<and> emptied ps i arr \<and> cc_pubs cc = take (length ps - i) arr \<and>
     (\<forall>j<length ps. \<exists>pub. cc_publications cc (pd_regID (ps ! j)) = Some pub \<and> (pub_isClosed pub \<longleftrightarrow> j < i))"

lemma half_closedD:
  assumes "half_closed n reader ps i arr cc"
  shows "conductor_inv n reader cc" and "emptied ps i arr" and "cc_pubs cc = take (length ps - i) arr"
    and "driverActive cc" "cc_subs cc = []" "cc_counters cc = Some []" "length (lingeringResources cc) + (length ps - i) \<le> 1024"
    and "j < length ps \<Longrightarrow> \<exists>pub. cc_publications cc (pd_regID (ps ! j)) = Some pub \<and> (pub_isClosed pub \<longleftrightarrow> j < i)"
  using assms unfolding half_closed_def by blast+

lemma close_step:
  assumes h: "half_closed n reader ps i arr cc" and i: "2 * i < length ps" and ids: "distinct (map pd_regID ps)"
    and pd: "pd_publication (ps ! i) = Some (pd_regID (ps ! i))"
    and sent: "dp_RemovePublication dp (pd_regID (ps ! i)) m = Inr (Inr (), m')"
  shows "\<exists>cc'. Publication_Close dp now (pd_regID (ps ! i)) cc m = Inr (Inr (), swap_out i (cc_pubs cc), cc', m') \<and>
    half_closed n reader ps (Suc i) (swap_out i (cc_pubs cc) @ drop (length (cc_pubs cc)) arr) cc'"
proof -
  let ?p = "ps ! i" and ?pubs = "cc_pubs cc"
  note inv = half_closedD(1) [OF h] and st = emptied_step [OF half_closedD(2) [OF h] i half_closedD(3) [OF h]]
  obtain pub where pub: "cc_publications cc (pd_regID ?p) = Some pub" "\<not> pub_isClosed pub"
    using half_closedD(8) [OF h, of i] i by auto
  have "pub_state_ok (cc_publications cc) (Some ?p)" using inv_pub [OF inv, of "Some ?p"] st(3,4) by (metis nth_mem)
  then obtain b where b: "pd_buffers ?p = Some b" using pd by (auto simp: pub_state_ok_def)
  have rid: "pub_regID pub = pd_regID ?p" using objects_okD [OF inv_objects(1) [OF inv] pub(1)] by simp
  define objs where "objs = (cc_publications cc)(pd_regID ?p \<mapsto> pub\<lparr>pub_isClosed := True\<rparr>)"
  define pubs where "pubs = butlast (?pubs[i := last ?pubs])"
  define ling where "ling = lingeringResources cc @ [(now, LingerLog (b\<lparr>refCount := 0\<rparr>))]"
  let ?cc1 = "cc\<lparr>cc_publications := objs\<rparr>" and ?cc2 = "cc\<lparr>cc_publications := objs, lingeringResources := ling, cc_pubs := pubs\<rparr>"
  have inv1: "conductor_inv n reader ?cc1" using inv_pub_object [OF inv pub(1), of "pub\<lparr>pub_isClosed := True\<rparr>"] by (simp add: objs_def)
  have room: "length (lingeringResources cc) < 1024" using half_closedD(7) [OF h] i by linarith
  have run: "Publication_Close dp now (pd_regID ?p) cc m = Inr (Inr (), swap_out i ?pubs, ?cc2, m')"
    using publication_released [OF inv1, of i ?p b dp m m' now] half_closedD(4) [OF h] st(3,4) b room sent pub rid
    by (simp add: Publication_Close_def pubs_def ling_def objs_def)
  have inv2: "conductor_inv n reader ?cc2"
    using inv_drop_pub [OF inv1, of pubs ling] swap_remove_sub [OF st(4)] room by (simp add: pubs_def ling_def)
  have "\<exists>pub. objs (pd_regID (ps ! j)) = Some pub \<and> (pub_isClosed pub \<longleftrightarrow> j < Suc i)" if "j < length ps" for j
  proof (cases "j = i")
    case False
    then have "pd_regID (ps ! j) \<noteq> pd_regID ?p" using ids that i by (simp add: distinct_conv_nth)
    then show ?thesis using half_closedD(8) [OF h that] False by (auto simp: objs_def less_Suc_eq)
  qed (simp add: objs_def)
  then have "half_closed n reader ps (Suc i) (swap_out i ?pubs @ drop (length ?pubs) arr) ?cc2"
    unfolding half_closed_def using inv2 half_closedD(4-7) [OF h] st(1,2) i by (simp add: ling_def pubs_def)
  then show ?thesis using run by blast
qed

lemma close_pubs_nil: "(\<forall>j\<in>set is. arr ! j = None) \<Longrightarrow> close_pubs dp now is arr cc m = Inr (cc, m)"
  by (induction "is") simp_all

lemma close_pubs_half:
  assumes "half_closed n reader ps i arr cc" and "2 * i \<le> length ps + 1" and "distinct (map pd_regID ps)"
    and "\<forall>p\<in>set ps. pd_publication p = Some (pd_regID p)" and "\<forall>rid m. dp_RemovePublication dp rid m = Inr (Inr (), send rid m)"
  shows "\<exists>arr' cc' m'. close_pubs dp now [i..<length ps] arr cc m = Inr (cc', m') \<and>
    half_closed n reader ps ((length ps + 1) div 2) arr' cc'"
  using assms
proof (induction "length ps - i" arbitrary: i arr cc m)
  case 0
  then have "i = (length ps + 1) div 2" by linarith
  then show ?case using 0 by auto
next
  case (Suc d)
  show ?case
  proof (cases "2 * i < length ps")
    case True
    let ?arr = "swap_out i (cc_pubs cc) @ drop (length (cc_pubs cc)) arr"
    have pd: "pd_publication (ps ! i) = Some (pd_regID (ps ! i))" using Suc.prems(4) True by simp
    have sent: "dp_RemovePublication dp (pd_regID (ps ! i)) m = Inr (Inr (), send (pd_regID (ps ! i)) m)" using Suc.prems(5) by blast
    obtain cc1 where c: "Publication_Close dp now (pd_regID (ps ! i)) cc m = Inr (Inr (), swap_out i (cc_pubs cc), cc1, send (pd_regID (ps ! i)) m)"
      and h: "half_closed n reader ps (Suc i) ?arr cc1"
      using close_step [OF Suc.prems(1) True Suc.prems(3) pd sent] by blast
    have "arr ! i = Some (ps ! i)" using half_closedD(2) [OF Suc.prems(1)] True by (auto simp: emptied_def)
    then have "close_pubs dp now [i..<length ps] arr cc m = close_pubs dp now [Suc i..<length ps] ?arr cc1 (send (pd_regID (ps ! i)) m)"
      using True pd by (simp add: upt_rec [of i] c report_def answer_error_def swap_out_def)
    then show ?thesis using Suc.hyps(1) [OF _ h _ Suc.prems(3-5)] Suc.hyps(2) True by simp
  next
    case False
    then have "i = (length ps + 1) div 2" using Suc.prems(2) by linarith
    moreover have "\<forall>j\<in>set [i..<length ps]. arr ! j = None" using half_closedD(2) [OF Suc.prems(1)] False by (auto simp: emptied_def)
    ultimately show ?thesis using close_pubs_nil [of "[i..<length ps]" arr dp now cc m] Suc.prems(1) by auto
  qed
qed

text \<open>
  (C17) Closing a client does not close all of its publications. Of \<open>n\<close> open publications the
  first half, rounded up, is closed; the others stay open, the driver is not told, and the client
  forgets their registrations: releasing a publication moves the last one to the front of the
  loop, and nil to its place.
\<close>

theorem closeAllResources_skips:
  assumes inv: "conductor_inv n reader cc" and running: "cc_running cc" "driverActive cc" and pubs: "cc_pubs cc = map Some ps"
    and only: "cc_subs cc = []" "cc_counters cc = Some []" and room: "length (lingeringResources cc) + length ps \<le> 1024"
    and opened: "\<forall>p\<in>set ps. pd_publication p = Some (pd_regID p) \<and>
      (\<exists>pub. cc_publications cc (pd_regID p) = Some pub \<and> \<not> pub_isClosed pub)"
    and sent: "\<forall>rid m. dp_RemovePublication dp rid m = Inr (Inr (), send rid m)"
  shows "\<exists>cc' m'. closeAllResources dp now cc m = Inr (cc', m') \<and> cc_pubs cc' = [] \<and>
    (\<forall>i<length ps. \<exists>pub. cc_publications cc' (pd_regID (ps ! i)) = Some pub \<and> (pub_isClosed pub \<longleftrightarrow> 2 * i < length ps))"
proof -
  let ?cc = "cc\<lparr>cc_running := False\<rparr>"
  have ids: "distinct (map pd_regID ps)" using inv_pubs_distinct(1) [OF inv] by (simp add: pubs comp_def)
  have "conductor_inv n reader ?cc" using inv by (simp add: conductor_inv_def registration_ids_def live_counters_def)
  then have "half_closed n reader ps 0 (map Some ps) ?cc"
    unfolding half_closed_def using running pubs only room opened by (simp add: emptied_def)
  then obtain arr' cc' m' where c: "close_pubs dp now [0..<length ps] (map Some ps) ?cc m = Inr (cc', m')"
    and h: "half_closed n reader ps ((length ps + 1) div 2) arr' cc'"
    using close_pubs_half [OF _ _ ids _ sent, of n reader 0] opened by fastforce
  have "closeAllResources dp now cc m = Inr (cc'\<lparr>cc_pubs := [], cc_subs := [], cc_counters := None\<rparr>, m')"
    using running c half_closedD(5,6) [OF h] by (simp add: closeAllResources_def pubs Let_def)
  moreover have "\<exists>pub. cc_publications cc' (pd_regID (ps ! i)) = Some pub \<and> (pub_isClosed pub \<longleftrightarrow> 2 * i < length ps)"
    if "i < length ps" for i
  proof -
    have "i < (length ps + 1) div 2 \<longleftrightarrow> 2 * i < length ps" by linarith
    then show ?thesis using half_closedD(8) [OF h that] by simp
  qed
  ultimately show ?thesis by auto
qed

theorem closeAllResources_skips_witness:
  "\<exists>cc' m' pub. closeAllResources (sample_driver\<lparr>dp_RemovePublication := \<lambda>_ m. Inr (Inr (), m)\<rparr>) 500 (sample_open [4, 5, 6]) (\<lambda>_. 0) = Inr (cc', m') \<and>
     cc_pubs cc' = [] \<and> cc_publications cc' 6 = Some pub \<and> \<not> pub_isClosed pub"
proof -
  let ?dp = "sample_driver\<lparr>dp_RemovePublication := \<lambda>_ m. Inr (Inr (), m)\<rparr>" and ?ps = "map sample_pd [4, 5, 6]"
  have "\<exists>cc' m'. closeAllResources ?dp 500 (sample_open [4, 5, 6]) (\<lambda>_. 0) = Inr (cc', m') \<and> cc_pubs cc' = [] \<and>
    (\<forall>i<length ?ps. \<exists>pub. cc_publications cc' (pd_regID (?ps ! i)) = Some pub \<and> (pub_isClosed pub \<longleftrightarrow> 2 * i < length ?ps))"
    by (rule closeAllResources_skips [OF sample_open_inv, where send = "\<lambda>_ m. m"])
       (simp_all add: sample_open_def CC_Init_def sample_pd_def sample_pub_def publicationStateDefn_Init_def)
  then obtain cc' m' where c: "closeAllResources ?dp 500 (sample_open [4, 5, 6]) (\<lambda>_. 0) = Inr (cc', m')" "cc_pubs cc' = []"
    and p: "\<forall>i<length ?ps. \<exists>pub. cc_publications cc' (pd_regID (?ps ! i)) = Some pub \<and> (pub_isClosed pub \<longleftrightarrow> 2 * i < length ?ps)"
    by blast
  have "\<exists>pub. cc_publications cc' 6 = Some pub \<and> \<not> pub_isClosed pub"
    using p [rule_format, of 2] by (simp add: sample_pd_def publicationStateDefn_Init_def)
  then show ?thesis using c by blast
qed

text \<open>
  After the client was closed, adding a counter panics once the command has been sent: the
  map of counters is nil, while the driver still counts as active.
\<close>

theorem AddCounter_after_close_panics:
  assumes "cc_running cc" and "closeAllResources dp now cc m = Inr (cc1, m1)" and "driverActive cc1"
    and "length label \<le> 380" and "dp_AddCounterByLabel dp typeId label m1 = Inr (Inr rid, m2)"
  shows "CC_AddCounterByLabel dp t typeId label cc1 m1 = Inl (Panic ''assignment to entry in nil map'')"
proof -
  have "cc_counters cc1 = None" using assms(1,2) by (auto simp: closeAllResources_def bindR_eq_Inr Let_def)
  moreover have "wrap32 (int (length label)) = int (length label)" using assms(4) by (intro wrap32_id) auto
  ultimately show ?thesis using assms(3-5) by (simp add: CC_AddCounterByLabel_def getDriverStatus_def add_counter_state_def)
qed

theorem AddCounter_after_close_panics_witness:
  "CC_AddCounterByLabel (sample_driver\<lparr>dp_AddCounterByLabel := \<lambda>_ _ m. Inr (Inr 7, m)\<rparr>) 600 1001 [65]
     (sample_client\<lparr>cc_running := False, cc_counters := None\<rparr>) (\<lambda>_. 0) = Inl (Panic ''assignment to entry in nil map'')"
  by (rule AddCounter_after_close_panics [where cc = sample_client and m = "\<lambda>_. 0" and now = 500])
     (simp_all add: closeAllResources_def CC_Init_def)

subsection \<open>Lingering resources\<close>

lemma for_each_subs_skip:
  assumes "\<forall>q\<in>set qs. \<exists>sd. q = Some sd \<and> sd_regID sd \<noteq> rid"
  shows "for_each (\<lambda>sd s. if sd_regID sd = rid then f sd s else Inr (sd, s)) (qs @ qs') s =
    bindR (for_each (\<lambda>sd s. if sd_regID sd = rid then f sd s else Inr (sd, s)) qs' s) (\<lambda>(qs', s). Inr (qs @ qs', s))"
  using assms by (induction qs) (auto simp: bindR_def split: sum.splits)

lemma inv_sub_split:
  assumes inv: "conductor_inv n reader cc" and sd: "Some sd \<in> set (cc_subs cc)"
  obtains qs qs' where "cc_subs cc = qs @ Some sd # qs'" and "\<forall>q\<in>set qs. \<exists>sd'. q = Some sd' \<and> sd_regID sd' \<noteq> sd_regID sd"
proof -
  obtain qs qs' where split: "cc_subs cc = qs @ Some sd # qs'" using split_list [OF sd] by blast
  have "\<exists>sd'. q = Some sd' \<and> sd_regID sd' \<noteq> sd_regID sd" if mem: "q \<in> set qs" for q
  proof -
    obtain sd' where q: "q = Some sd'" using inv_pubs_distinct(4) [OF inv] mem split by (cases q) auto
    then have "sd_regID sd' \<in> set (map (sd_regID \<circ> the) qs)" using mem by force
    then show ?thesis using inv_pubs_distinct(3) [OF inv] split q by auto
  qed
  then show ?thesis using that split by blast
qed

text \<open>
  (C36) The conductor blocks for good when an image goes away while 1024 resources linger: its
  own loop is the only one to take resources from the channel it sends to.
\<close>

theorem OnUnavailableImage_blocks:
  assumes inv: "conductor_inv n reader cc" and full: "length (lingeringResources cc) = 1024"
    and sd: "Some sd \<in> set (cc_subs cc)" "sd_regID sd = rid" "sd_subscription sd \<noteq> None"
  shows "CC_OnUnavailableImage now cid rid cc = Inl (Blocked ''send on lingeringResources'')"
proof -
  obtain qs qs' where split: "cc_subs cc = qs @ Some sd # qs'" "\<forall>q\<in>set qs. \<exists>sd'. q = Some sd' \<and> sd_regID sd' \<noteq> rid"
    using inv_sub_split [OF inv sd(1)] sd(2) by metis
  obtain ref sub where "subscription_object sd cc = Some (ref, sub)"
    using inv_sub [OF inv sd(1)] sd(3) by (auto simp: sub_state_ok_def subscription_object_def)
  then show ?thesis
    using full sd(2)
    by (simp add: CC_OnUnavailableImage_def each_sub_def split(1) for_each_subs_skip [OF split(2)] case_prod_unfold linger_def call_def Let_def
        split: option.splits)
qed

definition sample_sd :: subscriptionStateDefn where
  "sample_sd = (subscriptionStateDefn_Init [1] 5 10 100 None None)\<lparr>sd_status := RegisteredMediaDriver, sd_subscription := Some 5\<rparr>"

definition sample_waiting :: ClientConductor where
  "sample_waiting = sample_client\<lparr>lingeringResources := replicate 1024 (0, LingerImage None), cc_subs := [Some sample_sd],
     cc_subscriptions := [5 \<mapsto> NewSubscription [1] 5 10 0 None None]\<rparr>"

theorem OnUnavailableImage_blocks_witness:
  "CC_OnUnavailableImage 700 3 5 sample_waiting = Inl (Blocked ''send on lingeringResources'')"
proof (rule OnUnavailableImage_blocks)
  show "conductor_inv 100 client_reader sample_waiting"
    by (simp add: conductor_inv_def ids_ok_def registration_ids_def live_counters_def sample_waiting_def CC_Init_def sample_conductor_def
        client_reader_def sub_state_ok_def objects_ok_def sample_sd_def subscriptionStateDefn_Init_def NewSubscription_def in_i64_def)
  show "Some sample_sd \<in> set (cc_subs sample_waiting)" "sd_regID sample_sd = 5" "sd_subscription sample_sd \<noteq> None"
    by (simp_all add: sample_waiting_def sample_sd_def subscriptionStateDefn_Init_def)
qed (simp add: sample_waiting_def)

definition expired :: "int \<Rightarrow> ClientConductor \<Rightarrow> int \<times> linger_resource \<Rightarrow> bool" where
  "expired now cc e \<longleftrightarrow> resourceLingerTimeoutNs cc < wrap64 (now - fst e)"

text \<open>Closing resources one after the other: a fault ends it, errors are collected.\<close>

fun close_each :: "(int \<Rightarrow> string option) \<Rightarrow> mem \<Rightarrow> linger_resource list \<Rightarrow> string list res" where
  "close_each close m [] = Inr []"
| "close_each close m (r # rs) =
     bindR (close_resource close m r) (\<lambda>err.
     bindR (close_each close m rs) (\<lambda>errs. Inr (case err of None \<Rightarrow> errs | Some e \<Rightarrow> e # errs)))"

lemma report_same:
  assumes "errorHandler cc \<noteq> None"
  shows "report (map_option CloseFailed err) cc =
    Inr (cc\<lparr>cc_calls := cc_calls cc @ (case err of None \<Rightarrow> [] | Some e \<Rightarrow> [ErrorCall (CloseFailed e)])\<rparr>)"
  using assms by (cases err) (simp_all add: report_def onError_def)

lemma check_managed_queue:
  assumes "errorHandler cc \<noteq> None" and "length rs \<le> 1024"
  shows "check_managed close m now rs cc =
    bindR (close_each close m (map snd (takeWhile (expired now cc) rs))) (\<lambda>errs.
    Inr (cc\<lparr>lingeringResources := (case dropWhile (expired now cc) rs of [] \<Rightarrow> [] | r # rs' \<Rightarrow> rs' @ [r]),
            cc_calls := cc_calls cc @ map (\<lambda>e. ErrorCall (CloseFailed e)) errs\<rparr>))"
  using assms
proof (induction rs arbitrary: cc)
  case (Cons e rs)
  obtain t r where e: "e = (t, r)" by fastforce
  show ?case
  proof (cases "expired now cc e")
    case True
    show ?thesis
    proof (cases "close_resource close m r")
      case (Inr err)
      let ?cc = "cc\<lparr>cc_calls := cc_calls cc @ (case err of None \<Rightarrow> [] | Some e \<Rightarrow> [ErrorCall (CloseFailed e)])\<rparr>"
      have "expired now ?cc = expired now cc" by (simp add: expired_def fun_eq_iff)
      moreover have "check_managed close m now (e # rs) cc = check_managed close m now rs ?cc"
        using True Inr report_same [OF Cons.prems(1)] by (simp add: e expired_def)
      ultimately show ?thesis
        using Cons.IH [of ?cc] Cons.prems True Inr
        by (cases "close_each close m (map snd (takeWhile (expired now cc) rs))") (auto simp: e split: option.splits)
    qed (use True in \<open>simp add: e expired_def\<close>)
  next
    case False
    then show ?thesis using Cons.prems(2) by (simp add: e expired_def linger_def)
  qed
qed simp

text \<open>
  (C32) The check of the lingering resources closes those at the front that have lingered longer
  than the time-out, up to the first that has not. Each of them is closed, in order: a fault in
  closing one is the fault of the check, and the errors of the others are reported to the error
  handler, each once. They leave the queue, and the first that has not expired goes to the back, so
  a resource is never closed early, but later checks do not see the resources in the order they
  were released. Nothing else of the conductor changes.
\<close>

theorem onCheckManagedResources_closes_expired:
  assumes "errorHandler cc \<noteq> None" and "length (lingeringResources cc) \<le> 1024"
  shows "onCheckManagedResources close m now cc =
    bindR (close_each close m (map snd (takeWhile (expired now cc) (lingeringResources cc)))) (\<lambda>errs.
    Inr (cc\<lparr>lingeringResources :=
              (case dropWhile (expired now cc) (lingeringResources cc) of [] \<Rightarrow> [] | r # rs \<Rightarrow> rs @ [r]),
            cc_calls := cc_calls cc @ map (\<lambda>e. ErrorCall (CloseFailed e)) errs\<rparr>))"
  unfolding onCheckManagedResources_def by (rule check_managed_queue [OF assms])

definition sample_lingering :: ClientConductor where
  "sample_lingering = sample_client\<lparr>lingeringResources := [(100, LingerLog sample_log), (4000, LingerImage None), (200, LingerImage None)]\<rparr>"

theorem onCheckManagedResources_closes_expired_witness:
  "onCheckManagedResources (\<lambda>_. Some ''busy'') (\<lambda>_. 0) 5000 sample_lingering =
     Inr (sample_lingering\<lparr>lingeringResources := [(200, LingerImage None), (4000, LingerImage None)],
            cc_calls := cc_calls sample_lingering @ [ErrorCall (CloseFailed ''busy'')]\<rparr>)"
proof -
  have "errorHandler sample_lingering \<noteq> None" "length (lingeringResources sample_lingering) \<le> 1024"
    by (simp_all add: sample_lingering_def CC_Init_def sample_conductor_def)
  moreover have "close_each (\<lambda>_. Some ''busy'') (\<lambda>_. 0)
      (map snd (takeWhile (expired 5000 sample_lingering) (lingeringResources sample_lingering))) = Inr [''busy'']"
    by (simp add: sample_lingering_def CC_Init_def expired_def wrap64_def close_resource_def sample_log_def LogBuffers_Close_def
        GetMemoryPtr_def)
  moreover have "dropWhile (expired 5000 sample_lingering) (lingeringResources sample_lingering) =
      [(4000, LingerImage None), (200, LingerImage None)]"
    by (simp add: sample_lingering_def CC_Init_def expired_def wrap64_def)
  ultimately show ?thesis
    using onCheckManagedResources_closes_expired [of sample_lingering "\<lambda>_. Some ''busy''" "\<lambda>_. 0" 5000] by simp
qed

subsection \<open>The end of the loop\<close>

lemma force_close_empties: "force_close close m rs cc = Inr cc' \<Longrightarrow> lingeringResources cc' = []"
  by (induction rs arbitrary: cc) (auto simp: bindR_eq_Inr)

lemma bindR_Blocked: "bindR r f = Inl (Blocked w) \<longleftrightarrow> r = Inl (Blocked w) \<or> (\<exists>x. r = Inr x \<and> f x = Inl (Blocked w))"
  by (cases r) auto

lemma LogBuffers_Close_returns: "LogBuffers_Close close b \<noteq> Inl (Blocked w)"
proof -
  have "fold (\<lambda>mmap acc. bindR acc (\<lambda>_. bindR (GetMemoryPtr mmap) (\<lambda>p. Inr (close p)))) fs acc \<noteq> Inl (Blocked w)"
    if "acc \<noteq> Inl (Blocked w)" for fs acc
    using that by (induction fs arbitrary: acc) (auto simp: bindR_Blocked GetMemoryPtr_def split: option.splits)
  then show ?thesis by (simp add: LogBuffers_Close_def bindR_Blocked)
qed

lemma force_close_returns: "force_close close m rs cc \<noteq> Inl (Blocked w)"
proof -
  have "BoundsCheck i n len \<noteq> Inl (Blocked w)" for i n len by (simp add: BoundsCheck_def)
  then have "Position_get m pos \<noteq> Inl (Blocked w)" for pos
    by (simp add: Position_get_def GetInt64_def bindR_Blocked)
  then have "close_resource close m r \<noteq> Inl (Blocked w)" for r
    using LogBuffers_Close_returns
    by (auto simp: close_resource_def Image_Close_def bindR_Blocked Let_def split: linger_resource.splits option.splits)
  moreover have "report err cc \<noteq> Inl (Blocked w)" for err cc by (simp add: report_def onError_def split: option.splits)
  ultimately show ?thesis by (induction rs arbitrary: cc) (auto simp: bindR_Blocked)
qed

text \<open>
  The state of the loop before round \<open>k\<close>, if the loop comes to it from its start at round \<open>i\<close>, and
  whether it blocks in that round.
\<close>

primrec before_round :: "DriverProxy \<Rightarrow> log_files \<Rightarrow> (int \<Rightarrow> string option) \<Rightarrow> (nat \<Rightarrow> nat \<Rightarrow> mem \<Rightarrow> mem) \<Rightarrow> (nat \<Rightarrow> int) \<Rightarrow>
    (nat \<Rightarrow> ClientConductor \<times> mem \<Rightarrow> ClientConductor \<times> mem) \<Rightarrow> nat \<Rightarrow> CopyReceiver \<times> ClientConductor \<times> mem \<Rightarrow> nat \<Rightarrow>
    (CopyReceiver \<times> ClientConductor \<times> mem) option" where
  "before_round dp files close env clock others i st 0 = Some st"
| "before_round dp files close env clock others i st (Suc n) =
     (case st of (bcast, cc, m) \<Rightarrow> case others i (cc, m) of (cc, m) \<Rightarrow>
      if \<not> cc_running cc then None
      else case doWork dp files close (env i) (clock i) bcast cc m of
             Inr (Inr workCount, st) \<Rightarrow> before_round dp files close env clock others (Suc i) st n
           | _ \<Rightarrow> None)"

definition round_blocks :: "DriverProxy \<Rightarrow> log_files \<Rightarrow> (int \<Rightarrow> string option) \<Rightarrow> (nat \<Rightarrow> nat \<Rightarrow> mem \<Rightarrow> mem) \<Rightarrow> (nat \<Rightarrow> int) \<Rightarrow>
    (nat \<Rightarrow> ClientConductor \<times> mem \<Rightarrow> ClientConductor \<times> mem) \<Rightarrow> nat \<Rightarrow> CopyReceiver \<times> ClientConductor \<times> mem \<Rightarrow> bool" where
  "round_blocks dp files close env clock others k st \<longleftrightarrow>
     (case st of (bcast, cc, m) \<Rightarrow> case others k (cc, m) of (cc, m) \<Rightarrow>
      cc_running cc \<and> (\<exists>w. doWork dp files close (env k) (clock k) bcast cc m = Inl (Blocked w)))"

lemma run_loop_stops:
  assumes "\<forall>s. \<not> cc_running (fst (others (i + n) s))"
  shows "(run_loop dp files close env clock others i bcast cc m = None \<longleftrightarrow>
      (\<exists>j<n. \<exists>st. before_round dp files close env clock others i (bcast, cc, m) j = Some st \<and>
         round_blocks dp files close env clock others (i + j) st)) \<and>
    (\<forall>w. run_loop dp files close env clock others i bcast cc m \<noteq> Some (Inl (Blocked w)))"
  using assms
proof (induction n arbitrary: i bcast cc m)
  case 0
  then have "\<not> cc_running (fst (others i (cc, m)))" by simp
  then show ?case by (subst run_loop.simps, subst run_loop.simps) (simp add: case_prod_unfold)
next
  case (Suc n)
  obtain cc1 m1 where o: "others i (cc, m) = (cc1, m1)" by fastforce
  note IH = Suc.IH [of "Suc i", simplified, OF Suc.prems [simplified]]
  have split: "(\<exists>j<Suc n. P j) \<longleftrightarrow> P 0 \<or> (\<exists>j<n. P (Suc j))" for P
    using less_Suc_eq_0_disj by auto
  show ?case
  proof (cases "cc_running cc1")
    case running: True
    show ?thesis
    proof (cases "doWork dp files close (env i) (clock i) bcast cc1 m1")
      case (Inl f)
      then show ?thesis
        using running o
        by (subst run_loop.simps, subst run_loop.simps) (auto simp: split round_blocks_def split: fault.splits)
    next
      case (Inr r)
      obtain a bcast2 cc2 m2 where r: "r = (a, bcast2, cc2, m2)" by (metis prod_cases4)
      show ?thesis
      proof (cases a)
        case (Inl e)
        then show ?thesis
          using running o Inr r
          by (subst run_loop.simps, subst run_loop.simps) (auto simp: split round_blocks_def bindR_Blocked onError_def)
      next
        case a: (Inr w)
        have step: "run_loop dp files close env clock others i bcast cc m =
            run_loop dp files close env clock others (Suc i) bcast2 cc2 m2"
          using running o Inr r a by (subst run_loop.simps) simp
        show ?thesis
          unfolding step split using IH [of bcast2 cc2 m2] running o Inr r a by (simp add: round_blocks_def)
      qed
    qed
  next
    case False
    then show ?thesis
      using o by (subst run_loop.simps, subst run_loop.simps) (simp add: split round_blocks_def)
  qed
qed

text \<open>
  (C22) The conductor's loop ends at the latest before the round by which the client was closed,
  unless one of the rounds it comes to before blocks for good, whatever the driver, the clock and the
  other goroutines do. It fails to return exactly if there is such a round, as when it sends to the
  full channel of lingering resources. When it returns, it has failed with a panic or a fatal error,
  or nothing lingers and the conductor counts as stopped.
\<close>

theorem conductor_stops:
  assumes "\<forall>s. \<not> cc_running (fst (others stop s))"
    and "cc0 = cc\<lparr>timeOfLastKeepalive := now, timeOfLastCheckManagedResources := now, timeOfLastDoWork := now, conductorRunning := True\<rparr>"
  shows "(run dp files close env clock others now bcast cc m = None \<longleftrightarrow>
      (\<exists>k < stop. \<exists>st. before_round dp files close env clock others 0 (bcast, cc0, m) k = Some st \<and>
         round_blocks dp files close env clock others k st)) \<and>
    (case run dp files close env clock others now bcast cc m of
       None \<Rightarrow> True
     | Some (Inl f) \<Rightarrow> \<forall>w. f \<noteq> Blocked w
     | Some (Inr (cc', m')) \<Rightarrow> lingeringResources cc' = [] \<and> \<not> conductorRunning cc')"
proof -
  let ?r = "run_loop dp files close env clock others 0 bcast cc0 m"
  have stops: "(?r = None \<longleftrightarrow> (\<exists>k < stop. \<exists>st. before_round dp files close env clock others 0 (bcast, cc0, m) k = Some st \<and>
        round_blocks dp files close env clock others k st)) \<and> (\<forall>w. ?r \<noteq> Some (Inl (Blocked w)))"
    using run_loop_stops [of others 0 stop dp files close env clock bcast cc0 m] assms(1) unfolding add_0 by blast
  have run: "run dp files close env clock others now bcast cc m = map_option (\<lambda>r. bindR r (\<lambda>(cc, m).
      bindR (forceCloseResources close m cc) (\<lambda>cc. Inr (cc\<lparr>conductorRunning := False\<rparr>, m)))) ?r"
    by (simp add: run_def assms(2))
  show ?thesis
  proof (cases ?r)
    case None
    then show ?thesis using stops by (simp add: run)
  next
    case (Some r)
    have "bindR r (\<lambda>(cc, m). bindR (forceCloseResources close m cc) (\<lambda>cc. Inr (cc\<lparr>conductorRunning := False\<rparr>, m))) \<noteq> Inl (Blocked w)" for w
      using stops Some force_close_returns by (auto simp: bindR_Blocked forceCloseResources_def)
    then have "case bindR r (\<lambda>(cc, m). bindR (forceCloseResources close m cc) (\<lambda>cc. Inr (cc\<lparr>conductorRunning := False\<rparr>, m))) of
        Inl f \<Rightarrow> \<forall>w. f \<noteq> Blocked w | Inr (cc', m') \<Rightarrow> lingeringResources cc' = [] \<and> \<not> conductorRunning cc'"
      by (auto simp: forceCloseResources_def bindR_eq_Inr dest: force_close_empties split: sum.splits)
    moreover have "\<not> (\<exists>k < stop. \<exists>st. before_round dp files close env clock others 0 (bcast, cc0, m) k = Some st \<and>
        round_blocks dp files close env clock others k st)" using stops Some by auto
    ultimately show ?thesis using Some by (simp add: run)
  qed
qed

lemma idle_receive: "Receive alone handler sample_copier (\<lambda>_. 0) s = Inr (0, sample_copier, s, \<lambda>_. 0)"
proof -
  have "bc_tail (\<lambda>_. 0) sample_receiver = 0" by (simp add: bc_tail_def)
  then have "receiveNext alone sample_receiver (\<lambda>_. 0) = Inr (False, sample_receiver, \<lambda>_. 0)"
    using receiveNext_idle [OF sample_receiver_ok(1)] sample_receiver_ok(6) by simp
  then show ?thesis by (simp add: Receive_def sample_receiver_ok(5) flip: sample_receiver_ok(5))
qed

lemma idle_round:
  assumes "t \<le> wrap64 (timeOfLastDoWork cc + interServiceTimeoutNs cc)" and "t \<le> wrap64 (timeOfLastKeepalive cc + keepaliveTimeoutNS)"
    and "t \<le> wrap64 (timeOfLastCheckManagedResources cc + resourceTimeoutNS)"
  shows "doWork dp files close alone t sample_copier cc (\<lambda>_. 0) =
    Inr (Inr 0, sample_copier, cc\<lparr>timeOfLastDoWork := t\<rparr>, \<lambda>_. 0)"
  using assms by (simp add: doWork_def ReceiveMessages_def onHeartbeatCheckTimeouts_def check_keepalive_def idle_receive)

text \<open>A client that does two idle rounds before it is closed.\<close>

definition close_before :: "nat \<Rightarrow> nat \<Rightarrow> ClientConductor \<times> mem \<Rightarrow> ClientConductor \<times> mem" where
  "close_before n k = (\<lambda>(cc, m). if k = n then (cc\<lparr>cc_running := False\<rparr>, m) else (cc, m))"

theorem conductor_stops_witness:
  "\<exists>cc' m'. run sample_driver sample_files (\<lambda>_. None) (\<lambda>_. alone) (\<lambda>k. 100 * int k) (close_before 2) 0 sample_copier sample_client (\<lambda>_. 0) =
     Some (Inr (cc', m')) \<and> lingeringResources cc' = [] \<and> \<not> conductorRunning cc'"
proof -
  let ?run = "run sample_driver sample_files (\<lambda>_. None) (\<lambda>_. alone) (\<lambda>k. 100 * int k) (close_before 2) 0 sample_copier sample_client (\<lambda>_. 0)"
  let ?loop = "run_loop sample_driver sample_files (\<lambda>_. None) (\<lambda>_. alone) (\<lambda>k. 100 * int k) (close_before 2)"
    and ?cc = "sample_client\<lparr>timeOfLastKeepalive := 0, timeOfLastCheckManagedResources := 0, timeOfLastDoWork := 0, conductorRunning := True\<rparr>"
  have step: "?loop k sample_copier cc (\<lambda>_. 0) = ?loop (Suc k) sample_copier (cc\<lparr>timeOfLastDoWork := 100 * int k\<rparr>) (\<lambda>_. 0)"
    if "k \<noteq> 2" "cc_running cc" "100 * int k \<le> wrap64 (timeOfLastDoWork cc + interServiceTimeoutNs cc)"
      "100 * int k \<le> wrap64 (timeOfLastKeepalive cc + keepaliveTimeoutNS)"
      "100 * int k \<le> wrap64 (timeOfLastCheckManagedResources cc + resourceTimeoutNS)" for k cc
    using that by (subst run_loop.simps) (simp add: close_before_def idle_round)
  have stop: "?loop 2 bcast cc m = Some (Inr (cc\<lparr>cc_running := False\<rparr>, m))" for bcast cc m
    by (subst run_loop.simps) (simp add: close_before_def)
  have "?loop 0 sample_copier ?cc (\<lambda>_. 0) = ?loop (Suc 0) sample_copier (?cc\<lparr>timeOfLastDoWork := 0\<rparr>) (\<lambda>_. 0)"
    by (subst step) (simp_all add: CC_Init_def sample_conductor_def wrap64_def keepaliveTimeoutNS_def resourceTimeoutNS_def)
  also have "\<dots> = ?loop 2 sample_copier (?cc\<lparr>timeOfLastDoWork := 100\<rparr>) (\<lambda>_. 0)"
    by (subst step) (simp_all add: CC_Init_def sample_conductor_def wrap64_def keepaliveTimeoutNS_def resourceTimeoutNS_def numeral_2_eq_2)
  finally have "?loop 0 sample_copier ?cc (\<lambda>_. 0) = Some (Inr (?cc\<lparr>timeOfLastDoWork := 100, cc_running := False\<rparr>, \<lambda>_. 0))"
    unfolding stop .
  then have "\<exists>cc' m'. ?run = Some (Inr (cc', m'))"
    by (simp add: run_def forceCloseResources_def CC_Init_def sample_conductor_def)
  moreover have "\<forall>s. \<not> cc_running (fst (close_before 2 2 s))" by (simp add: close_before_def case_prod_unfold)
  note conductor_stops [where others = "close_before 2" and stop = 2, OF this refl, where dp = sample_driver and files = sample_files
      and close = "\<lambda>_. None" and env = "\<lambda>_. alone" and clock = "\<lambda>k. 100 * int k" and bcast = sample_copier and cc = sample_client
      and now = 0 and m = "\<lambda>_. 0"]
  ultimately show ?thesis by auto
qed

text \<open>
  A driver that has not been heard of for its time-out is given up: the check of the
  time-outs fails without touching the memory, the client counts as inactive, and each command
  of the application is refused from then on without being sent.
\<close>

theorem inactive_driver_refuses:
  assumes "now \<le> wrap64 (timeOfLastDoWork cc + interServiceTimeoutNs cc)" and "now > wrap64 (timeOfLastKeepalive cc + keepaliveTimeoutNS)"
    and "dp_TimeOfLastDriverKeepalive dp m = Inr t" and "now > wrap64 (wrap64 (t * 1000000) + driverTimeoutNs cc)"
  shows "\<exists>cc'. onHeartbeatCheckTimeouts dp close now cc m =
      Inr (Inl (KeepaliveTimeout (wrap64 (wrap64 (t * 1000000) + driverTimeoutNs cc)) (driverTimeoutNs cc)), cc', m) \<and>
    CC_AddPublication dp now' ch st cc' m2 = Inr (Inl DriverInactive, cc', m2) \<and>
    CC_AddSubscription dp now' ch st cc' m2 = Inr (Inl DriverInactive, cc', m2) \<and>
    CC_AddCounterByLabel dp now' typeId label cc' m2 = Inr (Inl DriverInactive, cc', m2) \<and>
    releasePublication dp now' rid cc' m2 = Inr (Inl DriverInactive, cc', m2) \<and>
    CC_AddDestination dp rid ch cc' m2 = Inr (Inl DriverInactive, m2)"
  using assms
  by (intro exI [of _ "cc\<lparr>timeOfLastDoWork := now, driverActive := False\<rparr>"])
     (simp add: onHeartbeatCheckTimeouts_def check_keepalive_def CC_AddPublication_def CC_AddSubscription_def AddSubscriptionWithHandlers_def
        CC_AddCounterByLabel_def releasePublication_def release_publication_array_def CC_AddDestination_def destination_command_def
        getDriverStatus_def Let_def)

theorem inactive_driver_refuses_witness:
  "\<exists>cc'. onHeartbeatCheckTimeouts (sample_driver\<lparr>dp_TimeOfLastDriverKeepalive := \<lambda>_. Inr 20\<rparr>) (\<lambda>_. None) 600000000
      (sample_client\<lparr>timeOfLastDoWork := 599999999\<rparr>) (\<lambda>_. 0) = Inr (Inl (KeepaliveTimeout 20005000 5000), cc', \<lambda>_. 0) \<and>
    CC_AddPublication (sample_driver\<lparr>dp_TimeOfLastDriverKeepalive := \<lambda>_. Inr 20\<rparr>) 600000001 [1] 10 cc' (\<lambda>_. 0) =
      Inr (Inl DriverInactive, cc', \<lambda>_. 0)"
  using inactive_driver_refuses [of 600000000 "sample_client\<lparr>timeOfLastDoWork := 599999999\<rparr>"
      "sample_driver\<lparr>dp_TimeOfLastDriverKeepalive := \<lambda>_. Inr 20\<rparr>" "\<lambda>_. 0" 20 "\<lambda>_. None" 600000001 "[1]" 10 "\<lambda>_. 0"]
  by (fastforce simp: CC_Init_def sample_conductor_def wrap64_def keepaliveTimeoutNS_def)

end
