(* ===== verification/Idle_Strategy.thy ===== *)
theory Idle_Strategy
  imports Prelude
begin

text \<open>
  \<open>aeron/idlestrategy\<close>: what an idle strategy asks of the scheduler when there was no work. The
  requests are values: give up the processor, give it up until a deadline, sleep.
\<close>

subsection \<open>The strategies\<close>

datatype idle_request = Gosched | Yield_until int | Sleep int

definition Sleeping_Idle :: "int \<Rightarrow> int \<Rightarrow> idle_request list" where
  "Sleeping_Idle sleepFor fragmentsRead = (if fragmentsRead = 0 then [Sleep sleepFor] else [])"

definition Yielding_Idle :: "int \<Rightarrow> idle_request list" where
  "Yielding_Idle fragmentsRead = (if fragmentsRead = 0 then [Gosched] else [])"

datatype backoffState = backoffNotIdle | backoffSpinning | backoffYielding | backoffParking

record BackoffIdleStrategy =
  maxSpins :: int
  maxYields :: int
  minParkPeriodNs :: int
  maxParkPeriodNs :: int
  sleepFloorNs :: int
  bo_state :: backoffState
  spins :: int
  yields :: int
  parkPeriodNs :: int

definition NewBackoffIdleStrategy :: "int \<Rightarrow> int \<Rightarrow> int \<Rightarrow> int \<Rightarrow> BackoffIdleStrategy" where
  "NewBackoffIdleStrategy mxSpins mxYields minPark maxPark =
     \<lparr>maxSpins = mxSpins, maxYields = mxYields, minParkPeriodNs = minPark, maxParkPeriodNs = maxPark, sleepFloorNs = 0,
      bo_state = backoffNotIdle, spins = 0, yields = 0, parkPeriodNs = 0\<rparr>"

definition NewYieldingBackoffIdleStrategy :: "int \<Rightarrow> int \<Rightarrow> int \<Rightarrow> int \<Rightarrow> int \<Rightarrow> BackoffIdleStrategy" where
  "NewYieldingBackoffIdleStrategy mxSpins mxYields minPark maxPark floor =
     (NewBackoffIdleStrategy mxSpins mxYields minPark maxPark)\<lparr>sleepFloorNs := floor\<rparr>"

definition NewDefaultBackoffIdleStrategy :: BackoffIdleStrategy where
  "NewDefaultBackoffIdleStrategy = NewBackoffIdleStrategy 10 20 1000 1000000"

definition park :: "BackoffIdleStrategy \<Rightarrow> int \<Rightarrow> idle_request list" where
  "park s ns = (if sleepFloorNs s > 0 \<and> ns < sleepFloorNs s then [Yield_until ns] else [Sleep ns])"

definition backoff_reset :: "BackoffIdleStrategy \<Rightarrow> BackoffIdleStrategy" where
  "backoff_reset s = s\<lparr>spins := 0, yields := 0, parkPeriodNs := minParkPeriodNs s, bo_state := backoffNotIdle\<rparr>"

definition backoff_idle :: "BackoffIdleStrategy \<Rightarrow> idle_request list \<times> BackoffIdleStrategy" where
  "backoff_idle s =
     (case bo_state s of
        backoffNotIdle \<Rightarrow> ([], s\<lparr>bo_state := backoffSpinning, spins := wrap64 (spins s + 1)\<rparr>)
      | backoffSpinning \<Rightarrow>
          let s = s\<lparr>spins := wrap64 (spins s + 1)\<rparr>
          in ([], if spins s > maxSpins s then s\<lparr>bo_state := backoffYielding, yields := 0\<rparr> else s)
      | backoffYielding \<Rightarrow>
          let s = s\<lparr>yields := wrap64 (yields s + 1)\<rparr>
          in if yields s > maxYields s then ([], s\<lparr>bo_state := backoffParking, parkPeriodNs := minParkPeriodNs s\<rparr>)
             else ([Gosched], s)
      | backoffParking \<Rightarrow>
          let next = wrap64 (parkPeriodNs s * 2)
          in (park s (parkPeriodNs s), s\<lparr>parkPeriodNs := if next > maxParkPeriodNs s then maxParkPeriodNs s else next\<rparr>))"

definition Backoff_Idle :: "int \<Rightarrow> BackoffIdleStrategy \<Rightarrow> idle_request list \<times> BackoffIdleStrategy" where
  "Backoff_Idle workCount s = (if workCount > 0 then ([], backoff_reset s) else backoff_idle s)"

text \<open>A number of calls without work, one after the other.\<close>

fun idle_rounds :: "nat \<Rightarrow> BackoffIdleStrategy \<Rightarrow> idle_request list list \<times> BackoffIdleStrategy" where
  "idle_rounds 0 s = ([], s)"
| "idle_rounds (Suc n) s =
     (case idle_rounds n s of (rs, s) \<Rightarrow> case Backoff_Idle 0 s of (r, s) \<Rightarrow> (rs @ [r], s))"

subsection \<open>The schedule\<close>

text \<open>
  The limits for which no counter overflows. The period to park for doubles from round to round
  and stops at the maximum.
\<close>

definition limits_ok :: "BackoffIdleStrategy \<Rightarrow> bool" where
  "limits_ok s \<longleftrightarrow>
     1 \<le> maxSpins s \<and> 0 \<le> maxYields s \<and> maxSpins s + maxYields s + 2 < 9223372036854775808 \<and>
     1 \<le> minParkPeriodNs s \<and> minParkPeriodNs s \<le> maxParkPeriodNs s \<and> maxParkPeriodNs s < 4611686018427387904"

definition park_period :: "BackoffIdleStrategy \<Rightarrow> nat \<Rightarrow> int" where
  "park_period s k = min (minParkPeriodNs s * 2 ^ k) (maxParkPeriodNs s)"

definition first_park :: "BackoffIdleStrategy \<Rightarrow> nat" where
  "first_park s = nat (maxSpins s + maxYields s + 2)"

definition request :: "BackoffIdleStrategy \<Rightarrow> nat \<Rightarrow> idle_request list" where
  "request s n =
     (if int n \<le> maxSpins s then []
      else if int n \<le> maxSpins s + maxYields s then [Gosched]
      else if n < first_park s then [] else park s (park_period s (n - first_park s)))"

definition after_rounds :: "BackoffIdleStrategy \<Rightarrow> nat \<Rightarrow> BackoffIdleStrategy" where
  "after_rounds s n =
     (if n = 0 then s
      else if int n \<le> maxSpins s then s\<lparr>bo_state := backoffSpinning, spins := int n\<rparr>
      else if n < first_park s then s\<lparr>bo_state := backoffYielding, spins := maxSpins s + 1, yields := int n - maxSpins s - 1\<rparr>
      else s\<lparr>bo_state := backoffParking, spins := maxSpins s + 1, yields := maxYields s + 1,
             parkPeriodNs := park_period s (n - first_park s)\<rparr>)"

lemma park_period_next:
  assumes "limits_ok s"
  shows "(if wrap64 (park_period s k * 2) > maxParkPeriodNs s then maxParkPeriodNs s else wrap64 (park_period s k * 2)) = park_period s (Suc k)"
proof -
  have p: "1 \<le> park_period s k" "park_period s k < 4611686018427387904"
    using assms by (auto simp: limits_ok_def park_period_def intro: order_trans [OF _ mult_mono [of 1 _ 1]])
  then have "wrap64 (park_period s k * 2) = park_period s k * 2" by (intro wrap64_id) auto
  then show ?thesis using assms by (auto simp: park_period_def limits_ok_def min_def)
qed

lemma backoff_idle_step:
  assumes s: "limits_ok s" "bo_state s = backoffNotIdle" "spins s = 0" "yields s = 0"
  shows "backoff_idle (after_rounds s n) = (request s n, after_rounds s (Suc n))"
proof -
  note l = s(1) [unfolded limits_ok_def]
  consider "n = 0" | "0 < n" "int n \<le> maxSpins s" | "maxSpins s < int n" "n < first_park s" | "first_park s \<le> n" by linarith
  then show ?thesis
  proof cases
    case 4
    then have "maxSpins s + maxYields s + 2 \<le> int n" by (simp add: first_park_def)
    then show ?thesis
      using park_period_next [OF s(1), of "n - first_park s"] l 4
      by (simp add: backoff_idle_def after_rounds_def request_def park_def Let_def Suc_diff_le split: if_splits)
  qed (use l s in \<open>auto simp: backoff_idle_def after_rounds_def request_def first_park_def park_period_def wrap64_id Let_def\<close>)
qed

text \<open>
  (C33) A backoff strategy that is called without work spins, then yields, then parks: the
  number of rounds of each kind is given by its limits, and the rounds of parking last for the
  minimal period, then twice as long each, but never longer than the maximal period.
\<close>

theorem backoff_schedule:
  assumes "limits_ok s" and "bo_state s = backoffNotIdle" and "spins s = 0" and "yields s = 0"
  shows "idle_rounds n s = (map (request s) [0..<n], after_rounds s n)"
proof (induction n)
  case (Suc n)
  then show ?case using backoff_idle_step [OF assms] by (simp add: Backoff_Idle_def)
qed (simp add: after_rounds_def)

theorem backoff_schedule_witness:
  "fst (idle_rounds 44 NewDefaultBackoffIdleStrategy) ! 43 = [Sleep 1000000] \<and>
   fst (idle_rounds 44 NewDefaultBackoffIdleStrategy) ! 33 = [Sleep 2000]"
  using backoff_schedule [of NewDefaultBackoffIdleStrategy 44]
  by (simp add: limits_ok_def NewDefaultBackoffIdleStrategy_def NewBackoffIdleStrategy_def request_def first_park_def park_def
      park_period_def)

end
