(* ===== verification/Aeron_Client.thy ===== *)
theory Aeron_Client
  imports Conductor_Closing Idle_Strategy
begin

text \<open>
  \<open>aeron/aeron.go\<close> and \<open>aeron/context.go\<close>: connecting to a driver, the calls that wait for the
  driver's answer, and closing. The calls that only pass on to the conductor are the conductor's
  operations themselves. Between two rounds of a waiting call the other goroutines, the
  conductor's loop among them, change the conductor and the memory by \<open>others\<close>.
\<close>

subsection \<open>Context and connection\<close>

record Context =
  ctx_mediaDriverTo :: int
  ctx_errorHandler :: "handler_id option"
  ctx_newPublicationHandler :: "handler_id option"
  ctx_newSubscriptionHandler :: "handler_id option"
  ctx_availableImageHandler :: "handler_id option"
  ctx_unavailableImageHandler :: "handler_id option"
  ctx_availableCounterHandler :: "handler_id option"
  ctx_unavailableCounterHandler :: "handler_id option"
  ctx_resourceLingerTo :: int
  ctx_publicationConnectionTo :: int
  ctx_interServiceTo :: int
  ctx_idleSleep :: int

text \<open>The five handlers of a new context are function literals; they are given numbers here.\<close>

definition NewContext :: Context where
  "NewContext =
     \<lparr>ctx_mediaDriverTo = 5000000000, ctx_errorHandler = Some 0, ctx_newPublicationHandler = Some 1,
      ctx_newSubscriptionHandler = Some 2, ctx_availableImageHandler = Some 3, ctx_unavailableImageHandler = Some 4,
      ctx_availableCounterHandler = None, ctx_unavailableCounterHandler = None, ctx_resourceLingerTo = 3000000000,
      ctx_publicationConnectionTo = 5000000000, ctx_interServiceTo = 10000000000, ctx_idleSleep = 4000000\<rparr>"

record Aeron =
  ae_context :: Context
  ae_conductor :: ClientConductor
  ae_driverProxy :: Proxy
  ae_counters :: MetaDataFlyweight
  ae_cncFile :: int
  ae_copyReceiver :: CopyReceiver

text \<open>The conductor inside a new client, all of it zero values.\<close>

definition zero_conductor :: ClientConductor where
  "zero_conductor =
     \<lparr>cc_pubs = [], cc_subs = [], cc_counters = None, counterValuesBuffer = Wrap 0 0,
      counterReader = \<lparr>rd_metaData = Wrap 0 0, rd_values = Wrap 0 0, maxCounterID = 0\<rparr>,
      lingeringResources = [], onNewPublicationHandler = None, onNewSubscriptionHandler = None, onAvailableImageHandler = None,
      onUnavailableImageHandler = None, availableCounterHandlers = [], unavailableCounterHandlers = [], errorHandler = None,
      cc_running = False, conductorRunning = False, driverActive = False, timeOfLastKeepalive = 0,
      timeOfLastCheckManagedResources = 0, timeOfLastDoWork = 0, driverTimeoutNs = 0, interServiceTimeoutNs = 0,
      publicationConnectionTimeoutNs = 0, resourceLingerTimeoutNs = 0, heartbeatTimestamp = None,
      cc_publications = Map.empty, cc_subscriptions = Map.empty, cc_counterObjects = Map.empty, cc_calls = []\<rparr>"

abbreviation add_if_set :: "handler_id option \<Rightarrow> (handler_id \<Rightarrow> ClientConductor \<Rightarrow> mem \<Rightarrow> (int \<times> ClientConductor \<times> mem) res) \<Rightarrow>
    ClientConductor \<Rightarrow> mem \<Rightarrow> (ClientConductor \<times> mem) res" where
  "add_if_set handler add cc m \<equiv> (case handler of None \<Rightarrow> Inr (cc, m) | Some h \<Rightarrow> bindR (add h cc m) (\<lambda>(_, cc, m). Inr (cc, m)))"

definition start_conductor :: "DriverProxy \<Rightarrow> MetaDataFlyweight \<Rightarrow> Context \<Rightarrow> mem \<Rightarrow> (ClientConductor \<times> mem) res" where
  "start_conductor dp meta ctx m =
     (let cc = (CC_Init (Int64Field_Get m (ClientLivenessTo meta)) (ctx_mediaDriverTo ctx) (ctx_publicationConnectionTo ctx)
                  (ctx_resourceLingerTo ctx) (ValuesBuf meta) (MetaDataBuf meta) zero_conductor)
            \<lparr>onAvailableImageHandler := ctx_availableImageHandler ctx, onUnavailableImageHandler := ctx_unavailableImageHandler ctx,
             onNewPublicationHandler := ctx_newPublicationHandler ctx, onNewSubscriptionHandler := ctx_newSubscriptionHandler ctx\<rparr>
      in bindR (add_if_set (ctx_availableCounterHandler ctx) (AddAvailableCounterHandler dp) cc m) (\<lambda>(cc, m).
         bindR (add_if_set (ctx_unavailableCounterHandler ctx) (AddUnavailableCounterHandler dp) cc m) (\<lambda>(cc, m).
         Inr (CC_Start (cc\<lparr>errorHandler := ctx_errorHandler ctx\<rparr>), m))))"

definition Connect :: "(nat \<Rightarrow> nat \<Rightarrow> mem \<Rightarrow> mem) \<Rightarrow> int \<Rightarrow> int \<Rightarrow> (int \<times> int) outcome \<Rightarrow> Context \<Rightarrow> mem \<Rightarrow> (Aeron outcome \<times> mem) res option" where
  "Connect env heap scratch mapped ctx m =
     (case MapFile m mapped of
        Inl f \<Rightarrow> Some (Inl f)
      | Inr (Inl e) \<Rightarrow> Some (Inr (Inl e, m))
      | Inr (Inr meta) \<Rightarrow>
          (case bindR (ManyToOne_Init (ToDriverBuf meta)) (Proxy_Init m) of
             Inl f \<Rightarrow> Some (Inl f)
           | Inr (driver, m) \<Rightarrow>
               (case NewReceiver (ToClientsBuf meta) of
                  Inl e \<Rightarrow> Some (Inr (Inl e, m))
                | Inr recv \<Rightarrow>
                    map_option (\<lambda>r. bindR r (\<lambda>(bcast, m).
                      bindR (start_conductor (proxy_interface (env 0) heap driver) meta ctx m) (\<lambda>(cc, m).
                      Inr (Inr \<lparr>ae_context = ctx, ae_conductor = cc, ae_driverProxy = driver, ae_counters = meta,
                                ae_cncFile = (case mapped of Inl _ \<Rightarrow> 0 | Inr (ptr, _) \<Rightarrow> ptr), ae_copyReceiver = bcast\<rparr>, m))))
                      (NewCopyReceiver env scratch recv m))))"

text \<open>\<open>Close\<close> reports both errors to the handler of the context, and returns the one of the file.\<close>

abbreviation call_error_handler :: "handler_id option \<Rightarrow> conductor_error \<Rightarrow> ClientConductor \<Rightarrow> ClientConductor res" where
  "call_error_handler handler e cc \<equiv> (case handler of None \<Rightarrow> nil_panic | Some _ \<Rightarrow> Inr (cc\<lparr>cc_calls := cc_calls cc @ [ErrorCall e]\<rparr>))"

definition Aeron_Close :: "(nat \<Rightarrow> mem \<Rightarrow> mem) \<Rightarrow> int \<Rightarrow> (int \<Rightarrow> string option) \<Rightarrow> int \<Rightarrow> bool \<Rightarrow> Aeron \<Rightarrow> mem \<Rightarrow> (unit answer \<times> Aeron \<times> mem) res" where
  "Aeron_Close env heap close now stopped ae m =
     (let handler = ctx_errorHandler (ae_context ae) in
      bindR (CC_Close (proxy_interface env heap (ae_driverProxy ae)) now stopped (ae_conductor ae) m) (\<lambda>(r, cc, m).
      bindR (case r of Inl e \<Rightarrow> call_error_handler handler e cc | Inr _ \<Rightarrow> Inr cc) (\<lambda>cc.
      case close (ae_cncFile ae) of
        None \<Rightarrow> Inr (Inr (), ae\<lparr>ae_conductor := cc\<rparr>, m)
      | Some e \<Rightarrow> bindR (call_error_handler handler (CloseFailed e) cc) (\<lambda>cc. Inr (Inl (CloseFailed e), ae\<lparr>ae_conductor := cc\<rparr>, m)))))"

subsection \<open>Waiting for the driver\<close>

type_synonym others = "nat \<Rightarrow> ClientConductor \<times> mem \<Rightarrow> ClientConductor \<times> mem"

partial_function (option) await_publication :: "(nat \<Rightarrow> int) \<Rightarrow> others \<Rightarrow> nat \<Rightarrow> int \<Rightarrow> ClientConductor \<Rightarrow> mem \<Rightarrow>
    (int option answer \<times> ClientConductor \<times> mem) res option" where
  "await_publication clock others k rid cc m =
     (case others k (cc, m) of (cc, m) \<Rightarrow>
      case FindPublication (clock k) rid cc m of
        Inl f \<Rightarrow> Some (Inl f)
      | Inr (Inr None, cc) \<Rightarrow> await_publication clock others (Suc k) rid cc m
      | Inr (r, cc) \<Rightarrow> Some (Inr (r, cc, m)))"

partial_function (option) await_subscription :: "(nat \<Rightarrow> int) \<Rightarrow> others \<Rightarrow> nat \<Rightarrow> int \<Rightarrow> ClientConductor \<Rightarrow> mem \<Rightarrow>
    (int option answer \<times> ClientConductor \<times> mem) res option" where
  "await_subscription clock others k rid cc m =
     (case others k (cc, m) of (cc, m) \<Rightarrow>
      case FindSubscription (clock k) rid cc of
        Inl f \<Rightarrow> Some (Inl f)
      | Inr (Inr None) \<Rightarrow> await_subscription clock others (Suc k) rid cc m
      | Inr r \<Rightarrow> Some (Inr (r, cc, m)))"

abbreviation add_and_wait :: "(int answer \<times> ClientConductor \<times> mem) res \<Rightarrow>
    (int \<Rightarrow> ClientConductor \<Rightarrow> mem \<Rightarrow> (int option answer \<times> ClientConductor \<times> mem) res option) \<Rightarrow>
    (int option answer \<times> ClientConductor \<times> mem) res option" where
  "add_and_wait added wait \<equiv>
     (case added of
        Inl f \<Rightarrow> Some (Inl f)
      | Inr (Inl e, cc, m) \<Rightarrow> Some (Inr (Inl e, cc, m))
      | Inr (Inr rid, cc, m) \<Rightarrow> wait rid cc m)"

definition Aeron_AddPublication :: "DriverProxy \<Rightarrow> (nat \<Rightarrow> int) \<Rightarrow> others \<Rightarrow> int \<Rightarrow> byte list \<Rightarrow> int \<Rightarrow> ClientConductor \<Rightarrow> mem \<Rightarrow>
    (int option answer \<times> ClientConductor \<times> mem) res option" where
  "Aeron_AddPublication dp clock others now channel strID cc m =
     add_and_wait (CC_AddPublication dp now channel strID cc m) (await_publication clock others 0)"

definition Aeron_AddExclusivePublication :: "DriverProxy \<Rightarrow> (nat \<Rightarrow> int) \<Rightarrow> others \<Rightarrow> int \<Rightarrow> byte list \<Rightarrow> int \<Rightarrow> ClientConductor \<Rightarrow> mem \<Rightarrow>
    (int option answer \<times> ClientConductor \<times> mem) res option" where
  "Aeron_AddExclusivePublication dp clock others now channel strID cc m =
     add_and_wait (CC_AddExclusivePublication dp now channel strID cc m) (await_publication clock others 0)"

definition Aeron_AddSubscriptionWithHandlers :: "DriverProxy \<Rightarrow> (nat \<Rightarrow> int) \<Rightarrow> others \<Rightarrow> int \<Rightarrow> byte list \<Rightarrow> int \<Rightarrow>
    handler_id option \<Rightarrow> handler_id option \<Rightarrow> ClientConductor \<Rightarrow> mem \<Rightarrow> (int option answer \<times> ClientConductor \<times> mem) res option" where
  "Aeron_AddSubscriptionWithHandlers dp clock others now channel strID available unavailable cc m =
     add_and_wait (AddSubscriptionWithHandlers dp now channel strID available unavailable cc m) (await_subscription clock others 0)"

definition Aeron_AddSubscription :: "Context \<Rightarrow> DriverProxy \<Rightarrow> (nat \<Rightarrow> int) \<Rightarrow> others \<Rightarrow> int \<Rightarrow> byte list \<Rightarrow> int \<Rightarrow>
    ClientConductor \<Rightarrow> mem \<Rightarrow> (int option answer \<times> ClientConductor \<times> mem) res option" where
  "Aeron_AddSubscription ctx dp clock others now channel strID =
     Aeron_AddSubscriptionWithHandlers dp clock others now channel strID (ctx_availableImageHandler ctx) (ctx_unavailableImageHandler ctx)"

text \<open>
  The deprecated calls report an error and go on to wait with the registration id 0; what they
  send on their channel is the reference found, or nil after reporting the error.
\<close>

definition deprecated_wait :: "(int option answer \<times> ClientConductor \<times> mem) res option \<Rightarrow> (int option \<times> ClientConductor \<times> mem) res option" where
  "deprecated_wait waited =
     map_option (\<lambda>r. bindR r (\<lambda>(a, cc, m).
       case a of
         Inl e \<Rightarrow> bindR (onError e cc) (\<lambda>cc. Inr (None, cc, m))
       | Inr ref \<Rightarrow> Inr (ref, cc, m))) waited"

definition add_deprecated :: "(int answer \<times> ClientConductor \<times> mem) res \<Rightarrow>
    (int \<Rightarrow> ClientConductor \<Rightarrow> mem \<Rightarrow> (int option answer \<times> ClientConductor \<times> mem) res option) \<Rightarrow>
    (int option \<times> ClientConductor \<times> mem) res option" where
  "add_deprecated added wait =
     (case bindR added (\<lambda>(a, cc, m). case a of Inl e \<Rightarrow> bindR (onError e cc) (\<lambda>cc. Inr (0, cc, m)) | Inr rid \<Rightarrow> Inr (rid, cc, m)) of
        Inl f \<Rightarrow> Some (Inl f)
      | Inr (rid, cc, m) \<Rightarrow> deprecated_wait (wait rid cc m))"

definition AddSubscriptionDeprecated :: "DriverProxy \<Rightarrow> (nat \<Rightarrow> int) \<Rightarrow> others \<Rightarrow> int \<Rightarrow> byte list \<Rightarrow> int \<Rightarrow> ClientConductor \<Rightarrow> mem \<Rightarrow>
    (int option \<times> ClientConductor \<times> mem) res option" where
  "AddSubscriptionDeprecated dp clock others now channel strID cc m =
     add_deprecated (CC_AddSubscription dp now channel strID cc m) (await_subscription clock others 0)"

definition AddPublicationDeprecated :: "DriverProxy \<Rightarrow> (nat \<Rightarrow> int) \<Rightarrow> others \<Rightarrow> int \<Rightarrow> byte list \<Rightarrow> int \<Rightarrow> ClientConductor \<Rightarrow> mem \<Rightarrow>
    (int option \<times> ClientConductor \<times> mem) res option" where
  "AddPublicationDeprecated dp clock others now channel strID cc m =
     add_deprecated (CC_AddPublication dp now channel strID cc m) (await_publication clock others 0)"

definition AddExclusivePublicationDeprecated :: "DriverProxy \<Rightarrow> (nat \<Rightarrow> int) \<Rightarrow> others \<Rightarrow> int \<Rightarrow> byte list \<Rightarrow> int \<Rightarrow> ClientConductor \<Rightarrow> mem \<Rightarrow>
    (int option \<times> ClientConductor \<times> mem) res option" where
  "AddExclusivePublicationDeprecated dp clock others now channel strID cc m =
     add_deprecated (CC_AddExclusivePublication dp now channel strID cc m) (await_publication clock others 0)"

subsection \<open>Connecting gives a conductor with its invariant\<close>

lemma start_conductor_inv:
  assumes "start_conductor dp meta ctx m = Inr (cc, m')" and "ctx_availableCounterHandler ctx = None" and "ctx_unavailableCounterHandler ctx = None"
  shows "conductor_inv n (NewReader (ValuesBuf meta) (MetaDataBuf meta)) cc \<and> cc_running cc \<and> driverActive cc \<and>
    interServiceTimeoutNs cc = Int64Field_Get m (ClientLivenessTo meta)"
  using assms
  by (auto simp: start_conductor_def CC_Start_def CC_Init_def zero_conductor_def inv_defs objects_ok_def Let_def)

lemma Connect_inv:
  assumes run: "Connect env heap scratch mapped ctx m = Some (Inr (Inr ae, m'))"
    and none: "ctx_availableCounterHandler ctx = None" "ctx_unavailableCounterHandler ctx = None"
  shows "conductor_inv n (NewReader (ValuesBuf (ae_counters ae)) (MetaDataBuf (ae_counters ae))) (ae_conductor ae)"
proof -
  obtain meta where meta: "MapFile m mapped = Inr (Inr meta)" using run by (auto simp: Connect_def split: sum.splits)
  obtain driver m1 where d: "bindR (ManyToOne_Init (ToDriverBuf meta)) (Proxy_Init m) = Inr (driver, m1)"
    using run meta by (auto simp: Connect_def split: sum.splits prod.splits)
  obtain recv where recv: "NewReceiver (ToClientsBuf meta) = Inr recv" using run meta d by (auto simp: Connect_def split: sum.splits)
  obtain bcast m2 cc where "start_conductor (proxy_interface (env 0) heap driver) meta ctx m2 = Inr (cc, m')"
    and "ae_conductor ae = cc" and "ae_counters ae = meta"
    using run meta d recv by (auto simp: Connect_def bindR_eq_Inr)
  then show ?thesis using start_conductor_inv [OF _ none] by auto
qed

subsection \<open>Waiting ends\<close>

definition registered_at :: "int \<Rightarrow> int \<Rightarrow> int \<Rightarrow> ClientConductor \<Rightarrow> bool" where
  "registered_at rid t0 timeout cc \<longleftrightarrow>
     driverTimeoutNs cc = timeout \<and> (\<forall>pd. Some pd \<in> set (cc_pubs cc) \<and> pd_regID pd = rid \<longrightarrow> pd_timeOfRegistration pd = t0)"

lemma find_publication_pending:
  "find_publication now rid i ps cc m = Inr (Inr None, cc') \<Longrightarrow> set ps \<subseteq> set (cc_pubs cc) \<Longrightarrow> registered_at rid t0 timeout cc \<Longrightarrow>
   cc' = cc \<and> now \<le> wrap64 (t0 + timeout)"
  by (induction now rid i ps cc m rule: find_publication.induct)
     (auto simp: nil_panic_def registered_at_def timeoutExceeded_def bindR_eq_Inr split: if_splits registration_status.splits)

lemma await_publication_returns:
  assumes "\<forall>k s. registered_at rid t0 timeout (fst s) \<longrightarrow> registered_at rid t0 timeout (fst (others k s))"
    and "clock late > wrap64 (t0 + timeout)" and "k \<le> late" and "registered_at rid t0 timeout cc"
  shows "\<exists>r. await_publication clock others k rid cc m = Some r \<and> (\<forall>cc' m'. r \<noteq> Inr (Inr None, cc', m'))"
  using assms(3,4)
proof (induction "late - k" arbitrary: k cc m)
  case 0
  obtain cc1 m1 where s: "others k (cc, m) = (cc1, m1)" by fastforce
  then have "registered_at rid t0 timeout cc1" using assms(1) 0 by (metis fst_conv)
  then have "FindPublication (clock k) rid cc1 m1 \<noteq> Inr (Inr None, cc')" for cc'
    using find_publication_pending [of "clock k" rid 0 "cc_pubs cc1" cc1 m1 cc' t0 timeout] assms(2) 0 by (auto simp: FindPublication_def)
  then show ?case by (subst await_publication.simps) (auto simp: s split: sum.splits option.splits)
next
  case (Suc d)
  obtain cc1 m1 where s: "others k (cc, m) = (cc1, m1)" by fastforce
  then have reg: "registered_at rid t0 timeout cc1" using assms(1) Suc.prems(2) by (metis fst_conv)
  have "registered_at rid t0 timeout cc'" if "FindPublication (clock k) rid cc1 m1 = Inr (Inr None, cc')" for cc'
    using find_publication_pending [of "clock k" rid 0 "cc_pubs cc1" cc1 m1 cc' t0 timeout] reg that by (simp add: FindPublication_def)
  then have "\<exists>r. await_publication clock others (Suc k) rid cc' m1 = Some r \<and> (\<forall>cc' m'. r \<noteq> Inr (Inr None, cc', m'))"
    if "FindPublication (clock k) rid cc1 m1 = Inr (Inr None, cc')" for cc'
    using Suc.hyps(1) [of "Suc k" cc' m1] Suc.hyps(2) Suc.prems(1) that by simp
  then show ?case by (subst await_publication.simps) (auto simp: s split: sum.splits option.splits)
qed

text \<open>
  (C15) Adding a publication returns: at the latest in the round in which the clock has passed the
  driver's time-out after the registration, with the publication, an error or a panic, never
  with nothing. The other goroutines may do anything meanwhile except change the time of the
  registration and the time-out.
\<close>

theorem AddPublication_returns:
  assumes inv: "conductor_inv (proxy_next driver m) reader cc" and ready: "proxy_ready heap driver reader (Suc 0) m"
    and args: "channel_ok ch" "in_i32 st" and late: "clock late > wrap64 (now + driverTimeoutNs cc)"
    and others: "\<forall>rid k s. registered_at rid now (driverTimeoutNs cc) (fst s) \<longrightarrow> registered_at rid now (driverTimeoutNs cc) (fst (others k s))"
  shows "\<exists>r. Aeron_AddPublication (proxy_interface alone heap driver) clock others now ch st cc m = Some r \<and>
    (\<forall>cc' m'. r \<noteq> Inr (Inr None, cc', m'))"
proof -
  let ?dp = "proxy_interface alone heap driver"
  have "registered_at rid now (driverTimeoutNs cc) cc1" if "CC_AddPublication ?dp now ch st cc m = Inr (Inr rid, cc1, m1)" for rid cc1 m1
    using publication_added [OF inv ready args that] inv_others(1) [OF inv]
    by (auto simp: registered_at_def others_than_def publicationStateDefn_Init_def)
  then have "\<exists>r. await_publication clock others 0 rid cc1 m1 = Some r \<and> (\<forall>cc' m'. r \<noteq> Inr (Inr None, cc', m'))"
    if "CC_AddPublication ?dp now ch st cc m = Inr (Inr rid, cc1, m1)" for rid cc1 m1
    using await_publication_returns [of rid now "driverTimeoutNs cc" others clock late 0 cc1 m1] late others that by blast
  then show ?thesis by (auto simp: Aeron_AddPublication_def split: sum.splits prod.splits)
qed

theorem AddPublication_returns_witness:
  "\<exists>r. Aeron_AddPublication sample_driver (\<lambda>k. 1000 * int k) (\<lambda>_ s. s) 100 [1, 2, 3] 10 sample_client (\<lambda>_. 0) = Some r \<and>
    (\<forall>cc' m'. r \<noteq> Inr (Inr None, cc', m'))"
proof (rule AddPublication_returns [where late = 6 and reader = client_reader])
  show "conductor_inv (proxy_next sample_proxy (\<lambda>_. 0)) client_reader sample_client"
    unfolding client_reader_def by (rule CC_Init_inv) (simp_all add: sample_conductor_def)
  show "proxy_ready 8192 sample_proxy client_reader (Suc 0) (\<lambda>_. 0)" by (rule sample_ready) simp
qed (simp_all add: channel_ok_def in_i32_def CC_Init_def wrap64_def)

end
