(* ===== verification/Spec2Isabelle.thy ===== *)
theory Spec2Isabelle
  imports Append_Refinement Pub_Sub Aeron_Client
begin

text \<open>
  A verification development of aeron-go, the Go client of the Aeron messaging system.

  \<^bold>\<open>The program.\<close> A client shares memory with a media driver. A publication appends messages as
  frames to a log buffer of three terms; an image reads the frames of such a log, a subscription
  polls its images in turn, and an assembler puts fragmented messages together. Commands go to
  the driver through a ring buffer with many producers; the driver's events come back through a
  broadcast buffer. The client conductor keeps the registrations: it sends the commands, takes
  the events, checks the time-outs and closes what was released. The client object connects all
  of it and waits for answers.

  \<^bold>\<open>The model.\<close> Go's integers are \<^typ>\<open>int\<close> with the wrap-around of their width written out. All
  buffers are ranges of one byte-addressed memory, so overlapping buffers overlap in the model. A
  panic, \<open>log.Fatal\<close> or a send that blocks is a value of \<open>fault\<close>; an error that is returned is a
  value of \<open>outcome\<close> or \<open>answer\<close>. What other threads or processes do to shared memory between two
  accesses is an argument (\<open>env\<close>, \<open>others\<close>) of the rotation of a log, of the ring buffer, of the
  broadcast buffer, of the conductor's loop and of waiting for an answer; \<open>alone\<close> is the case where they
  do nothing. Appending to a log, claiming, reading and polling are modelled for one publisher or
  one poller at a time, without such an argument. Handlers are arguments that thread a state, or entries of a trace of calls. Objects
  the conductor hands out live in stores keyed by their registration id. The clock, the mapping
  of files and their unmapping, and the addresses of fresh buffers are arguments.

  \<^bold>\<open>Theories, in the order of the code's layers.\<close>
  \<^item> \<open>Prelude\<close>: integers, faults, memory. \<open>Bits\<close>: \<open>aeron/util/bits.go\<close>.
  \<^item> \<open>Atomic_Buffer\<close>: \<open>aeron/atomic/buffer.go\<close>; the locale \<open>cell\<close> gives the laws of a memory cell, interpreted at
    the four widths. \<open>Flyweight\<close>: \<open>aeron/flyweight\<close>.
  \<^item> \<open>Log_Descriptor\<close>: \<open>aeron/logbuffer\<close>: frame header, meta data, rotation, mapping of log files. Rotation
    among other publishers acts as two conditional stores. A log file of 2 GiB or more cannot be
    opened.
  \<^item> \<open>Frame_Log\<close>: the abstract log, a list of committed frames, that appends and reads are related to.
  \<^item> \<open>Term_Appender\<close>, \<open>Append_Refinement\<close>: \<open>term/appender.go\<close>; the locale \<open>append_operation\<close> is the contract of
    an append, interpreted on the unfragmented and the fragmented one. An append adds exactly its
    message or pads the term.
  \<^item> \<open>Term_Reader\<close>: \<open>term/reader.go\<close>; a read equals the scan of the log, in the locale
    \<open>fragment_consumer\<close> for any handler with a contract.
  \<^item> \<open>Publication\<close>: \<open>publication.go\<close>, \<open>position.go\<close>; every outcome of an offer.
  \<^item> \<open>Image\<close>, \<open>Image_Polling\<close>: \<open>image_impl.go\<close>; plain, bounded and controlled polling.
  \<^item> \<open>Fragment_Assembler\<close>: both assemblers; \<open>message_consumer\<close> is a sublocale of \<open>fragment_consumer\<close>.
  \<^item> \<open>Pub_Sub\<close>: an offered message is delivered by the next poll, once and unchanged.
  \<^item> \<open>Counters\<close>: \<open>aeron/counters\<close>; searches and scans over all counters, and that the last counter can be
    scanned only. \<open>Channel_Uri\<close>: \<open>channeluri.go\<close>, parser, printer, their round trip on ASCII strings and
    what becomes of other bytes.
  \<^item> \<open>Subscription\<close>: \<open>subscription.go\<close>, \<open>imagelist.go\<close>; the locale \<open>image_poller\<close> serves plain and controlled
    polling. A poll delivers from all images, and each image has its turn to be the first.
  \<^item> \<open>Ring_Buffer\<close>, \<open>Ring_Log\<close>: \<open>aeron/ringbuffer\<close>; a write appends one record to the abstract ring or changes nothing.
  \<^item> \<open>Broadcast\<close>: \<open>aeron/broadcast\<close>; a message is delivered whole or not at all, whatever the transmitter does;
    a new receiver starts at the tail.
  \<^item> \<open>Commands\<close>, \<open>Driver_Events\<close>, \<open>Driver_Proxy\<close>: \<open>aeron/command\<close>, \<open>aeron/driver\<close>; what each command puts into the
    ring and which listener call each event is.
  \<^item> \<open>Conductor\<close>, \<open>Conductor_Events\<close>: \<open>clientconductor.go\<close>, \<open>counter.go\<close>. \<open>Proxy_Contract\<close>: the locale \<open>driver_proxy\<close>, what
    the conductor relies on of a proxy, interpreted on the proxy over the ring.
  \<^item> \<open>Conductor_Steps\<close> has the invariant and the relation \<open>conductor_run\<close> of all operations, events and
    time-outs in any order; \<open>Conductor_Invariant\<close>, \<open>Conductor_Release\<close>, \<open>Conductor_Lifecycle\<close> and \<open>Conductor_Properties\<close>
    prove that each step keeps it.
  \<^item> \<open>Conductor_Life\<close>: the invariant on every run of the client and the life of a publication.
    \<open>Conductor_Closing\<close>: which publications closing a client reaches, lingering resources, the end of
    the loop.
  \<^item> \<open>Idle_Strategy\<close>: \<open>aeron/idlestrategy\<close>. \<open>Aeron_Client\<close>: \<open>aeron.go\<close>, \<open>context.go\<close>; waiting for the driver ends.

  \<^bold>\<open>Bounds.\<close> Loops that could run forever (the rotation of a log, the claim of the ring buffer, scanning
  counters, reading a term, scrolling to the tail, the conductor's loop, waiting for an answer) are partial functions into \<open>option\<close>, and that they return
  is proved where it is claimed. No fuel is used. The number of commands the 64-bit positions and
  ids still allow for is counted by \<open>proxy_ready\<close>; a client would have to send more than
  \<open>10 ^ 15\<close> commands to exhaust it. Terms are powers of two, as the code checks.

  \<^bold>\<open>Not modelled.\<close> The archive and cluster clients, which are protocols of their own over codecs
  generated from a schema; the operating system's side of \<open>memmap\<close>; logging, the statistics tool,
  examples, mocks and tests. The recovery of the conductor's goroutine from a panic is not
  modelled: a panic is the last value of its loop; a round that blocks for good makes the loop return
  nothing. Several publishers that append to one log at the same moment are not modelled. The lock of the conductor makes each of its
  operations one step; that Go programs without it may interleave more finely is not considered.
  The setters of the context and the calls of the client that only pass on to the conductor have
  no definition of their own.
\<close>

end
